(* ===== verification/HS_Prelude.thy ===== *)
theory HS_Prelude
  imports Main "HOL-Library.Word" "HOL-Library.Monad_Syntax" "HOL-Library.Multiset"
begin

text \<open>
  Shared vocabulary of the development: the byte-level types the Go code works on, the
  machine-integer reading of \<open>math/big\<close> values, big-endian integers (used by the RLP
  codec in both directions), and the generic list and option lemmas that the component
  theories declare into their proof automation.

  A Go byte array of fixed length (\<open>common.Hash\<close>, \<open>common.Address\<close>) is a list of bytes;
  the predicates \<open>wf_hash\<close> and \<open>wf_address\<close> state the length. A pointer that some
  reachable state leaves nil is an \<open>option\<close>; a pointer or slice that every constructor and
  decoder of its type fills is a plain value, so a test of it against \<open>nil\<close> in the source has
  no counterpart. A call that would dereference a nil pointer or index out of range is
  the value \<open>None\<close> of an outer \<open>option\<close> (a Go panic), never an unspecified value.
\<close>

section \<open>Types\<close>

type_synonym byte = "8 word"
type_synonym bytes = "byte list"
type_synonym u64 = "64 word"
type_synonym hash = bytes
type_synonym address = bytes

definition HashLength :: nat where "HashLength = 32"
definition AddressLength :: nat where "AddressLength = 20"

definition EmptyHash :: hash where "EmptyHash = replicate HashLength 0"
definition EmptyAddress :: address where "EmptyAddress = replicate AddressLength 0"

definition wf_hash :: "hash \<Rightarrow> bool" where "wf_hash h \<longleftrightarrow> length h = HashLength"
definition wf_address :: "address \<Rightarrow> bool" where "wf_address a \<longleftrightarrow> length a = AddressLength"

lemma wf_EmptyHash [simp]: "wf_hash EmptyHash"
  by (simp add: wf_hash_def EmptyHash_def)

lemma wf_EmptyAddress [simp]: "wf_address EmptyAddress"
  by (simp add: wf_address_def EmptyAddress_def)

section \<open>Integers of \<open>math/big\<close>\<close>

text \<open>
  \<open>(*big.Int).Uint64\<close> returns the low 64 bits of the absolute value,
  \<open>(*big.Int).Int64\<close> the low 64 bits read as two's complement, whether or not the value
  fits; \<open>Cmp\<close> is the three-way comparison.
\<close>

definition big_Uint64 :: "int \<Rightarrow> u64" where
  "big_Uint64 x = word_of_int \<bar>x\<bar>"

definition big_Int64 :: "int \<Rightarrow> int" where
  "big_Int64 x = sint (word_of_int x :: u64)"

definition big_Cmp :: "int \<Rightarrow> int \<Rightarrow> int" where
  "big_Cmp x y = (if x < y then -1 else if x = y then 0 else 1)"

definition big_Sign :: "int \<Rightarrow> int" where
  "big_Sign x = sgn x"

lemma big_Cmp_simps [simp]:
  "big_Cmp x y = 0 \<longleftrightarrow> x = y"
  "big_Cmp x y < 0 \<longleftrightarrow> x < y"
  "0 < big_Cmp x y \<longleftrightarrow> y < x"
  by (auto simp: big_Cmp_def)

lemma big_Int64_range: "- (2 ^ 63) \<le> big_Int64 x \<and> big_Int64 x < 2 ^ 63"
  using sint_range_size [of "word_of_int x :: u64"]
  by (simp add: big_Int64_def word_size)

lemma big_Int64_id:
  assumes "- (2 ^ 63) \<le> x" "x < 2 ^ 63"
  shows "big_Int64 x = x"
proof -
  have "signed_take_bit 63 x = x"
    using assms by (simp add: signed_take_bit_int_eq_self)
  then show ?thesis
    by (simp add: big_Int64_def sint_sbintrunc')
qed

lemma big_Int64_wrap: "big_Int64 (x + 2 ^ 64) = big_Int64 x"
proof -
  have "(word_of_int (x + 2 ^ 64) :: u64) = word_of_int x"
    by (simp add: word_of_int_eq_iff take_bit_eq_mod)
  then show ?thesis unfolding big_Int64_def by (simp only:)
qed

lemma unat_big_Uint64:
  assumes "0 \<le> x" "x < 2 ^ 64"
  shows "unat (big_Uint64 x) = nat x"
  using assms by (simp add: big_Uint64_def unat_eq_nat_uint uint_word_of_int)

lemma big_Uint64_inj:
  assumes "0 \<le> x" "x < 2 ^ 64" "0 \<le> y" "y < 2 ^ 64" "big_Uint64 x = big_Uint64 y"
  shows "x = y"
proof -
  have "nat x = nat y"
    using unat_big_Uint64 [OF assms(1,2)] unat_big_Uint64 [OF assms(3,4)] assms(5) by simp
  with assms(1,3) show ?thesis by simp
qed

section \<open>Big-endian integers\<close>

fun be_val_acc :: "nat \<Rightarrow> bytes \<Rightarrow> nat" where
  "be_val_acc a [] = a"
| "be_val_acc a (b # bs) = be_val_acc (256 * a + unat b) bs"

definition be_val :: "bytes \<Rightarrow> nat" where
  "be_val bs = be_val_acc 0 bs"

function be_min :: "nat \<Rightarrow> bytes" where
  "be_min n = (if n = 0 then [] else be_min (n div 256) @ [of_nat (n mod 256)])"
  by pat_completeness auto
termination
  by (relation "measure id") auto

declare be_min.simps [simp del]

definition no_leading_zero :: "bytes \<Rightarrow> bool" where
  "no_leading_zero bs \<longleftrightarrow> (case bs of [] \<Rightarrow> True | b # _ \<Rightarrow> b \<noteq> 0)"

lemma be_val_acc_append: "be_val_acc a (xs @ ys) = be_val_acc (be_val_acc a xs) ys"
  by (induction xs arbitrary: a) auto

lemma be_val_snoc: "be_val (xs @ [b]) = 256 * be_val xs + unat b"
  by (simp add: be_val_def be_val_acc_append)

lemma be_val_Nil [simp]: "be_val [] = 0"
  by (simp add: be_val_def)

lemma be_val_single [simp]: "be_val [b] = unat b"
  by (simp add: be_val_def)

lemma unat_byte_lt: "unat (b :: byte) < 256"
proof -
  have "unat b < 2 ^ LENGTH(8)" by (rule unsigned_less)
  then show ?thesis by simp
qed

lemma unat_of_nat_byte: "unat (of_nat (n mod 256) :: byte) = n mod 256"
  by (simp add: unat_of_nat)

lemma be_val_be_min [simp]: "be_val (be_min n) = n"
proof (induction n rule: be_min.induct)
  case (1 n)
  then show ?case
    by (subst be_min.simps) (simp add: be_val_snoc unat_of_nat_byte)
qed

lemma be_min_0 [simp]: "be_min 0 = []"
  by (simp add: be_min.simps)

lemma be_min_Nil_iff [simp]: "be_min n = [] \<longleftrightarrow> n = 0"
  by (subst be_min.simps) simp

lemma no_leading_zero_snoc:
  "no_leading_zero (xs @ [b]) \<longleftrightarrow> (if xs = [] then b \<noteq> 0 else no_leading_zero xs)"
  by (cases xs) (auto simp: no_leading_zero_def)

lemma no_leading_zero_Nil [simp]: "no_leading_zero []"
  by (simp add: no_leading_zero_def)

lemma of_nat_mod256_eq_0: "(of_nat (n mod 256) :: byte) = 0 \<longleftrightarrow> n mod 256 = 0"
  using unat_of_nat_byte [of n] by (metis unat_eq_0)

lemma no_leading_zero_be_min [simp]: "no_leading_zero (be_min n)"
proof (induction n rule: be_min.induct)
  case (1 n)
  show ?case
  proof (cases "n = 0")
    case True
    then show ?thesis by simp
  next
    case False
    have nz: "(of_nat (n mod 256) :: byte) \<noteq> 0" if "n div 256 = 0"
    proof -
      have "n mod 256 = n"
        using div_mult_mod_eq [of n 256] that by simp
      with False have "n mod 256 \<noteq> 0" by simp
      then show ?thesis
        by (simp only: of_nat_mod256_eq_0 not_False_eq_True)
    qed
    show ?thesis
      by (subst be_min.simps) (use False 1 nz in \<open>auto simp only: no_leading_zero_snoc be_min_Nil_iff if_False split: if_splits\<close>)
  qed
qed

lemma be_min_be_val:
  assumes "no_leading_zero bs"
  shows "be_min (be_val bs) = bs"
  using assms
proof (induction bs rule: rev_induct)
  case Nil
  then show ?case by simp
next
  case (snoc b bs)
  have lt: "unat b < 256" by (rule unat_byte_lt)
  have IH: "be_min (be_val bs) = bs"
    using snoc by (cases "bs = []") (auto simp: no_leading_zero_snoc)
  have ne: "be_val (bs @ [b]) \<noteq> 0"
  proof (cases "bs = []")
    case True
    with snoc.prems show ?thesis by (simp add: no_leading_zero_def unat_eq_zero)
  next
    case False
    with IH have "be_val bs \<noteq> 0" by (metis be_min_Nil_iff)
    then show ?thesis by (simp add: be_val_snoc)
  qed
  have d: "be_val (bs @ [b]) div 256 = be_val bs" and m: "be_val (bs @ [b]) mod 256 = unat b"
    using lt by (simp_all add: be_val_snoc)
  show ?case
    by (subst be_min.simps) (simp add: ne d m IH)
qed

lemma be_val_lt: "be_val bs < 256 ^ length bs"
proof (induction bs rule: rev_induct)
  case Nil
  then show ?case by simp
next
  case (snoc b bs)
  have "256 * be_val bs + unat b < 256 * (be_val bs + 1)"
    using unat_byte_lt [of b] by simp
  also have "\<dots> \<le> 256 * 256 ^ length bs"
    using snoc by (intro mult_le_mono2) simp
  finally show ?case by (simp add: be_val_snoc)
qed

lemma length_be_min_le: "n < 256 ^ k \<Longrightarrow> length (be_min n) \<le> k"
proof (induction n arbitrary: k rule: be_min.induct)
  case (1 n)
  show ?case
  proof (cases "n = 0")
    case True
    then show ?thesis by simp
  next
    case False
    with 1 obtain k' where k: "k = Suc k'" by (cases k) auto
    with "1.prems" have "n div 256 < 256 ^ k'"
      by (simp add: div_less_iff_less_mult mult.commute)
    with False have "length (be_min (n div 256)) \<le> k'" by (rule "1.IH")
    with False k show ?thesis by (subst be_min.simps) simp
  qed
qed

lemma length_be_min_gt: "256 ^ k \<le> n \<Longrightarrow> k < length (be_min n)"
proof (rule ccontr)
  assume "256 ^ k \<le> n" and "\<not> k < length (be_min n)"
  then have "(256 :: nat) ^ length (be_min n) \<le> 256 ^ k"
    by (intro power_increasing) auto
  moreover have "n < 256 ^ length (be_min n)"
    using be_val_lt [of "be_min n"] by simp
  ultimately show False
    using \<open>256 ^ k \<le> n\<close> by linarith
qed

lemma be_min_single:
  assumes "0 < n" "n < 256"
  shows "be_min n = [of_nat n]"
  using assms by (subst be_min.simps) simp

section \<open>Lists and options\<close>

lemma take_append_exact [simp]: "n = length xs \<Longrightarrow> take n (xs @ ys) = xs"
  by simp

lemma drop_append_exact [simp]: "n = length xs \<Longrightarrow> drop n (xs @ ys) = ys"
  by simp

lemma option_all_iff: "(\<forall>x. m = Some x \<longrightarrow> P x) \<longleftrightarrow> (case m of None \<Rightarrow> True | Some x \<Rightarrow> P x)"
  by (cases m) auto

end
