(* ===== verification/Rlp_Encode.thy ===== *)
theory Rlp_Encode
  imports HS_Prelude
begin

text \<open>
  The RLP encoder of \<open>rlp/encode.go\<close>. The encoder keeps string data and list headers in
  two separate buffers (\<open>encbuf\<close>) and only merges them at the end (\<open>toBytes\<close>), so that a
  list's header can be written before its size is known. \<open>enc\<close> is the recursive encoding
  rule of the format, and the main result is that the buffered encoder computes it.

  An \<open>item\<close> is a value as the encoder sees it: a byte string (\<open>[]byte\<close> or
  a byte array), an unsigned or a big integer, a list (slices, structs, \<open>[]interface{}\<close>) or a
  \<open>RawValue\<close>, which is copied to the output as it is.
\<close>

section \<open>Integers\<close>

abbreviation byte_of :: "nat \<Rightarrow> byte" where
  "byte_of i \<equiv> of_nat i"

definition putint :: "nat \<Rightarrow> bytes" where
  "putint i =
    (if i < 2 ^ 8 then [byte_of i]
     else if i < 2 ^ 16 then [byte_of (i div 2 ^ 8), byte_of i]
     else if i < 2 ^ 24 then [byte_of (i div 2 ^ 16), byte_of (i div 2 ^ 8), byte_of i]
     else if i < 2 ^ 32 then
       [byte_of (i div 2 ^ 24), byte_of (i div 2 ^ 16), byte_of (i div 2 ^ 8), byte_of i]
     else if i < 2 ^ 40 then
       [byte_of (i div 2 ^ 32), byte_of (i div 2 ^ 24), byte_of (i div 2 ^ 16),
        byte_of (i div 2 ^ 8), byte_of i]
     else if i < 2 ^ 48 then
       [byte_of (i div 2 ^ 40), byte_of (i div 2 ^ 32), byte_of (i div 2 ^ 24),
        byte_of (i div 2 ^ 16), byte_of (i div 2 ^ 8), byte_of i]
     else if i < 2 ^ 56 then
       [byte_of (i div 2 ^ 48), byte_of (i div 2 ^ 40), byte_of (i div 2 ^ 32),
        byte_of (i div 2 ^ 24), byte_of (i div 2 ^ 16), byte_of (i div 2 ^ 8), byte_of i]
     else
       [byte_of (i div 2 ^ 56), byte_of (i div 2 ^ 48), byte_of (i div 2 ^ 40),
        byte_of (i div 2 ^ 32), byte_of (i div 2 ^ 24), byte_of (i div 2 ^ 16),
        byte_of (i div 2 ^ 8), byte_of i])"

function intsize :: "nat \<Rightarrow> nat" where
  "intsize i = (if i div 256 = 0 then 1 else Suc (intsize (i div 256)))"
  by pat_completeness auto
termination
  by (relation "measure id") (auto simp: div_eq_0_iff)

declare intsize.simps [simp del]

section \<open>The buffer\<close>

record encbuf =
  str :: bytes
  lheads :: "(nat \<times> nat) list"
  lhsize :: nat

definition encbuf_reset :: encbuf where
  "encbuf_reset = \<lparr>str = [], lheads = [], lhsize = 0\<rparr>"

definition headsize :: "nat \<Rightarrow> nat" where
  "headsize n = (if n < 56 then 1 else 1 + intsize n)"

definition puthead :: "byte \<Rightarrow> byte \<Rightarrow> nat \<Rightarrow> bytes" where
  "puthead smalltag largetag n =
    (if n < 56 then [smalltag + byte_of n]
     else (largetag + byte_of (length (putint n))) # putint n)"

definition listhead_encode :: "nat \<times> nat \<Rightarrow> bytes" where
  "listhead_encode h = puthead 0xC0 0xF7 (snd h)"

definition encbuf_append :: "bytes \<Rightarrow> encbuf \<Rightarrow> encbuf" where
  "encbuf_append b w = w\<lparr>str := str w @ b\<rparr>"

definition encodeStringHeader :: "nat \<Rightarrow> encbuf \<Rightarrow> encbuf" where
  "encodeStringHeader n w =
    (if n < 56 then encbuf_append [0x80 + byte_of n] w
     else encbuf_append ((0xB7 + byte_of (length (putint n))) # putint n) w)"

definition encodeString :: "bytes \<Rightarrow> encbuf \<Rightarrow> encbuf" where
  "encodeString b w =
    (if length b = 1 \<and> hd b \<le> 0x7F then encbuf_append [hd b] w
     else encbuf_append b (encodeStringHeader (length b) w))"

definition encodeUint :: "nat \<Rightarrow> encbuf \<Rightarrow> encbuf" where
  "encodeUint i w =
    (if i = 0 then encbuf_append [0x80] w
     else if i < 128 then encbuf_append [byte_of i] w
     else encbuf_append ((0x80 + byte_of (length (putint i))) # putint i) w)"

definition encbuf_size :: "encbuf \<Rightarrow> nat" where
  "encbuf_size w = length (str w) + lhsize w"

definition encbuf_list :: "encbuf \<Rightarrow> nat \<times> encbuf" where
  "encbuf_list w =
    (length (lheads w), w\<lparr>lheads := lheads w @ [(length (str w), lhsize w)]\<rparr>)"

definition encbuf_listEnd :: "nat \<Rightarrow> encbuf \<Rightarrow> encbuf" where
  "encbuf_listEnd index w =
    (let (offset, sz) = lheads w ! index;
         sz' = encbuf_size w - offset - sz
     in w\<lparr>lheads := (lheads w)[index := (offset, sz')],
          lhsize := lhsize w + (if sz' < 56 then 1 else 1 + intsize sz')\<rparr>)"

fun toBytes_loop :: "(nat \<times> nat) list \<Rightarrow> bytes \<Rightarrow> nat \<Rightarrow> bytes" where
  "toBytes_loop [] s strpos = drop strpos s"
| "toBytes_loop (h # hs) s strpos =
     take (fst h - strpos) (drop strpos s) @ listhead_encode h @ toBytes_loop hs s (fst h)"

definition toBytes :: "encbuf \<Rightarrow> bytes" where
  "toBytes w = toBytes_loop (lheads w) (str w) 0"

section \<open>Big integers\<close>

text \<open>
  \<open>big_Bits\<close> and \<open>big_BitLen\<close> are \<open>Bits\<close> and \<open>BitLen\<close> of \<open>math/big\<close> on a 64-bit machine:
  the magnitude as little-endian words, and its length in bits. \<open>writeBigInt\<close> reserves the
  minimal number of bytes and fills them from the last one, word by word.
\<close>

function big_Bits :: "nat \<Rightarrow> nat list" where
  "big_Bits n = (if n = 0 then [] else n mod 2 ^ 64 # big_Bits (n div 2 ^ 64))"
  by pat_completeness auto
termination
  by (relation "measure id") auto

declare big_Bits.simps [simp del]

function big_BitLen :: "nat \<Rightarrow> nat" where
  "big_BitLen n = (if n = 0 then 0 else Suc (big_BitLen (n div 2)))"
  by pat_completeness auto
termination
  by (relation "measure id") auto

declare big_BitLen.simps [simp del]

fun fill_word :: "nat \<Rightarrow> nat \<Rightarrow> nat \<times> bytes \<Rightarrow> nat \<times> bytes" where
  "fill_word 0 d (index, buf) = (index, buf)"
| "fill_word (Suc j) d (index, buf) =
     (if index > 0 then fill_word j (d div 2 ^ 8) (index - 1, buf[index - 1 := byte_of d])
      else (index, buf))"

fun fill_words :: "nat list \<Rightarrow> nat \<times> bytes \<Rightarrow> nat \<times> bytes" where
  "fill_words [] st = st"
| "fill_words (d # ds) st = fill_words ds (fill_word 8 d st)"

definition writeBigInt :: "int \<Rightarrow> encbuf \<Rightarrow> encbuf option" where
  "writeBigInt i w =
    (if i < 0 then None
     else let bitlen = big_BitLen (nat i) in
       if bitlen \<le> 64 then Some (encodeUint (nat i) w)
       else let len = (bitlen + 7) div 8 in
         Some (encbuf_append (snd (fill_words (big_Bits (nat i)) (len, replicate len 0)))
                 (encodeStringHeader len w)))"

section \<open>Values\<close>

datatype item = Str bytes | UInt u64 | Big int | Lst "item list" | Raw bytes

fun write_item :: "item \<Rightarrow> encbuf \<Rightarrow> encbuf option"
  and write_items :: "item list \<Rightarrow> encbuf \<Rightarrow> encbuf option" where
  "write_item (Str b) w = Some (encodeString b w)"
| "write_item (UInt i) w = Some (encodeUint (unat i) w)"
| "write_item (Big i) w = writeBigInt i w"
| "write_item (Raw b) w = Some (encbuf_append b w)"
| "write_item (Lst xs) w =
     (let (i, w') = encbuf_list w
      in case write_items xs w' of
           None \<Rightarrow> None
         | Some w'' \<Rightarrow> Some (encbuf_listEnd i w''))"
| "write_items [] w = Some w"
| "write_items (x # xs) w =
     (case write_item x w of None \<Rightarrow> None | Some w' \<Rightarrow> write_items xs w')"

definition EncodeToBytes :: "item \<Rightarrow> bytes option" where
  "EncodeToBytes x =
    (case write_item x encbuf_reset of None \<Rightarrow> None | Some w \<Rightarrow> Some (toBytes w))"

section \<open>The encoding rule\<close>

definition enc_head :: "byte \<Rightarrow> byte \<Rightarrow> nat \<Rightarrow> bytes" where
  "enc_head small large n =
    (if n < 56 then [small + of_nat n]
     else (large + of_nat (length (be_min n))) # be_min n)"

definition enc_str :: "bytes \<Rightarrow> bytes" where
  "enc_str b =
    (if length b = 1 \<and> hd b \<le> 0x7F then b else enc_head 0x80 0xB7 (length b) @ b)"

fun enc :: "item \<Rightarrow> bytes" and encs :: "item list \<Rightarrow> bytes" where
  "enc (Str b) = enc_str b"
| "enc (UInt i) = enc_str (be_min (unat i))"
| "enc (Big i) = enc_str (be_min (nat i))"
| "enc (Raw b) = b"
| "enc (Lst xs) = enc_head 0xC0 0xF7 (length (encs xs)) @ encs xs"
| "encs [] = []"
| "encs (x # xs) = enc x @ encs xs"

text \<open>The encoder's only error is a negative big integer.\<close>

fun encodable :: "item \<Rightarrow> bool" where
  "encodable (Big i) \<longleftrightarrow> 0 \<le> i"
| "encodable (Lst xs) \<longleftrightarrow> list_all encodable xs"
| "encodable _ \<longleftrightarrow> True"

lemma encs_append: "encs (xs @ ys) = encs xs @ encs ys"
  by (induction xs) auto

section \<open>The integer routines agree with big-endian encoding\<close>

lemma byte_of_mod256 [simp]: "byte_of (n mod 256) = byte_of n"
  by (simp add: word_unat_eq_iff unat_of_nat)

lemma be_min_step: "0 < n \<Longrightarrow> be_min n = be_min (n div 256) @ [byte_of n]"
  by (subst be_min.simps) simp

lemma be_min_small: "0 < n \<Longrightarrow> n < 256 \<Longrightarrow> be_min n = [byte_of n]"
  by (simp add: be_min_step)

lemma div_256_div: "(n :: nat) div 256 div 2 ^ k = n div 2 ^ (k + 8)"
  by (simp add: div_mult2_eq [symmetric] power_add mult.commute)

lemma be_min_power:
  assumes "2 ^ 8 \<le> i"
  shows "be_min i = be_min (i div 256) @ [byte_of i]" "0 < i div 256"
  using assms by (auto simp: be_min_step div_greater_zero_iff)

lemma putint_step:
  assumes "2 ^ 8 \<le> i" "i < 2 ^ 64"
  shows "putint i = putint (i div 256) @ [byte_of i]"
proof -
  have less: "i div 256 < 2 ^ k \<longleftrightarrow> i < 2 ^ (k + 8)" for k
    by (simp add: div_less_iff_less_mult power_add mult.commute)
  have dv: "i div 256 div 2 ^ k = i div 2 ^ (k + 8)" for k
    by (rule div_256_div)
  show ?thesis
    unfolding putint_def less dv using assms by simp
qed

lemma putint_be_min: "0 < i \<Longrightarrow> i < 2 ^ 64 \<Longrightarrow> putint i = be_min i"
proof (induction i rule: be_min.induct)
  case (1 i)
  show ?case
  proof (cases "i < 2 ^ 8")
    case True
    with 1 show ?thesis by (simp add: putint_def be_min_small)
  next
    case False
    then have pos: "0 < i div 256" by (simp add: div_greater_zero_iff)
    have "i div 256 < 2 ^ 64"
      using "1.prems"(2) by (metis div_le_dividend le_less_trans)
    with "1.IH" "1.prems"(1) pos have "putint (i div 256) = be_min (i div 256)" by simp
    with False "1.prems" show ?thesis
      by (simp only: putint_step be_min_step not_less)
  qed
qed

lemma intsize_be_min: "0 < i \<Longrightarrow> intsize i = length (be_min i)"
proof (induction i rule: be_min.induct)
  case (1 i)
  then show ?case
    by (cases "i div 256 = 0") (simp_all add: intsize.simps [of i] be_min_step)
qed

section \<open>The buffered encoder computes the encoding rule\<close>

lemma length_enc_head: "length (enc_head a b n) = headsize n"
  by (simp add: enc_head_def headsize_def intsize_be_min)

lemma puthead_enc_head: "n < 2 ^ 64 \<Longrightarrow> puthead a b n = enc_head a b n"
  by (simp add: puthead_def enc_head_def putint_be_min)

lemma encbuf_append_append: "encbuf_append b (encbuf_append a w) = encbuf_append (a @ b) w"
  by (simp add: encbuf_append_def)

lemma encodeStringHeader_append:
  "encodeStringHeader n w = encbuf_append (puthead 0x80 0xB7 n) w"
  by (simp add: encodeStringHeader_def puthead_def)

text \<open>The bytes the encoder appends for a string of any length. It writes at most eight bytes of
  the length, so this is the encoding rule for strings shorter than \<open>2 ^ 64\<close>.\<close>

definition raw_str :: "bytes \<Rightarrow> bytes" where
  "raw_str b =
    (if length b = 1 \<and> hd b \<le> 0x7F then b else puthead 0x80 0xB7 (length b) @ b)"

lemma encodeString_raw: "encodeString b w = encbuf_append (raw_str b) w"
  by (auto simp: encodeString_def raw_str_def encodeStringHeader_append encbuf_append_append
      length_Suc_conv)

lemma raw_str_enc: "length b < 2 ^ 64 \<Longrightarrow> raw_str b = enc_str b"
  by (simp add: raw_str_def enc_str_def puthead_enc_head)

lemma length_raw_str: "length b \<le> length (raw_str b)"
  by (simp add: raw_str_def)

lemma length_enc_str_bound: "length b \<le> length (enc_str b)"
  by (simp add: enc_str_def)

lemma encodeUint_encodeString:
  assumes "i < 2 ^ 64"
  shows "encodeUint i w = encodeString (be_min i) w"
proof -
  consider "i = 0" | "0 < i" "i < 128" | "128 \<le> i" by linarith
  then show ?thesis
  proof cases
    case 1
    then show ?thesis by (simp add: encodeUint_def encodeString_def encodeStringHeader_def)
        (simp add: encbuf_append_def)
  next
    case 2
    then have "byte_of i \<le> 0x7F" by (simp add: word_le_nat_alt unat_of_nat)
    with 2 show ?thesis by (simp add: encodeUint_def encodeString_def be_min_small)
  next
    case 3
    have n1: "\<not> (length (be_min i) = 1 \<and> hd (be_min i) \<le> 0x7F)"
    proof
      assume a: "length (be_min i) = 1 \<and> hd (be_min i) \<le> 0x7F"
      then obtain c where c: "be_min i = [c]" by (auto simp: length_Suc_conv)
      with a have "unat c \<le> 127" by (simp add: word_le_nat_alt)
      moreover have "i = unat c" using be_val_be_min [of i] c by simp
      ultimately show False using 3 by simp
    qed
    have "length (be_min i) \<le> 8"
      using assms by (intro length_be_min_le) simp
    with 3 assms show ?thesis
      unfolding encodeString_def if_not_P [OF n1]
      by (simp add: encodeUint_def encodeStringHeader_def encbuf_append_append putint_be_min)
  qed
qed

subsection \<open>Big integers\<close>

definition be_pad :: "nat \<Rightarrow> nat \<Rightarrow> bytes" where
  "be_pad len n = map (\<lambda>k. byte_of (n div 256 ^ k)) (rev [0..<len])"

lemma length_be_pad [simp]: "length (be_pad len n) = len"
  by (simp add: be_pad_def)

lemma be_pad_0 [simp]: "be_pad 0 n = []"
  by (simp add: be_pad_def)

lemma be_pad_Suc: "be_pad (Suc len) n = be_pad len (n div 256) @ [byte_of n]"
proof -
  have "rev [0..<Suc len] = map Suc (rev [0..<len]) @ [0]"
    by (simp add: upt_conv_Cons [of 0 "Suc len"] map_Suc_upt [symmetric] rev_map del: upt_Suc)
  then show ?thesis
    by (simp add: be_pad_def div_mult2_eq)
qed

lemma be_min_be_pad: "be_min n = be_pad (length (be_min n)) n"
proof (induction n rule: be_min.induct)
  case (1 n)
  then show ?case by (cases "n = 0") (simp_all add: be_min_step be_pad_Suc)
qed

lemma be_pad_split: "be_pad (m + k) n = be_pad m (n div 256 ^ k) @ be_pad k n"
proof (induction k arbitrary: n)
  case (Suc k)
  then show ?case by (simp add: be_pad_Suc div_mult2_eq)
qed simp

lemma be_pad_mod: "k \<le> j \<Longrightarrow> be_pad k (n mod 256 ^ j) = be_pad k n"
proof (induction k arbitrary: n j)
  case (Suc k)
  then obtain j' where j: "j = Suc j'" by (cases j) auto
  have "n mod 256 ^ j div 256 = n div 256 mod 256 ^ j'"
    by (simp add: j mod_mult2_eq)
  moreover have "byte_of (n mod 256 ^ j) = byte_of n"
    using byte_of_mod256 [of "n mod 256 ^ j"] byte_of_mod256 [of n]
    by (simp add: j mod_mod_cancel)
  ultimately show ?case using Suc by (simp add: be_pad_Suc j)
qed simp

lemma fill_word_pad:
  "fill_word j d (index, replicate index 0 @ ys) =
     (index - j, replicate (index - j) 0 @ be_pad (min j index) d @ ys)"
proof (induction j arbitrary: d index ys)
  case (Suc j)
  show ?case
  proof (cases index)
    case (Suc i)
    have "(replicate (Suc i) 0 @ ys)[i := byte_of d] = replicate i 0 @ byte_of d # ys"
      by (induction i) simp_all
    with Suc.IH [of "d div 2 ^ 8" i "byte_of d # ys"] Suc show ?thesis
      by (simp add: be_pad_Suc del: replicate_Suc)
  qed simp
qed simp

lemma fill_words_pad:
  "n < 256 ^ index \<Longrightarrow>
     snd (fill_words (big_Bits n) (index, replicate index 0 @ ys)) = be_pad index n @ ys"
proof (induction n arbitrary: index ys rule: big_Bits.induct)
  case (1 n)
  have p: "(256 :: nat) ^ 8 = 2 ^ 64" by simp
  show ?case
  proof (cases "n = 0")
    case True
    have "be_pad index 0 = replicate index 0" by (simp add: be_pad_def map_replicate_const)
    with True show ?thesis by (simp add: big_Bits.simps [of 0])
  next
    case False
    have m: "be_pad (min 8 index) (n mod 2 ^ 64) = be_pad (min 8 index) n"
      using be_pad_mod [of "min 8 index" 8 n] by (simp only: p min.cobounded1)
    have "n div 2 ^ 64 < 256 ^ (index - 8)"
    proof (cases "8 \<le> index")
      case True
      then have "(256 :: nat) ^ index = 256 ^ (index - 8) * 2 ^ 64"
        by (simp only: p [symmetric] power_add [symmetric]) simp
      with "1.prems" show ?thesis by (simp add: less_mult_imp_div_less)
    next
      case False
      then have "(256 :: nat) ^ index \<le> 256 ^ 8" by (intro power_increasing) auto
      with "1.prems" have "n < 2 ^ 64" by (simp only: p)
      then show ?thesis by simp
    qed
    from "1.IH" [OF False this] False m
    have "snd (fill_words (big_Bits n) (index, replicate index 0 @ ys)) =
        be_pad (index - 8) (n div 256 ^ 8) @ be_pad (min 8 index) n @ ys"
      by (simp only: big_Bits.simps [of n] if_False fill_words.simps fill_word_pad p)
    then show ?thesis
      using be_pad_split [of "index - 8" "min 8 index" n]
      by (cases "8 \<le> index") (auto simp: min_def)
  qed
qed

lemma big_BitLen_less: "n < 2 ^ big_BitLen n"
proof (induction n rule: big_BitLen.induct)
  case (1 n)
  then show ?case by (cases "n = 0") (auto simp: big_BitLen.simps [of n])
qed

lemma big_BitLen_ge: "0 < n \<Longrightarrow> 2 ^ (big_BitLen n - 1) \<le> n"
proof (induction n rule: big_BitLen.induct)
  case (1 n)
  show ?case
  proof (cases "n div 2 = 0")
    case True
    with 1 show ?thesis by (simp add: big_BitLen.simps [of n] big_BitLen.simps [of 0])
  next
    case False
    with 1 have le: "2 ^ (big_BitLen (n div 2) - 1) \<le> n div 2" by simp
    have "0 < big_BitLen (n div 2)" using False by (simp add: big_BitLen.simps [of "n div 2"])
    then have "(2 :: nat) ^ big_BitLen (n div 2) = 2 * 2 ^ (big_BitLen (n div 2) - 1)"
      by (simp add: power_eq_if)
    with le have "(2 :: nat) ^ big_BitLen (n div 2) \<le> n" by linarith
    with 1 show ?thesis by (simp add: big_BitLen.simps [of n])
  qed
qed

lemma big_BitLen_bytes: "(big_BitLen n + 7) div 8 = length (be_min n)"
proof (cases "n = 0")
  case False
  let ?b = "big_BitLen n" and ?k = "(big_BitLen n + 7) div 8"
  have "0 < ?b" using False by (simp add: big_BitLen.simps [of n])
  then have k: "?b \<le> 8 * ?k" "8 * (?k - 1) \<le> ?b - 1" by linarith+
  have p: "(256 :: nat) ^ m = 2 ^ (8 * m)" for m by (simp add: power_mult)
  have "n < 256 ^ ?k"
    using big_BitLen_less [of n] k(1) unfolding p
    by (meson less_le_trans one_le_numeral power_increasing)
  moreover have "256 ^ (?k - 1) \<le> n"
    using big_BitLen_ge [of n] False k(2) unfolding p
    by (meson le_trans neq0_conv one_le_numeral power_increasing)
  ultimately show ?thesis
    using length_be_min_le [of n ?k] length_be_min_gt [of "?k - 1" n] by linarith
qed (simp add: big_BitLen.simps)

lemma writeBigInt_raw:
  assumes "0 \<le> i"
  shows "writeBigInt i w = Some (encbuf_append (raw_str (be_min (nat i))) w)"
proof (cases "big_BitLen (nat i) \<le> 64")
  case True
  have "nat i < 2 ^ big_BitLen (nat i)" by (rule big_BitLen_less)
  also have "(2 :: nat) ^ big_BitLen (nat i) \<le> 2 ^ 64" using True by (intro power_increasing) auto
  finally have "encodeUint (nat i) w = encbuf_append (raw_str (be_min (nat i))) w"
    by (simp only: encodeUint_encodeString encodeString_raw)
  with True assms show ?thesis by (simp add: writeBigInt_def)
next
  case False
  let ?n = "nat i" and ?len = "(big_BitLen (nat i) + 7) div 8"
  have len: "?len = length (be_min ?n)" by (rule big_BitLen_bytes)
  have "?n < 256 ^ ?len" using be_val_lt [of "be_min ?n"] by (simp add: len)
  from fill_words_pad [OF this, of "[]"]
  have fill: "snd (fill_words (big_Bits ?n) (?len, replicate ?len 0)) = be_min ?n"
    by (simp add: len be_min_be_pad [symmetric])
  have "length (be_min ?n) \<noteq> 1"
    using False len by linarith
  then show ?thesis
    using False assms fill
    by (simp add: writeBigInt_def Let_def len encodeStringHeader_append encbuf_append_append
        raw_str_def)
qed

subsection \<open>Items\<close>

text \<open>
  \<open>sdata\<close> is the string data of an item, \<open>cnt\<close> the size the encoder counts for it, \<open>hsize\<close> the part
  of it in list headers, \<open>heads\<close> its list headers with their offsets, and \<open>raw_enc\<close> the output.
\<close>

fun sdata :: "item \<Rightarrow> bytes" and sdatas :: "item list \<Rightarrow> bytes" where
  "sdata (Str b) = raw_str b"
| "sdata (UInt i) = raw_str (be_min (unat i))"
| "sdata (Big i) = raw_str (be_min (nat i))"
| "sdata (Raw b) = b"
| "sdata (Lst xs) = sdatas xs"
| "sdatas [] = []"
| "sdatas (x # xs) = sdata x @ sdatas xs"

fun cnt :: "item \<Rightarrow> nat" and cnts :: "item list \<Rightarrow> nat" where
  "cnt (Str b) = length (raw_str b)"
| "cnt (UInt i) = length (raw_str (be_min (unat i)))"
| "cnt (Big i) = length (raw_str (be_min (nat i)))"
| "cnt (Raw b) = length b"
| "cnt (Lst xs) = headsize (cnts xs) + cnts xs"
| "cnts [] = 0"
| "cnts (x # xs) = cnt x + cnts xs"

fun hsize :: "item \<Rightarrow> nat" and hsizes :: "item list \<Rightarrow> nat" where
  "hsize (Str b) = 0"
| "hsize (UInt i) = 0"
| "hsize (Big i) = 0"
| "hsize (Raw b) = 0"
| "hsize (Lst xs) = headsize (cnts xs) + hsizes xs"
| "hsizes [] = 0"
| "hsizes (x # xs) = hsize x + hsizes xs"

fun heads :: "nat \<Rightarrow> item \<Rightarrow> (nat \<times> nat) list"
  and headss :: "nat \<Rightarrow> item list \<Rightarrow> (nat \<times> nat) list" where
  "heads off (Str b) = []"
| "heads off (UInt i) = []"
| "heads off (Big i) = []"
| "heads off (Raw b) = []"
| "heads off (Lst xs) = (off, cnts xs) # headss off xs"
| "headss off [] = []"
| "headss off (x # xs) = heads off x @ headss (off + length (sdata x)) xs"

fun raw_enc :: "item \<Rightarrow> bytes" and raw_encs :: "item list \<Rightarrow> bytes" where
  "raw_enc (Str b) = raw_str b"
| "raw_enc (UInt i) = raw_str (be_min (unat i))"
| "raw_enc (Big i) = raw_str (be_min (nat i))"
| "raw_enc (Raw b) = b"
| "raw_enc (Lst xs) = puthead 0xC0 0xF7 (cnts xs) @ raw_encs xs"
| "raw_encs [] = []"
| "raw_encs (x # xs) = raw_enc x @ raw_encs xs"

lemma cnt_split:
  "cnt x = length (sdata x) + hsize x"
  "cnts xs = length (sdatas xs) + hsizes xs"
  by (induction x and xs rule: sdata_sdatas.induct) simp_all

lemma write_item_split:
  "encodable x \<Longrightarrow> write_item x w = Some (
     w\<lparr>str := str w @ sdata x, lheads := lheads w @ heads (length (str w)) x,
       lhsize := lhsize w + hsize x\<rparr>)"
  "list_all encodable xs \<Longrightarrow> write_items xs w = Some (
     w\<lparr>str := str w @ sdatas xs, lheads := lheads w @ headss (length (str w)) xs,
       lhsize := lhsize w + hsizes xs\<rparr>)"
proof (induction x w and xs w rule: write_item_write_items.induct)
  case (2 i w)
  have "unat i < 2 ^ LENGTH(64)" by (rule unsigned_less)
  then show ?case by (simp add: encodeUint_encodeString encodeString_raw encbuf_append_def)
next
  case (5 xs w)
  define w' where w'_def: "w' = w\<lparr>lheads := lheads w @ [(length (str w), lhsize w)]\<rparr>"
  have w': "encbuf_list w = (length (lheads w), w')"
    by (simp_all add: encbuf_list_def w'_def)
  define w'' where w''_def: "w'' =
     w\<lparr>str := str w @ sdatas xs,
       lheads := lheads w @ (length (str w), lhsize w) # headss (length (str w)) xs,
       lhsize := lhsize w + hsizes xs\<rparr>"
  have "list_all encodable xs" using "5.prems" by simp
  with "5.IH" w' have "write_items xs w' = Some (
     w'\<lparr>str := str w' @ sdatas xs, lheads := lheads w' @ headss (length (str w')) xs,
       lhsize := lhsize w' + hsizes xs\<rparr>)" by simp
  then have IH: "write_items xs w' = Some w''" by (simp add: w'_def w''_def)
  have "encbuf_listEnd (length (lheads w)) w'' =
     w\<lparr>str := str w @ sdatas xs,
       lheads := lheads w @ (length (str w), cnts xs) # headss (length (str w)) xs,
       lhsize := lhsize w + hsizes xs + headsize (cnts xs)\<rparr>"
    by (simp add: w''_def encbuf_listEnd_def encbuf_size_def cnt_split headsize_def Let_def)
  with IH show ?case by (simp add: w' ac_simps)
qed (simp_all add: encodeString_raw writeBigInt_raw encbuf_append_def add.assoc)

lemma write_item_None:
  "\<not> encodable x \<Longrightarrow> write_item x w = None"
  "\<not> list_all encodable xs \<Longrightarrow> write_items xs w = None"
  by (induction x w and xs w rule: write_item_write_items.induct)
    (auto simp: writeBigInt_def Let_def split: option.split prod.split)

lemma toBytes_loop_advance:
  assumes "pos \<le> q" "\<forall>h \<in> set hs. q \<le> fst h" "q \<le> length s"
  shows "toBytes_loop hs s pos = take (q - pos) (drop pos s) @ toBytes_loop hs s q"
proof (cases hs)
  case Nil
  have "drop pos s = take (q - pos) (drop pos s) @ drop (q - pos) (drop pos s)"
    by (simp only: append_take_drop_id)
  with Nil assms show ?thesis by simp
next
  case (Cons h hs')
  then have le: "q \<le> fst h" using assms by simp
  have "take (fst h - pos) (drop pos s) =
      take (q - pos) (drop pos s) @ take (fst h - q) (drop q s)"
    using assms(1) le take_add [of "q - pos" "fst h - q" "drop pos s"] by simp
  with Cons show ?thesis by simp
qed

lemma heads_ge:
  "h \<in> set (heads off x) \<Longrightarrow> off \<le> fst h"
  "h \<in> set (headss off xs) \<Longrightarrow> off \<le> fst h"
  by (induction off x and off xs rule: heads_headss.induct) force+

lemma toBytes_loop_leaf:
  assumes "\<forall>h \<in> set hs. length pre + length x \<le> fst h"
  shows "toBytes_loop hs (pre @ x @ suf) (length pre) =
    x @ toBytes_loop hs (pre @ x @ suf) (length pre + length x)"
  using assms by (subst toBytes_loop_advance [where q = "length pre + length x"]) auto

lemma toBytes_loop_heads:
  "\<forall>h \<in> set hs. length pre + length (sdata x) \<le> fst h \<Longrightarrow>
     toBytes_loop (heads (length pre) x @ hs) (pre @ sdata x @ suf) (length pre) =
       raw_enc x @ toBytes_loop hs (pre @ sdata x @ suf) (length pre + length (sdata x))"
  "\<forall>h \<in> set hs. length pre + length (sdatas xs) \<le> fst h \<Longrightarrow>
     toBytes_loop (headss (length pre) xs @ hs) (pre @ sdatas xs @ suf) (length pre) =
       raw_encs xs @ toBytes_loop hs (pre @ sdatas xs @ suf) (length pre + length (sdatas xs))"
proof (induction x and xs arbitrary: pre suf hs and pre suf hs rule: sdata_sdatas.induct)
  case (5 xs)
  then show ?case by (simp add: listhead_encode_def)
next
  case (7 x xs)
  let ?hs = "headss (length pre + length (sdata x)) xs @ hs"
  have le: "\<forall>h \<in> set ?hs. length pre + length (sdata x) \<le> fst h"
    using "7.prems" by (auto dest: heads_ge)
  have "toBytes_loop (heads (length pre) x @ ?hs) (pre @ sdata x @ sdatas xs @ suf) (length pre) =
      raw_enc x @ toBytes_loop ?hs (pre @ sdata x @ sdatas xs @ suf) (length pre + length (sdata x))"
    using le by (intro "7.IH"(1)) auto
  also have "toBytes_loop ?hs (pre @ sdata x @ sdatas xs @ suf) (length pre + length (sdata x)) =
      raw_encs xs @ toBytes_loop hs (pre @ sdata x @ sdatas xs @ suf)
        (length pre + length (sdata x) + length (sdatas xs))"
    using "7.prems" "7.IH"(2) [of hs "pre @ sdata x" suf] by (simp add: add.assoc)
  finally show ?case by (simp add: add.assoc)
qed (simp_all add: toBytes_loop_leaf)

lemma EncodeToBytes_raw: "encodable x \<Longrightarrow> EncodeToBytes x = Some (raw_enc x)"
  using toBytes_loop_heads(1) [of "[]" "[]" x "[]"]
  by (simp add: EncodeToBytes_def toBytes_def write_item_split encbuf_reset_def)

text \<open>For values whose output is shorter than \<open>2 ^ 64\<close> bytes the output is the encoding rule.\<close>

lemma raw_small:
  "length (raw_enc x) < 2 ^ 64 \<Longrightarrow> raw_enc x = enc x \<and> cnt x = length (enc x)"
  "length (raw_encs xs) < 2 ^ 64 \<Longrightarrow> raw_encs xs = encs xs \<and> cnts xs = length (encs xs)"
proof (induction x and xs rule: sdata_sdatas.induct)
  case (1 b)
  then show ?case using length_raw_str [of b] by (simp add: raw_str_enc)
next
  case (2 i)
  then show ?case using length_raw_str [of "be_min (unat i)"] by (simp add: raw_str_enc)
next
  case (3 i)
  then show ?case using length_raw_str [of "be_min (nat i)"] by (simp add: raw_str_enc)
next
  case (5 xs)
  then have "length (raw_encs xs) < 2 ^ 64" by simp
  with 5 show ?case by (simp add: puthead_enc_head length_enc_head)
qed simp_all

lemma enc_small:
  "length (enc x) < 2 ^ 64 \<Longrightarrow> raw_enc x = enc x \<and> cnt x = length (enc x)"
  "length (encs xs) < 2 ^ 64 \<Longrightarrow> raw_encs xs = encs xs \<and> cnts xs = length (encs xs)"
proof (induction x and xs rule: sdata_sdatas.induct)
  case (1 b)
  then show ?case using length_enc_str_bound [of b] by (simp add: raw_str_enc)
next
  case (2 i)
  then show ?case using length_enc_str_bound [of "be_min (unat i)"] by (simp add: raw_str_enc)
next
  case (3 i)
  then show ?case using length_enc_str_bound [of "be_min (nat i)"] by (simp add: raw_str_enc)
next
  case (5 xs)
  then have "length (encs xs) < 2 ^ 64" by simp
  with 5 show ?case by (simp add: puthead_enc_head length_enc_head)
qed simp_all

lemma EncodeToBytes_rule:
  assumes "encodable x" "length (enc x) < 2 ^ 64"
  shows "EncodeToBytes x = Some (enc x)"
  using assms by (simp add: EncodeToBytes_raw enc_small)

lemma EncodeToBytes_None_iff: "EncodeToBytes x = None \<longleftrightarrow> \<not> encodable x"
  by (cases "encodable x") (simp_all add: EncodeToBytes_raw, simp add: EncodeToBytes_def write_item_None)

lemma EncodeToBytes_small:
  assumes "EncodeToBytes x = Some b" "length b < 2 ^ 64"
  shows "b = enc x" "encodable x"
proof -
  show "encodable x"
    using assms(1) EncodeToBytes_None_iff [of x] by auto
  with assms show "b = enc x" using raw_small(1) [of x] by (auto simp: EncodeToBytes_raw)
qed

text \<open>Evaluation of examples uses the encoding rule.\<close>

lemma EncodeToBytes_code [code]:
  "EncodeToBytes x =
    (if encodable x
     then let b = enc x in Some (if int (length b) < 0x10000000000000000 then b else raw_enc x)
     else None)"
proof -
  have "raw_enc x = enc x" if "int (length (enc x)) < 0x10000000000000000"
    using enc_small(1) [of x] that by simp
  then show ?thesis
    using EncodeToBytes_None_iff [of x] by (auto simp: EncodeToBytes_raw Let_def)
qed

section \<open>Properties\<close>

text \<open>C25. The encoder writes string data and list headers separately, with offsets, and merges them at
  the end. For every value that can be encoded in less than \<open>2 ^ 64\<close> bytes the result is the encoding
  that the recursive definition of RLP gives.\<close>

theorem encoder_equals_rule:
  assumes "encodable x" "length (enc x) < 2 ^ 64"
  shows "EncodeToBytes x = Some (enc x)"
  by (rule EncodeToBytes_rule [OF assms])

theorem encoder_equals_rule_witness:
  "EncodeToBytes (Lst [Str [0x64, 0x6F, 0x67], UInt 1024, Lst [Big 0]]) =
    Some [0xC9, 0x83, 0x64, 0x6F, 0x67, 0x82, 4, 0, 0xC1, 0x80]"
proof -
  have e: "enc (Lst [Str [0x64, 0x6F, 0x67], UInt 1024, Lst [Big 0]]) =
      [0xC9, 0x83, 0x64, 0x6F, 0x67, 0x82, 4, 0, 0xC1, 0x80]" by code_simp
  have l: "length (enc (Lst [Str [0x64, 0x6F, 0x67], UInt 1024, Lst [Big 0]])) < 2 ^ 64"
    unfolding e by simp
  show ?thesis
    using encoder_equals_rule [OF _ l] unfolding e by simp
qed

end
