(* ===== verification/Rlp_Decode.thy ===== *)
theory Rlp_Decode
  imports Rlp_Encode
begin

text \<open>
  The RLP decoder of \<open>rlp/decode.go\<close>: a \<open>Stream\<close> over a byte slice that keeps the kind
  and size of the value ahead and a stack of the lists being read, and the decoders the
  package derives from Go types (integers, byte slices and arrays, structs, slices,
  pointers). A method of \<open>Stream\<close> is a function from the stream to an error or a value and
  the stream after the call.

  \<open>reads m bs v\<close> says that the decoder \<open>m\<close>, positioned at the bytes \<open>bs\<close>, consumes exactly
  \<open>bs\<close> and yields \<open>v\<close>, whatever follows and whatever list encloses it. It composes along the
  combinators, so every codec's round trip is a short derivation; the locale
  \<open>rlp_codec\<close> is the contract a codec offers to its users.
\<close>

section \<open>Errors and kinds\<close>

datatype decode_msg =
    NonCanonicalInteger | NonCanonicalSizeInfo | ExpectedInputList | ExpectedInputString
  | InputStringTooLong | InputStringTooShort | InputListTooMany | TooFewElements
  | WrongEmptyKind

datatype rlp_err =
    EOL | ErrExpectedString | ErrExpectedList | ErrCanonInt | ErrCanonSize | ErrElemTooLarge
  | ErrValueTooLarge | ErrMoreThanOneValue | errNotInList | errNotAtEOL | errUintOverflow
  | io_EOF | io_ErrUnexpectedEOF | decodeError decode_msg | ErrTransaction | errFuel

datatype Kind = KByte | KString | KList

definition wrapStreamError :: "rlp_err \<Rightarrow> rlp_err" where
  "wrapStreamError err =
    (case err of
       ErrCanonInt \<Rightarrow> decodeError NonCanonicalInteger
     | ErrCanonSize \<Rightarrow> decodeError NonCanonicalSizeInfo
     | ErrExpectedList \<Rightarrow> decodeError ExpectedInputList
     | ErrExpectedString \<Rightarrow> decodeError ExpectedInputString
     | errUintOverflow \<Rightarrow> decodeError InputStringTooLong
     | errNotAtEOL \<Rightarrow> decodeError InputListTooMany
     | e \<Rightarrow> e)"

section \<open>The stream\<close>

record stream =
  sin :: bytes
  remaining :: nat
  limited :: bool
  skind :: "Kind option"
  ssize :: nat
  byteval :: byte
  kinderr :: "rlp_err option"
  stack :: "(nat \<times> nat) list"

type_synonym 'a sm = "stream \<Rightarrow> (rlp_err + 'a) \<times> stream"

definition sret :: "'a \<Rightarrow> 'a sm" where
  "sret v s = (Inr v, s)"

definition sfail :: "rlp_err \<Rightarrow> 'a sm" where
  "sfail e s = (Inl e, s)"

definition sbind :: "'a sm \<Rightarrow> ('a \<Rightarrow> 'b sm) \<Rightarrow> 'b sm" where
  "sbind m f s = (case m s of (Inl e, s') \<Rightarrow> (Inl e, s') | (Inr v, s') \<Rightarrow> f v s')"

definition smap_err :: "(rlp_err \<Rightarrow> rlp_err) \<Rightarrow> 'a sm \<Rightarrow> 'a sm" where
  "smap_err g m s = (case m s of (Inl e, s') \<Rightarrow> (Inl (g e), s') | r \<Rightarrow> r)"

definition stream_Reset :: "bytes \<Rightarrow> stream" where
  "stream_Reset b = \<lparr>sin = b, remaining = length b, limited = True, skind = None, ssize = 0,
     byteval = 0, kinderr = None, stack = []\<rparr>"

definition willRead :: "nat \<Rightarrow> unit sm" where
  "willRead n s =
    (let s = s\<lparr>skind := None\<rparr>;
         limit = (\<lambda>s. if limited s
                      then if n > remaining s then (Inl ErrValueTooLarge, s)
                           else (Inr (), s\<lparr>remaining := remaining s - n\<rparr>)
                      else (Inr (), s))
     in case stack s of
          [] \<Rightarrow> limit s
        | tos # st \<Rightarrow>
            if n > snd tos - fst tos then (Inl ErrElemTooLarge, s)
            else limit (s\<lparr>stack := (fst tos + n, snd tos) # st\<rparr>))"

definition readByte :: "byte sm" where
  "readByte = sbind (willRead 1) (\<lambda>_ s.
     case sin s of [] \<Rightarrow> (Inl io_ErrUnexpectedEOF, s) | b # bs \<Rightarrow> (Inr b, s\<lparr>sin := bs\<rparr>))"

definition readFull :: "nat \<Rightarrow> bytes sm" where
  "readFull n = sbind (willRead n) (\<lambda>_ s.
     if n \<le> length (sin s) then (Inr (take n (sin s)), s\<lparr>sin := drop n (sin s)\<rparr>)
     else (Inl io_ErrUnexpectedEOF, s\<lparr>sin := []\<rparr>))"

definition readUint :: "nat \<Rightarrow> nat sm" where
  "readUint n =
    (if n = 0 then (\<lambda>s. (Inr 0, s\<lparr>skind := None\<rparr>))
     else if n = 1 then sbind readByte (\<lambda>b. sret (unat b))
     else sbind (readFull n) (\<lambda>buf. if hd buf = 0 then sfail ErrCanonSize else sret (be_val buf)))"

definition readKind :: "stream \<Rightarrow> (Kind \<times> nat \<times> rlp_err option) \<times> stream" where
  "readKind s =
    (case readByte s of
       (Inl e, s') \<Rightarrow>
         ((KByte, 0, Some (if stack s' = [] \<and> (e = io_ErrUnexpectedEOF \<or> e = ErrValueTooLarge)
                           then io_EOF else e)), s')
     | (Inr b, s0) \<Rightarrow>
         let s' = s0\<lparr>byteval := 0\<rparr>;
             long = (\<lambda>k m.
               case readUint (unat (b - m)) s' of
                 (Inl e, s'') \<Rightarrow> ((k, 0, Some e), s'')
               | (Inr sz, s'') \<Rightarrow> ((k, sz, if sz < 56 then Some ErrCanonSize else None), s''))
         in if b < 0x80 then ((KByte, 0, None), s'\<lparr>byteval := b\<rparr>)
            else if b < 0xB8 then ((KString, unat (b - 0x80), None), s')
            else if b < 0xC0 then long KString 0xB7
            else if b < 0xF8 then ((KList, unat (b - 0xC0), None), s')
            else long KList 0xF7)"

definition stream_Kind :: "(Kind \<times> nat) sm" where
  "stream_Kind s =
    (let result = (\<lambda>s. case (kinderr s, skind s) of
           (Some e, _) \<Rightarrow> (Inl e, s)
         | (None, Some k) \<Rightarrow> (Inr (k, ssize s), s)
         | (None, None) \<Rightarrow> (Inr (KByte, ssize s), s))
     in case skind s of
          Some _ \<Rightarrow> result s
        | None \<Rightarrow>
            let s = s\<lparr>kinderr := None\<rparr> in
            if (case stack s of [] \<Rightarrow> False | tos # _ \<Rightarrow> fst tos = snd tos) then (Inl EOL, s)
            else case readKind s of
              ((k, sz, err), s') \<Rightarrow>
                result (s'\<lparr>skind := Some k, ssize := sz,
                  kinderr :=
                    (case err of
                       Some e \<Rightarrow> Some e
                     | None \<Rightarrow>
                         (case stack s' of
                            [] \<Rightarrow> if limited s' \<and> sz > remaining s' then Some ErrValueTooLarge
                                 else None
                          | tos # st \<Rightarrow> if sz > snd tos - fst tos then Some ErrElemTooLarge
                                       else None))\<rparr>))"

definition rearm :: "unit sm" where
  "rearm s = (Inr (), s\<lparr>skind := None\<rparr>)"

definition stream_Bytes :: "bytes sm" where
  "stream_Bytes = sbind stream_Kind (\<lambda>(k, sz).
     case k of
       KByte \<Rightarrow> sbind rearm (\<lambda>_ s. (Inr [byteval s], s))
     | KString \<Rightarrow> sbind (readFull sz) (\<lambda>b.
         if sz = 1 \<and> hd b < 128 then sfail ErrCanonSize else sret b)
     | KList \<Rightarrow> sfail ErrExpectedString)"

definition stream_Raw :: "bytes sm" where
  "stream_Raw = sbind stream_Kind (\<lambda>(k, sz).
     case k of
       KByte \<Rightarrow> sbind rearm (\<lambda>_ s. (Inr [byteval s], s))
     | KString \<Rightarrow> sbind (readFull sz) (\<lambda>b. sret (puthead 0x80 0xB7 sz @ b))
     | KList \<Rightarrow> sbind (readFull sz) (\<lambda>b. sret (puthead 0xC0 0xF7 sz @ b)))"

definition stream_uint :: "nat \<Rightarrow> nat sm" where
  "stream_uint maxbits = sbind stream_Kind (\<lambda>(k, sz).
     case k of
       KByte \<Rightarrow> (\<lambda>s. if byteval s = 0 then (Inl ErrCanonInt, s)
                     else (Inr (unat (byteval s)), s\<lparr>skind := None\<rparr>))
     | KString \<Rightarrow>
         if sz > maxbits div 8 then sfail errUintOverflow
         else sbind (smap_err (\<lambda>e. if e = ErrCanonSize then ErrCanonInt else e) (readUint sz))
                (\<lambda>v. if sz > 0 \<and> v < 128 then sfail ErrCanonSize else sret v)
     | KList \<Rightarrow> sfail ErrExpectedString)"

definition stream_List :: "nat sm" where
  "stream_List = sbind stream_Kind (\<lambda>(k, sz) s.
     if k \<noteq> KList then (Inl ErrExpectedList, s)
     else (Inr sz, s\<lparr>stack := (0, sz) # stack s, skind := None, ssize := 0\<rparr>))"

definition stream_ListEnd :: "unit sm" where
  "stream_ListEnd s =
    (case stack s of
       [] \<Rightarrow> (Inl errNotInList, s)
     | tos # st \<Rightarrow>
         if fst tos \<noteq> snd tos then (Inl errNotAtEOL, s)
         else (Inr (), s\<lparr>stack := (case st of [] \<Rightarrow> []
                                   | outer # st' \<Rightarrow> (fst outer + snd tos, snd outer) # st'),
                         skind := None, ssize := 0\<rparr>))"

section \<open>Decoders derived from Go types\<close>

definition decodeUint :: "nat \<Rightarrow> nat sm" where
  "decodeUint bits = smap_err wrapStreamError (stream_uint bits)"

definition decodeUint64 :: "u64 sm" where
  "decodeUint64 = sbind (decodeUint 64) (\<lambda>n. sret (of_nat n))"

definition decodeBigInt :: "int sm" where
  "decodeBigInt = sbind (smap_err wrapStreamError stream_Bytes) (\<lambda>b.
     if length b > 0 \<and> hd b = 0 then sfail (wrapStreamError ErrCanonInt)
     else sret (int (be_val b)))"

definition decodeByteSlice :: "bytes sm" where
  "decodeByteSlice = smap_err wrapStreamError stream_Bytes"

definition decodeByteArray :: "nat \<Rightarrow> bytes sm" where
  "decodeByteArray vlen = sbind stream_Kind (\<lambda>(k, sz).
     case k of
       KByte \<Rightarrow>
         if vlen = 0 then sfail (decodeError InputStringTooLong)
         else if vlen > 1 then sfail (decodeError InputStringTooShort)
         else (\<lambda>s. case stream_uint 64 s of
                 (Inl e, s') \<Rightarrow> (Inr [0], s')
               | (Inr v, s') \<Rightarrow> (Inr [of_nat v], s'))
     | KString \<Rightarrow>
         if vlen < sz then sfail (decodeError InputStringTooLong)
         else if vlen > sz then sfail (decodeError InputStringTooShort)
         else sbind (readFull vlen) (\<lambda>b.
           if sz = 1 \<and> hd b < 128 then sfail (wrapStreamError ErrCanonSize) else sret b)
     | KList \<Rightarrow> sfail (wrapStreamError ErrExpectedString))"

text \<open>
  The decoder of a struct opens the list, decodes the fields in order, turning the end of the
  list inside a field into ``too few elements'', and closes the list.
\<close>

definition struct_field :: "'a sm \<Rightarrow> 'a sm" where
  "struct_field m = smap_err (\<lambda>e. if e = EOL then decodeError TooFewElements else e) m"

definition decodeStruct :: "'a sm \<Rightarrow> 'a sm" where
  "decodeStruct flds = sbind (smap_err wrapStreamError stream_List) (\<lambda>_.
     sbind flds (\<lambda>v.
     sbind (smap_err wrapStreamError stream_ListEnd) (\<lambda>_. sret v)))"

abbreviation fld :: "'a sm \<Rightarrow> ('a \<Rightarrow> 'b sm) \<Rightarrow> 'b sm" where
  "fld m f \<equiv> sbind (struct_field m) f"

text \<open>
  A pointer field with the tag \<open>nil\<close> reads an empty value of its nil kind as the nil
  pointer; without the tag a pointer is decoded like the value it points to.
\<close>

definition decodeNilPtr :: "Kind \<Rightarrow> 'a sm \<Rightarrow> 'a option sm" where
  "decodeNilPtr nilKind elem = sbind (smap_err wrapStreamError stream_Kind) (\<lambda>(kind, sz).
     if kind \<noteq> KByte \<and> sz = 0 then
       if kind \<noteq> nilKind then sfail (decodeError WrongEmptyKind)
       else sbind rearm (\<lambda>_. sret None)
     else sbind elem (\<lambda>v. sret (Some v)))"

text \<open>
  The decoder of a slice reads elements until the end of the list. Every element decoder
  used here consumes at least one byte, so the number of bytes left bounds the iterations;
  running out would be \<open>errFuel\<close>, and the theory \<open>Rlp_Progress\<close> shows that it never happens.
\<close>

fun decodeSliceElems :: "nat \<Rightarrow> 'a sm \<Rightarrow> 'a list sm" where
  "decodeSliceElems 0 elemdec s = (Inl errFuel, s)"
| "decodeSliceElems (Suc fuel) elemdec s =
     (case elemdec s of
        (Inl e, s') \<Rightarrow> if e = EOL then (Inr [], s') else (Inl e, s')
      | (Inr v, s') \<Rightarrow> sbind (decodeSliceElems fuel elemdec) (\<lambda>vs. sret (v # vs)) s')"

definition decodeListSlice :: "'a sm \<Rightarrow> 'a list sm" where
  "decodeListSlice elemdec = sbind (smap_err wrapStreamError stream_List) (\<lambda>sz.
     if sz = 0 then sbind stream_ListEnd (\<lambda>_. sret [])
     else sbind (\<lambda>s. decodeSliceElems (Suc (remaining s)) elemdec s) (\<lambda>vs.
          sbind stream_ListEnd (\<lambda>_. sret vs)))"

definition DecodeBytes :: "'a sm \<Rightarrow> bytes \<Rightarrow> rlp_err + 'a" where
  "DecodeBytes dec b =
    (case dec (stream_Reset b) of
       (Inl e, s) \<Rightarrow> Inl e
     | (Inr v, s) \<Rightarrow> if length (sin s) > 0 then Inl ErrMoreThanOneValue else Inr v)"

section \<open>Reading an encoded value\<close>

definition pos_at :: "stream \<Rightarrow> bytes \<Rightarrow> (nat \<times> nat) list \<Rightarrow> bool" where
  "pos_at s bs st \<longleftrightarrow> skind s = None \<and> limited s \<and> sin s = bs \<and> remaining s = length bs
     \<and> stack s = st"

fun room :: "nat \<Rightarrow> (nat \<times> nat) list \<Rightarrow> bool" where
  "room n [] = True"
| "room n (tos # st) = (fst tos + n \<le> snd tos)"

fun bump :: "nat \<Rightarrow> (nat \<times> nat) list \<Rightarrow> (nat \<times> nat) list" where
  "bump n [] = []"
| "bump n (tos # st) = (fst tos + n, snd tos) # st"

definition reads :: "'a sm \<Rightarrow> bytes \<Rightarrow> 'a \<Rightarrow> bool" where
  "reads m bs v \<longleftrightarrow> (\<forall>s rest st. pos_at s (bs @ rest) st \<longrightarrow> room (length bs) st \<longrightarrow>
     (\<exists>s'. m s = (Inr v, s') \<and> pos_at s' rest (bump (length bs) st)))"

lemma readsI:
  assumes "\<And>s rest st. pos_at s (bs @ rest) st \<Longrightarrow> room (length bs) st \<Longrightarrow>
     \<exists>s'. m s = (Inr v, s') \<and> pos_at s' rest (bump (length bs) st)"
  shows "reads m bs v"
  using assms by (auto simp: reads_def)

lemma readsD:
  assumes "reads m bs v" "pos_at s (bs @ rest) st" "room (length bs) st"
  obtains s' where "m s = (Inr v, s')" "pos_at s' rest (bump (length bs) st)"
  using assms unfolding reads_def by blast

lemma bump_bump [simp]: "bump m (bump n st) = bump (n + m) st"
  by (cases st) (auto simp: add.assoc)

lemma bump_0 [simp]: "bump 0 st = st"
  by (cases st) auto

lemma room_bump [simp]: "room m (bump n st) \<longleftrightarrow> (st = [] \<or> room (n + m) st)"
  by (cases st) (auto simp: add.assoc)

lemma room_mono: "room n st \<Longrightarrow> m \<le> n \<Longrightarrow> room m st"
  by (cases st) auto

lemma reads_sret [simp, intro]: "reads (sret v) [] v"
  by (rule readsI) (simp add: sret_def)

lemma reads_sbind:
  assumes "reads m as a" "reads (f a) bs b"
  shows "reads (sbind m f) (as @ bs) b"
proof (rule readsI)
  fix s rest st
  assume p: "pos_at s ((as @ bs) @ rest) st" and r: "room (length (as @ bs)) st"
  from p r obtain s' where 1: "m s = (Inr a, s')" "pos_at s' (bs @ rest) (bump (length as) st)"
    using assms(1) by (auto elim!: readsD [where rest = "bs @ rest"] intro: room_mono)
  moreover have "room (length bs) (bump (length as) st)"
    using r by simp
  ultimately obtain s'' where
    "f a s' = (Inr b, s'')" "pos_at s'' rest (bump (length bs) (bump (length as) st))"
    using assms(2) by (auto elim!: readsD)
  with 1 show "\<exists>s'. sbind m f s = (Inr b, s') \<and> pos_at s' rest (bump (length (as @ bs)) st)"
    by (auto simp: sbind_def)
qed

lemma reads_sbind_sret:
  assumes "reads m as a" "f a = sret b"
  shows "reads (sbind m f) as b"
  using reads_sbind [OF assms(1), of f "[]" b] assms(2) by simp

lemma reads_smap_err: "reads m bs v \<Longrightarrow> reads (smap_err g m) bs v"
  by (rule readsI) (auto simp: smap_err_def elim!: readsD)

lemma reads_struct_field: "reads m bs v \<Longrightarrow> reads (struct_field m) bs v"
  by (simp add: struct_field_def reads_smap_err)

subsection \<open>The header of a value\<close>

lemma willRead_ok:
  assumes "limited s" "n \<le> remaining s" "room n (stack s)"
  shows "willRead n s =
    (Inr (), s\<lparr>skind := None, remaining := remaining s - n, stack := bump n (stack s)\<rparr>)"
  using assms by (cases "stack s") (auto simp: willRead_def Let_def)

lemma readByte_ok:
  assumes "pos_at s (b # rest) st" "room 1 st"
  shows "\<exists>s'. readByte s = (Inr b, s') \<and> pos_at s' rest (bump 1 st)"
  using assms by (auto simp: readByte_def sbind_def willRead_ok pos_at_def)

lemma readFull_ok:
  assumes "pos_at s (bs @ rest) st" "room (length bs) st"
  shows "\<exists>s'. readFull (length bs) s = (Inr bs, s') \<and> pos_at s' rest (bump (length bs) st)"
  using assms by (auto simp: readFull_def sbind_def willRead_ok pos_at_def)


lemma unat_tag:
  assumes "n < 56"
  shows "unat (0x80 + of_nat n :: byte) = 128 + n" "unat (0xC0 + of_nat n :: byte) = 192 + n"
  using assms by (simp_all add: unat_word_ariths unat_of_nat)

lemma unat_long_tag:
  assumes "n \<le> 8"
  shows "unat (0xB7 + of_nat n :: byte) = 183 + n" "unat (0xF7 + of_nat n :: byte) = 247 + n"
  using assms by (simp_all add: unat_word_ariths unat_of_nat)

lemma readUint_be_min:
  assumes "pos_at s (be_min n @ rest) st" "room (length (be_min n)) st" "0 < n"
  shows "\<exists>s'. readUint (length (be_min n)) s = (Inr n, s')
     \<and> pos_at s' rest (bump (length (be_min n)) st)"
proof (cases "length (be_min n) = 1")
  case True
  then obtain c where c: "be_min n = [c]" by (auto simp: length_Suc_conv)
  then have "n = unat c" using be_val_be_min [of n] by simp
  with c assms readByte_ok [of s c rest st] show ?thesis
    by (auto simp: readUint_def sbind_def sret_def)
next
  case False
  obtain s' where s': "readFull (length (be_min n)) s = (Inr (be_min n), s')"
      "pos_at s' rest (bump (length (be_min n)) st)"
    using readFull_ok [OF assms(1,2)] by blast
  have "hd (be_min n) \<noteq> 0"
    using assms(3) no_leading_zero_be_min [of n]
    by (cases "be_min n") (auto simp: no_leading_zero_def simp del: no_leading_zero_be_min)
  with False assms(3) s' show ?thesis
    by (simp add: readUint_def sbind_def sret_def)
qed

definition kind_at :: "stream \<Rightarrow> Kind \<Rightarrow> nat \<Rightarrow> bytes \<Rightarrow> (nat \<times> nat) list \<Rightarrow> bool" where
  "kind_at s k n bs st \<longleftrightarrow> skind s = Some k \<and> ssize s = n \<and> kinderr s = None \<and> limited s
     \<and> sin s = bs \<and> remaining s = length bs \<and> stack s = st"

lemma readKind_head:
  assumes "pos_at s (enc_head t l n @ rest) st" "n < 2 ^ 64" "room (headsize n) st"
    and "(t, l, k) = (0x80, 0xB7, KString) \<or> (t, l, k) = (0xC0, 0xF7, KList)"
  shows "\<exists>s'. readKind s = ((k, n, None), s') \<and> pos_at s' rest (bump (headsize n) st)"
proof (cases "n < 56")
  case True
  with assms obtain s' where s': "readByte s = (Inr (t + of_nat n), s')" "pos_at s' rest (bump 1 st)"
    using readByte_ok [of s "t + of_nat n" rest st] by (auto simp: enc_head_def headsize_def)
  have "pos_at (s'\<lparr>byteval := 0\<rparr>) rest (bump 1 st)" using s'(2) by (simp add: pos_at_def)
  with True s' assms(4) unat_tag [OF True] show ?thesis
    by (auto simp: readKind_def headsize_def word_less_nat_alt Let_def unat_of_nat)
next
  case False
  let ?L = "length (be_min n)"
  have L: "?L \<le> 8" "0 < ?L"
    using length_be_min_le [of n 8] assms(2) False by auto
  have hs: "headsize n = 1 + ?L" using False by (simp add: headsize_def intsize_be_min)
  with False assms(1) have "pos_at s ((l + of_nat ?L) # be_min n @ rest) st"
    by (simp add: enc_head_def)
  moreover have "room 1 st" using assms(3) hs by (auto intro: room_mono)
  ultimately obtain s' where s': "readByte s = (Inr (l + of_nat ?L), s')"
      "pos_at s' (be_min n @ rest) (bump 1 st)"
    using readByte_ok by blast
  have "pos_at (s'\<lparr>byteval := 0\<rparr>) (be_min n @ rest) (bump 1 st)"
    using s'(2) by (simp add: pos_at_def)
  moreover have "room ?L (bump 1 st)" using assms(3) hs by simp
  ultimately obtain s'' where s'': "readUint ?L (s'\<lparr>byteval := 0\<rparr>) = (Inr n, s'')"
      "pos_at s'' rest (bump (headsize n) st)"
    using readUint_be_min [of "s'\<lparr>byteval := 0\<rparr>" n rest "bump 1 st"] False hs by auto
  have u: "unat (of_nat ?L :: byte) = ?L" using L by (simp add: unat_of_nat)
  show ?thesis
    using False s' s'' assms(4) L unat_long_tag [OF L(1)] u
    by (auto simp: readKind_def word_less_nat_alt Let_def)
qed

lemma stream_Kind_head:
  assumes "pos_at s (enc_head t l n @ rest) st" "n < 2 ^ 64" "n \<le> length rest"
    and "room (headsize n + n) st"
    and "(t, l, k) = (0x80, 0xB7, KString) \<or> (t, l, k) = (0xC0, 0xF7, KList)"
  shows "\<exists>s'. stream_Kind s = (Inr (k, n), s') \<and> kind_at s' k n rest (bump (headsize n) st)"
proof -
  have h: "0 < headsize n" by (simp add: headsize_def)
  have "pos_at (s\<lparr>kinderr := None\<rparr>) (enc_head t l n @ rest) st"
    using assms(1) by (simp add: pos_at_def)
  moreover have "room (headsize n) st" using assms(4) by (auto intro: room_mono)
  ultimately obtain s' where s': "readKind (s\<lparr>kinderr := None\<rparr>) = ((k, n, None), s')"
      "pos_at s' rest (bump (headsize n) st)"
    using readKind_head assms(2,5) by blast
  have sk: "skind s = None" "stack s = st" using assms(1) by (auto simp: pos_at_def)
  show ?thesis
    using s' assms(3,4) h sk
    by (cases st) (auto simp: stream_Kind_def pos_at_def kind_at_def)
qed

lemma stream_Kind_byte:
  assumes "pos_at s (b # rest) st" "b < 0x80" "room 1 st"
  shows "\<exists>s'. stream_Kind s = (Inr (KByte, 0), s') \<and> kind_at s' KByte 0 rest (bump 1 st)
     \<and> byteval s' = b"
proof -
  have "pos_at (s\<lparr>kinderr := None\<rparr>) (b # rest) st"
    using assms(1) by (simp add: pos_at_def)
  then obtain s' where s': "readByte (s\<lparr>kinderr := None\<rparr>) = (Inr b, s')"
      "pos_at s' rest (bump 1 st)"
    using readByte_ok assms(3) by blast
  have sk: "skind s = None" "stack s = st" using assms(1) by (auto simp: pos_at_def)
  show ?thesis
    using s' assms sk
    by (cases st) (auto simp: stream_Kind_def readKind_def pos_at_def kind_at_def Let_def)
qed

lemma kind_at_pos:
  "kind_at s k n bs st \<Longrightarrow> pos_at (s\<lparr>skind := None\<rparr>) bs st"
  by (simp add: kind_at_def pos_at_def)

lemma readFull_kind:
  assumes "kind_at s k n (bs @ rest) st" "room (length bs) st"
  shows "\<exists>s'. readFull (length bs) s = (Inr bs, s') \<and> pos_at s' rest (bump (length bs) st)"
  using assms by (auto simp: readFull_def sbind_def willRead_ok pos_at_def kind_at_def)

subsection \<open>Strings and integers\<close>

lemma enc_Str_cases:
  obtains (single) c where "b = [c]" "c < 0x80" "enc_str b = [c]"
  | (header) "\<not> (length b = 1 \<and> hd b < 128)" "enc_str b = enc_head 0x80 0xB7 (length b) @ b"
proof (cases "length b = 1 \<and> hd b \<le> 0x7F")
  case True
  then obtain c where "b = [c]" by (auto simp: length_Suc_conv)
  moreover from this True have "c < 0x80" by (simp add: word_less_nat_alt word_le_nat_alt)
  ultimately show ?thesis using True single by (simp add: enc_str_def)
next
  case False
  moreover from this have "\<not> (length b = 1 \<and> hd b < 128)"
    by (auto simp: word_less_nat_alt word_le_nat_alt)
  ultimately show ?thesis using header by (auto simp: enc_str_def)
qed

lemma reads_Bytes:
  assumes "length b < 2 ^ 64"
  shows "reads stream_Bytes (enc_str b) b"
proof (cases rule: enc_Str_cases [of b])
  case (single c)
  show ?thesis
  proof (rule readsI)
    fix s rest st
    assume "pos_at s (enc_str b @ rest) st" "room (length (enc_str b)) st"
    then obtain s' where s': "stream_Kind s = (Inr (KByte, 0), s')"
        "kind_at s' KByte 0 rest (bump 1 st)" "byteval s' = c"
      using stream_Kind_byte [of s c rest st] single by auto
    with single show "\<exists>s'. stream_Bytes s = (Inr b, s')
        \<and> pos_at s' rest (bump (length (enc_str b)) st)"
      by (auto simp: stream_Bytes_def sbind_def rearm_def kind_at_pos)
  qed
next
  case header
  show ?thesis
  proof (rule readsI)
    fix s rest st
    assume p: "pos_at s (enc_str b @ rest) st" and r: "room (length (enc_str b)) st"
    then have r': "room (headsize (length b) + length b) st"
      using header by (simp add: length_enc_head)
    with p obtain s' where s': "stream_Kind s = (Inr (KString, length b), s')"
        "kind_at s' KString (length b) (b @ rest) (bump (headsize (length b)) st)"
      using stream_Kind_head [of s "0x80" "0xB7" "length b" "b @ rest" st KString] header assms
      by auto
    with r' obtain s'' where s'': "readFull (length b) s' = (Inr b, s'')"
        "pos_at s'' rest (bump (length (enc_str b)) st)"
      using readFull_kind [OF s'(2)] header by (auto simp: length_enc_head)
    then show "\<exists>s'. stream_Bytes s = (Inr b, s')
        \<and> pos_at s' rest (bump (length (enc_str b)) st)"
      using s' s'' header(1) by (auto simp: stream_Bytes_def sbind_def sret_def)
  qed
qed

lemma reads_decodeByteSlice: "length b < 2 ^ 64 \<Longrightarrow> reads decodeByteSlice (enc_str b) b"
  unfolding decodeByteSlice_def by (intro reads_smap_err reads_Bytes)

lemma reads_decodeBigInt:
  assumes "0 \<le> x" "length (be_min (nat x)) < 2 ^ 64"
  shows "reads decodeBigInt (enc_str (be_min (nat x))) x"
proof -
  have "\<not> (length (be_min (nat x)) > 0 \<and> hd (be_min (nat x)) = 0)"
    using no_leading_zero_be_min [of "nat x"]
    by (cases "be_min (nat x)") (auto simp: no_leading_zero_def simp del: no_leading_zero_be_min)
  then show ?thesis
    unfolding decodeBigInt_def using assms
    by (intro reads_sbind_sret [where a = "be_min (nat x)"] reads_smap_err reads_Bytes) auto
qed

lemma reads_decodeByteArray:
  assumes "length b = n" "n \<noteq> 1" "n < 2 ^ 64"
  shows "reads (decodeByteArray n) (enc_str b) b"
proof (rule readsI)
  fix s rest st
  assume p: "pos_at s (enc_str b @ rest) st" and r: "room (length (enc_str b)) st"
  have e: "enc_str b = enc_head 0x80 0xB7 n @ b" using assms by (simp add: enc_str_def)
  then have r': "room (headsize n + n) st" using r assms by (simp add: length_enc_head)
  with p e assms obtain s' where s': "stream_Kind s = (Inr (KString, n), s')"
      "kind_at s' KString n (b @ rest) (bump (headsize n) st)"
    using stream_Kind_head [of s "0x80" "0xB7" n "b @ rest" st KString] by auto
  with r' assms obtain s'' where s'': "readFull n s' = (Inr b, s'')"
      "pos_at s'' rest (bump (headsize n + n) st)"
    using readFull_kind [OF s'(2)] by auto
  then show "\<exists>s'. decodeByteArray n s = (Inr b, s')
      \<and> pos_at s' rest (bump (length (enc_str b)) st)"
    using s' e assms by (auto simp: decodeByteArray_def sbind_def sret_def length_enc_head)
qed

lemma reads_stream_uint:
  assumes "i < 2 ^ 64"
  shows "reads (stream_uint 64) (enc_str (be_min i)) i"
proof (cases rule: enc_Str_cases [of "be_min i"])
  case (single c)
  then have i: "i = unat c" "c \<noteq> 0"
    using be_val_be_min [of i] no_leading_zero_be_min [of i]
    by (auto simp: no_leading_zero_def simp del: no_leading_zero_be_min be_val_be_min)
  show ?thesis
  proof (rule readsI)
    fix s rest st
    assume "pos_at s (enc_str (be_min i) @ rest) st" "room (length (enc_str (be_min i))) st"
    then obtain s' where s': "stream_Kind s = (Inr (KByte, 0), s')"
        "kind_at s' KByte 0 rest (bump 1 st)" "byteval s' = c"
      using stream_Kind_byte [of s c rest st] single by auto
    with i single show "\<exists>s'. stream_uint 64 s = (Inr i, s')
        \<and> pos_at s' rest (bump (length (enc_str (be_min i))) st)"
      by (auto simp: stream_uint_def sbind_def kind_at_pos)
  qed
next
  case header
  let ?n = "length (be_min i)"
  have n8: "?n \<le> 8" using assms by (intro length_be_min_le) simp
  have big: "\<not> (?n > 0 \<and> i < 128)"
  proof
    assume a: "?n > 0 \<and> i < 128"
    then have "be_min i = [of_nat i]" by (simp add: be_min_small)
    moreover from a have "(of_nat i :: byte) < 128"
      by (simp add: word_less_nat_alt unat_of_nat)
    ultimately show False using header(1) by simp
  qed
  show ?thesis
  proof (rule readsI)
    fix s rest st
    assume p: "pos_at s (enc_str (be_min i) @ rest) st"
      and r: "room (length (enc_str (be_min i))) st"
    then have r': "room (headsize ?n + ?n) st" using header by (simp add: length_enc_head)
    with p n8 obtain s' where s': "stream_Kind s = (Inr (KString, ?n), s')"
        "kind_at s' KString ?n (be_min i @ rest) (bump (headsize ?n) st)"
      using stream_Kind_head [of s "0x80" "0xB7" ?n "be_min i @ rest" st KString] header by auto
    have "\<exists>s''. readUint ?n s' = (Inr i, s'') \<and> pos_at s'' rest (bump (headsize ?n + ?n) st)"
    proof (cases "i = 0")
      case True
      with s'(2) kind_at_pos show ?thesis by (auto simp: readUint_def)
    next
      case False
      have "readUint ?n s' = readUint ?n (s'\<lparr>skind := None\<rparr>)"
        using False by (auto simp: readUint_def readByte_def readFull_def sbind_def willRead_def)
      with False r' kind_at_pos [OF s'(2)] show ?thesis
        using readUint_be_min [of "s'\<lparr>skind := None\<rparr>" i rest "bump (headsize ?n) st"] by auto
    qed
    with s' n8 big header show "\<exists>s'. stream_uint 64 s = (Inr i, s')
        \<and> pos_at s' rest (bump (length (enc_str (be_min i))) st)"
      by (auto simp: stream_uint_def sbind_def sret_def smap_err_def length_enc_head)
  qed
qed

lemma reads_decodeUint64: "reads decodeUint64 (enc_str (be_min (unat i))) i"
proof -
  have "unat i < 2 ^ LENGTH(64)" by (rule unsigned_less)
  then have "unat i < 2 ^ 64" by simp
  then show ?thesis
    unfolding decodeUint64_def decodeUint_def
    by (intro reads_sbind_sret [where a = "unat i"] reads_smap_err reads_stream_uint) simp_all
qed

subsection \<open>Lists\<close>

lemma reads_stream_List:
  assumes "pos_at s (enc (Lst xs) @ rest) st" "room (length (enc (Lst xs))) st"
    and "length (encs xs) < 2 ^ 64"
  shows "\<exists>s'. stream_List s = (Inr (length (encs xs)), s') \<and>
     pos_at s' (encs xs @ rest) ((0, length (encs xs)) # bump (headsize (length (encs xs))) st)"
proof -
  let ?n = "length (encs xs)"
  obtain s' where s': "stream_Kind s = (Inr (KList, ?n), s')"
      "kind_at s' KList ?n (encs xs @ rest) (bump (headsize ?n) st)"
    using stream_Kind_head [of s "0xC0" "0xF7" ?n "encs xs @ rest" st KList] assms
    by (auto simp: length_enc_head)
  then show ?thesis
    by (auto simp: stream_List_def sbind_def kind_at_def pos_at_def)
qed

lemma stream_ListEnd_ok:
  assumes "pos_at s rest ((n, n) # bump h st)"
  shows "\<exists>s'. stream_ListEnd s = (Inr (), s') \<and> pos_at s' rest (bump (h + n) st)"
  using assms by (cases st) (auto simp: stream_ListEnd_def pos_at_def)

lemma reads_in_list:
  assumes "reads m (encs xs) v" "length (encs xs) < 2 ^ 64"
    and "pos_at s (enc (Lst xs) @ rest) st" "room (length (enc (Lst xs))) st"
  shows "\<exists>s1 s2 s3. stream_List s = (Inr (length (encs xs)), s1) \<and> m s1 = (Inr v, s2)
     \<and> stream_ListEnd s2 = (Inr (), s3) \<and> pos_at s3 rest (bump (length (enc (Lst xs))) st)"
proof -
  let ?n = "length (encs xs)"
  obtain s1 where s1: "stream_List s = (Inr ?n, s1)"
      "pos_at s1 (encs xs @ rest) ((0, ?n) # bump (headsize ?n) st)"
    using reads_stream_List assms by blast
  then obtain s2 where s2: "m s1 = (Inr v, s2)" "pos_at s2 rest ((?n, ?n) # bump (headsize ?n) st)"
    using assms(1) by (auto elim!: readsD)
  then obtain s3 where "stream_ListEnd s2 = (Inr (), s3)" "pos_at s3 rest (bump (headsize ?n + ?n) st)"
    using stream_ListEnd_ok by blast
  with s1 s2 show ?thesis by (auto simp: length_enc_head)
qed

lemma reads_decodeStruct:
  assumes "reads m (encs xs) v" "length (encs xs) < 2 ^ 64"
  shows "reads (decodeStruct m) (enc (Lst xs)) v"
proof (rule readsI)
  fix s rest st
  assume "pos_at s (enc (Lst xs) @ rest) st" "room (length (enc (Lst xs))) st"
  from reads_in_list [OF assms this]
  show "\<exists>s'. decodeStruct m s = (Inr v, s') \<and> pos_at s' rest (bump (length (enc (Lst xs))) st)"
    by (auto simp: decodeStruct_def sbind_def smap_err_def sret_def)
qed

lemma reads_fld:
  assumes "reads m as a" "reads (f a) bs b"
  shows "reads (fld m f) (as @ bs) b"
  using assms by (intro reads_sbind reads_struct_field)

lemma reads_stream_Raw_Lst:
  assumes "length (encs xs) < 2 ^ 64"
  shows "reads stream_Raw (enc (Lst xs)) (enc (Lst xs))"
proof (rule readsI)
  fix s rest st
  let ?n = "length (encs xs)"
  assume p: "pos_at s (enc (Lst xs) @ rest) st" and r: "room (length (enc (Lst xs))) st"
  then have r': "room (headsize ?n + ?n) st" by (simp add: length_enc_head)
  with p obtain s' where s': "stream_Kind s = (Inr (KList, ?n), s')"
      "kind_at s' KList ?n (encs xs @ rest) (bump (headsize ?n) st)"
    using stream_Kind_head [of s "0xC0" "0xF7" ?n "encs xs @ rest" st KList] assms by auto
  moreover obtain s'' where "readFull ?n s' = (Inr (encs xs), s'')"
      "pos_at s'' rest (bump (length (enc (Lst xs))) st)"
    using readFull_kind [OF s'(2)] r' by (auto simp: length_enc_head)
  ultimately show "\<exists>s'. stream_Raw s = (Inr (enc (Lst xs)), s')
      \<and> pos_at s' rest (bump (length (enc (Lst xs))) st)"
    using assms by (auto simp: stream_Raw_def sbind_def sret_def puthead_enc_head)
qed

lemma reads_stream_Raw_Str:
  assumes "length b < 2 ^ 64"
  shows "reads stream_Raw (enc_str b) (enc_str b)"
proof (cases rule: enc_Str_cases [of b])
  case (single c)
  show ?thesis
  proof (rule readsI)
    fix s rest st
    assume "pos_at s (enc_str b @ rest) st" "room (length (enc_str b)) st"
    then obtain s' where "stream_Kind s = (Inr (KByte, 0), s')"
        "kind_at s' KByte 0 rest (bump 1 st)" "byteval s' = c"
      using stream_Kind_byte [of s c rest st] single by auto
    with single show "\<exists>s'. stream_Raw s = (Inr (enc_str b), s')
        \<and> pos_at s' rest (bump (length (enc_str b)) st)"
      by (auto simp: stream_Raw_def sbind_def rearm_def kind_at_pos)
  qed
next
  case header
  show ?thesis
  proof (rule readsI)
    fix s rest st
    assume p: "pos_at s (enc_str b @ rest) st" and r: "room (length (enc_str b)) st"
    then have r': "room (headsize (length b) + length b) st"
      using header by (simp add: length_enc_head)
    with p obtain s' where s': "stream_Kind s = (Inr (KString, length b), s')"
        "kind_at s' KString (length b) (b @ rest) (bump (headsize (length b)) st)"
      using stream_Kind_head [of s "0x80" "0xB7" "length b" "b @ rest" st KString] header assms
      by auto
    moreover obtain s'' where "readFull (length b) s' = (Inr b, s'')"
        "pos_at s'' rest (bump (length (enc_str b)) st)"
      using readFull_kind [OF s'(2)] r' header by (auto simp: length_enc_head)
    ultimately show "\<exists>s'. stream_Raw s = (Inr (enc_str b), s')
        \<and> pos_at s' rest (bump (length (enc_str b)) st)"
      using assms header by (auto simp: stream_Raw_def sbind_def sret_def puthead_enc_head)
  qed
qed

lemma stream_Kind_idem: "stream_Kind (snd (stream_Kind s)) = stream_Kind s"
  by (simp add: stream_Kind_def Let_def split: option.split prod.split list.split)

definition stops :: "'a sm \<Rightarrow> bool" where
  "stops m \<longleftrightarrow> (\<forall>s rest n st. pos_at s rest ((n, n) # st) \<longrightarrow>
     (\<exists>s'. m s = (Inl EOL, s') \<and> pos_at s' rest ((n, n) # st)))"

lemma stops_Kind: "stops stream_Kind"
  by (auto simp: stops_def stream_Kind_def pos_at_def)

lemma stops_sbind: "stops m \<Longrightarrow> stops (sbind m f)"
  by (fastforce simp: stops_def sbind_def)

lemma stops_wrap: "stops m \<Longrightarrow> stops (smap_err wrapStreamError m)"
  by (fastforce simp: stops_def smap_err_def wrapStreamError_def)

lemma stops_decoders [simp]:
  "stops stream_Bytes" "stops (decodeByteArray n)" "stops (decodeStruct m)" "stops stream_Raw"
  by (simp_all add: stream_Bytes_def decodeByteArray_def decodeStruct_def stream_List_def
      stream_Raw_def stops_sbind stops_wrap stops_Kind)

lemma decodeSliceElems_reads:
  assumes el: "\<And>x. x \<in> set xs \<Longrightarrow> reads m (enc (f x)) x" and st: "stops m"
    and "pos_at s (encs (map f xs) @ rest) ((p, z) # st')"
    and "p + length (encs (map f xs)) = z" and "length xs < fuel"
  shows "\<exists>s'. decodeSliceElems fuel m s = (Inr xs, s') \<and> pos_at s' rest ((z, z) # st')"
  using assms
proof (induction xs arbitrary: s p fuel)
  case Nil
  then have "pos_at s rest ((z, z) # st')" by simp
  with \<open>stops m\<close> obtain s' where "m s = (Inl EOL, s')" "pos_at s' rest ((z, z) # st')"
    unfolding stops_def by blast
  with Nil show ?case by (cases fuel) auto
next
  case (Cons x xs)
  then obtain fuel' where fuel: "fuel = Suc fuel'" by (cases fuel) auto
  from Cons.prems(1) have "reads m (enc (f x)) x" by simp
  with Cons.prems(3,4) obtain s1 where s1: "m s = (Inr x, s1)"
      "pos_at s1 (encs (map f xs) @ rest) ((p + length (enc (f x)), z) # st')"
    by (auto elim!: readsD [where rest = "encs (map f xs) @ rest"])
  from Cons.IH [OF _ Cons.prems(2) s1(2), of fuel'] Cons.prems fuel
  obtain s2 where "decodeSliceElems fuel' m s1 = (Inr xs, s2)" "pos_at s2 rest ((z, z) # st')"
    by auto
  with fuel s1 show ?case by (simp add: sbind_def sret_def)
qed

lemma length_le_encs:
  assumes "\<And>x. x \<in> set xs \<Longrightarrow> enc (f x) \<noteq> []"
  shows "length xs \<le> length (encs (map f xs))"
  using assms
proof (induction xs)
  case (Cons x xs)
  then have "1 \<le> length (enc (f x))" by (simp add: Suc_le_eq)
  with Cons show ?case by fastforce
qed simp

lemma reads_decodeListSlice:
  assumes el: "\<And>x. x \<in> set xs \<Longrightarrow> reads m (enc (f x)) x" and st: "stops m"
    and ne: "\<And>x. x \<in> set xs \<Longrightarrow> enc (f x) \<noteq> []" and len: "length (encs (map f xs)) < 2 ^ 64"
  shows "reads (decodeListSlice m) (enc (Lst (map f xs))) xs"
proof (rule readsI)
  fix s rest st'
  let ?n = "length (encs (map f xs))"
  assume a: "pos_at s (enc (Lst (map f xs)) @ rest) st'" "room (length (enc (Lst (map f xs)))) st'"
  then obtain s1 where s1: "stream_List s = (Inr ?n, s1)"
      "pos_at s1 (encs (map f xs) @ rest) ((0, ?n) # bump (headsize ?n) st')"
    using reads_stream_List len by blast
  show "\<exists>s'. decodeListSlice m s = (Inr xs, s')
      \<and> pos_at s' rest (bump (length (enc (Lst (map f xs)))) st')"
  proof (cases "?n = 0")
    case True
    with length_le_encs [of xs f] ne have "xs = []" by simp
    with s1 stream_ListEnd_ok [of s1 rest 0 "headsize ?n" st'] show ?thesis
      by (auto simp: decodeListSlice_def sbind_def smap_err_def sret_def length_enc_head)
  next
    case False
    have "length xs < Suc (remaining s1)"
      using length_le_encs [of xs f] ne s1(2) by (fastforce simp: pos_at_def)
    with decodeSliceElems_reads [OF el st s1(2)]
    obtain s2 where s2: "decodeSliceElems (Suc (remaining s1)) m s1 = (Inr xs, s2)"
        "pos_at s2 rest ((?n, ?n) # bump (headsize ?n) st')"
      by (auto simp del: decodeSliceElems.simps)
    with False s1 stream_ListEnd_ok [OF s2(2)] show ?thesis
      by (auto simp: decodeListSlice_def sbind_def smap_err_def sret_def length_enc_head
          simp del: decodeSliceElems.simps)
  qed
qed

section \<open>What a successful decoder returns\<close>

definition yields :: "'a sm \<Rightarrow> ('a \<Rightarrow> bool) \<Rightarrow> bool" where
  "yields m P \<longleftrightarrow> (\<forall>s v s'. m s = (Inr v, s') \<longrightarrow> P v)"

lemma yields_sbind: "yields m Q \<Longrightarrow> (\<And>a. Q a \<Longrightarrow> yields (f a) P) \<Longrightarrow> yields (sbind m f) P"
  by (fastforce simp: yields_def sbind_def split: sum.splits prod.splits)

lemma yields_smap_err: "yields m P \<Longrightarrow> yields (smap_err g m) P"
  by (fastforce simp: yields_def smap_err_def split: sum.splits prod.splits)

lemma yields_struct_field: "yields m P \<Longrightarrow> yields (struct_field m) P"
  by (simp add: struct_field_def yields_smap_err)

lemma yields_sret: "P v \<Longrightarrow> yields (sret v) P"
  by (simp add: yields_def sret_def)

lemma yields_sfail: "yields (sfail e) P"
  by (simp add: yields_def sfail_def)

lemma yields_True [simp]: "yields m (\<lambda>_. True)"
  by (simp add: yields_def)

lemma yields_fld: "yields m Q \<Longrightarrow> (\<And>a. Q a \<Longrightarrow> yields (f a) P) \<Longrightarrow> yields (fld m f) P"
  by (intro yields_sbind yields_struct_field)

lemma yields_decodeStruct: "yields m P \<Longrightarrow> yields (decodeStruct m) P"
  unfolding decodeStruct_def
  by (rule yields_sbind [OF yields_True], rule yields_sbind, assumption,
      rule yields_sbind [OF yields_True], rule yields_sret)

lemma yields_readFull: "yields (readFull n) (\<lambda>b. length b = n)"
  by (auto simp: yields_def readFull_def sbind_def split: sum.splits prod.splits if_splits)

lemma yields_decodeByteArray: "yields (decodeByteArray n) (\<lambda>b. length b = n)"
  unfolding decodeByteArray_def
  by (rule yields_sbind [OF yields_True])
    (auto simp: yields_def sfail_def sret_def sbind_def readFull_def
      split: Kind.splits if_splits sum.splits prod.splits)

lemma yields_decodeBigInt: "yields decodeBigInt (\<lambda>x. 0 \<le> x)"
  unfolding decodeBigInt_def
  by (rule yields_sbind [OF yields_True]) (auto intro: yields_sret yields_sfail)

lemma yields_decodeSliceElems: "yields m P \<Longrightarrow> yields (decodeSliceElems n m) (list_all P)"
proof (induction n)
  case (Suc n)
  then show ?case
    by (fastforce simp: yields_def sbind_def sret_def split: sum.splits prod.splits if_splits)
qed (simp add: yields_def)

lemma yields_decodeListSlice: "yields m P \<Longrightarrow> yields (decodeListSlice m) (list_all P)"
  using yields_decodeSliceElems [of m P]
  by (fastforce simp: yields_def decodeListSlice_def sbind_def sret_def
      split: sum.splits prod.splits if_splits)

lemma DecodeBytes_yields: "DecodeBytes m b = Inr v \<Longrightarrow> yields m P \<Longrightarrow> P v"
  by (auto simp: DecodeBytes_def yields_def split: sum.splits prod.splits if_splits)

section \<open>Codecs\<close>

lemma DecodeBytes_reads:
  assumes "reads m bs v"
  shows "DecodeBytes m bs = Inr v"
proof -
  have "pos_at (stream_Reset bs) (bs @ []) []"
    by (simp add: stream_Reset_def pos_at_def)
  then obtain s' where "m (stream_Reset bs) = (Inr v, s')" "pos_at s' [] (bump (length bs) [])"
    by (rule readsD [OF assms]) simp_all
  then show ?thesis by (simp add: DecodeBytes_def pos_at_def)
qed

named_theorems reads_intro

lemma reads_bigint [reads_intro]:
  "0 \<le> x \<Longrightarrow> length (enc (Big x)) < 2 ^ 64 \<Longrightarrow> reads decodeBigInt (enc (Big x)) x"
  using length_enc_str_bound [of "be_min (nat x)"] by (simp add: reads_decodeBigInt)

lemma reads_uint64 [reads_intro]: "reads decodeUint64 (enc (UInt i)) i"
  by (simp add: reads_decodeUint64)

lemma reads_bytes [reads_intro]:
  "length (enc (Str b)) < 2 ^ 64 \<Longrightarrow> reads decodeByteSlice (enc (Str b)) b"
  using length_enc_str_bound [of b] by (simp add: reads_decodeByteSlice)

lemma reads_array [reads_intro]:
  "length b = n \<Longrightarrow> n \<noteq> 1 \<Longrightarrow> n < 2 ^ 64 \<Longrightarrow> reads (decodeByteArray n) (enc (Str b)) b"
  by (simp add: reads_decodeByteArray)

lemma reads_done [reads_intro]: "v = w \<Longrightarrow> reads (sret v) (encs []) w"
  by simp

lemma reads_field [reads_intro]:
  "reads m (enc x) a \<Longrightarrow> reads (f a) (encs xs) b \<Longrightarrow> reads (fld m f) (encs (x # xs)) b"
  by (simp add: reads_fld)

lemma reads_slice [reads_intro]:
  assumes "\<And>x. x \<in> set xs \<Longrightarrow> reads m (enc (f x)) x" "stops m"
    and "\<And>x. x \<in> set xs \<Longrightarrow> enc (f x) \<noteq> []" "length (enc (Lst (map f xs))) < 2 ^ 64"
  shows "reads (decodeListSlice m) (enc (Lst (map f xs))) xs"
  using assms by (intro reads_decodeListSlice) simp_all

lemma reads_struct [reads_intro]:
  "reads m (encs xs) v \<Longrightarrow> length (enc (Lst xs)) < 2 ^ 64 \<Longrightarrow> reads (decodeStruct m) (enc (Lst xs)) v"
  by (intro reads_decodeStruct) simp_all

lemma enc_str_ne [simp]: "enc_str b \<noteq> []" "[] \<noteq> enc_str b"
  by (auto simp: enc_str_def enc_head_def)

lemma length_enc_in:
  "x \<in> set xs \<Longrightarrow> length (enc x) \<le> length (encs xs)"
  by (induction xs) auto

text \<open>
  The contract of a type with an RLP encoding and a decoder: on well-formed values whose
  encoding fits the address space, the decoder reads back what the encoder wrote.
\<close>

locale rlp_codec =
  fixes wf :: "'a \<Rightarrow> bool" and to_item :: "'a \<Rightarrow> item" and decoder :: "'a sm"
  assumes decoder_reads:
    "wf x \<Longrightarrow> length (enc (to_item x)) < 2 ^ 64 \<Longrightarrow> reads decoder (enc (to_item x)) x"
    and item_encodable: "wf x \<Longrightarrow> encodable (to_item x)"
begin

lemma encode_ok:
  assumes "wf x" "length (enc (to_item x)) < 2 ^ 64"
  shows "EncodeToBytes (to_item x) = Some (enc (to_item x))"
  using assms by (intro EncodeToBytes_rule item_encodable)

lemma decode_enc:
  assumes "wf x" "length (enc (to_item x)) < 2 ^ 64"
  shows "DecodeBytes decoder (enc (to_item x)) = Inr x"
  using assms by (intro DecodeBytes_reads decoder_reads)

lemma decode_encode:
  assumes "wf x" "EncodeToBytes (to_item x) = Some b" "length b < 2 ^ 64"
  shows "DecodeBytes decoder b = Inr x"
  using decode_enc [OF assms(1)] EncodeToBytes_small [OF assms(2,3)] assms(3) by simp

lemma encode_inj:
  assumes "wf x" "EncodeToBytes (to_item x) = Some b" "wf y" "EncodeToBytes (to_item y) = Some b"
    and "length b < 2 ^ 64"
  shows "x = y"
  using decode_encode [OF assms(1,2,5)] decode_encode [OF assms(3,4,5)] by simp

end

end
