(* ===== verification/Hotstuff_Error.thy ===== *)
theory Hotstuff_Error
  imports Rlp_Decode
begin

text \<open>
  Errors as values. A sentinel made by \<open>errors.New\<close> is \<open>Sentinel\<close> of its message, which no
  two sentinels share: those of \<open>consensus/hotstuff/error.go\<close> in its order, then those of
  \<open>backend/errors.go\<close> and of the packages whose errors the engine returns. An error built
  with \<open>fmt.Errorf\<close> is \<open>Errorf\<close> of its message without the formatted values,
  \<open>ErrRlp\<close> is an error of the RLP decoder, \<open>ErrEncode\<close> the one error of its encoder and
  \<open>ErrNotFound\<close> the database's error for a missing key.

  \<open>crypto\<close> collects what the engine takes from libraries that are not part of the
  repository: Keccak-256, the ECDSA signatures of \<open>secp256k1\<close>, the threshold BLS
  signatures of kyber, and the two parts of the repository that are only called here, the
  root of a transaction trie and the decoder of a transaction.
\<close>

datatype err =
    Sentinel string | Errorf string | ErrLibrary string | ErrRlp rlp_err | ErrEncode | ErrNotFound

abbreviation ErrInvalidMessage :: err where "ErrInvalidMessage \<equiv> Sentinel ''invalid Message''"
abbreviation ErrInvalidSigner :: err where "ErrInvalidSigner \<equiv> Sentinel ''Message not signed by the sender''"
abbreviation ErrUnauthorizedAddress :: err where "ErrUnauthorizedAddress \<equiv> Sentinel ''unauthorized address''"
abbreviation ErrInconsistentVote :: err where "ErrInconsistentVote \<equiv> Sentinel ''inconsistent vote''"
abbreviation ErrInvalidDigest :: err where "ErrInvalidDigest \<equiv> Sentinel ''invalid digest''"
abbreviation ErrNotFromProposer :: err where "ErrNotFromProposer \<equiv> Sentinel ''Message does not come from proposer''"
abbreviation ErrNotToProposer :: err where "ErrNotToProposer \<equiv> Sentinel ''Message does not send to proposer''"
abbreviation ErrFutureMessage :: err where "ErrFutureMessage \<equiv> Sentinel ''future Message''"
abbreviation ErrFarAwayFutureMessage :: err where "ErrFarAwayFutureMessage \<equiv> Sentinel ''far away future Message''"
abbreviation ErrOldMessage :: err where "ErrOldMessage \<equiv> Sentinel ''old Message''"
abbreviation ErrFailedDecodeNewView :: err where "ErrFailedDecodeNewView \<equiv> Sentinel ''failed to decode NEWVIEW''"
abbreviation ErrFailedDecodePrepare :: err where "ErrFailedDecodePrepare \<equiv> Sentinel ''failed to decode PREPARE''"
abbreviation ErrFailedDecodePrepareVote :: err where "ErrFailedDecodePrepareVote \<equiv> Sentinel ''failed to decode PREPARE_VOTE''"
abbreviation ErrFailedDecodePreCommit :: err where "ErrFailedDecodePreCommit \<equiv> Sentinel ''failed to decode PRECOMMIT''"
abbreviation ErrFailedDecodePreCommitVote :: err where "ErrFailedDecodePreCommitVote \<equiv> Sentinel ''faild to decode PRECOMMIT_VOTE''"
abbreviation ErrFailedDecodeCommit :: err where "ErrFailedDecodeCommit \<equiv> Sentinel ''failed to decode COMMIT''"
abbreviation ErrFailedDecodeCommitVote :: err where "ErrFailedDecodeCommitVote \<equiv> Sentinel ''failed to decode COMMIT_VOTE''"
abbreviation ErrState :: err where "ErrState \<equiv> Sentinel ''error state''"
abbreviation ErrNoRequest :: err where "ErrNoRequest \<equiv> Sentinel ''no valid request''"
abbreviation ErrVerifyUnsealedProposal :: err where "ErrVerifyUnsealedProposal \<equiv> Sentinel ''verify unsealed proposal failed''"
abbreviation ErrExtend :: err where "ErrExtend \<equiv> Sentinel ''proposal extend relationship error''"
abbreviation ErrSafeNode :: err where "ErrSafeNode \<equiv> Sentinel ''safeNode checking failed''"
abbreviation ErrAddNewViews :: err where "ErrAddNewViews \<equiv> Sentinel ''add new view error''"
abbreviation ErrAddPrepareVote :: err where "ErrAddPrepareVote \<equiv> Sentinel ''add prepare vote error''"
abbreviation ErrAddPreCommitVote :: err where "ErrAddPreCommitVote \<equiv> Sentinel ''add pre commit vote error''"
abbreviation ErrInvalidSignature :: err where "ErrInvalidSignature \<equiv> Sentinel ''invalid signature''"
abbreviation ErrIncorrectAggInfo :: err where "ErrIncorrectAggInfo \<equiv> Sentinel ''incorrect agg information''"
abbreviation ErrInsufficientAggPub :: err where "ErrInsufficientAggPub \<equiv> Sentinel ''insufficient aggPub''"
abbreviation ErrInvalidAggregatedSig :: err where "ErrInvalidAggregatedSig \<equiv> Sentinel ''invalid aggregated signature''"
abbreviation ErrEmptyAggregatedSig :: err where "ErrEmptyAggregatedSig \<equiv> Sentinel ''zero aggregated signature''"
abbreviation ErrInvalidProposalMyself :: err where "ErrInvalidProposalMyself \<equiv> Sentinel ''invalid propsal, comes from myself''"
abbreviation ErrTestIncorrectConversion :: err where "ErrTestIncorrectConversion \<equiv> Sentinel ''incorrect conversion''"
abbreviation ErrInvalidNode :: err where "ErrInvalidNode \<equiv> Sentinel ''invalid node''"
abbreviation ErrNilHighQC :: err where "ErrNilHighQC \<equiv> Sentinel ''highQC is nil''"
abbreviation ErrInvalidRawHash :: err where "ErrInvalidRawHash \<equiv> Sentinel ''raw hash is invalid''"
abbreviation ErrInvalidQC :: err where "ErrInvalidQC \<equiv> Sentinel ''invalid qc''"
abbreviation ErrFailedDecodeMessage :: err where "ErrFailedDecodeMessage \<equiv> Sentinel ''message payload invalid''"
abbreviation ErrInvalidCode :: err where "ErrInvalidCode \<equiv> Sentinel ''message type invalid''"
abbreviation ErrInvalidBlock :: err where "ErrInvalidBlock \<equiv> Sentinel ''invalid block''"
abbreviation ErrInvalidProposal :: err where "ErrInvalidProposal \<equiv> Sentinel ''invalid proposal''"
abbreviation ErrUnknownBlock :: err where "ErrUnknownBlock \<equiv> Sentinel ''unknown block''"
abbreviation ErrUnauthorized :: err where "ErrUnauthorized \<equiv> Sentinel ''unauthorized''"
abbreviation ErrInvalidDifficulty :: err where "ErrInvalidDifficulty \<equiv> Sentinel ''invalid difficulty''"
abbreviation ErrInvalidExtraDataFormat :: err where "ErrInvalidExtraDataFormat \<equiv> Sentinel ''invalid extra data format''"
abbreviation ErrInvalidMixDigest :: err where "ErrInvalidMixDigest \<equiv> Sentinel ''invalid Istanbul mix digest''"
abbreviation ErrInvalidUncleHash :: err where "ErrInvalidUncleHash \<equiv> Sentinel ''non empty uncle hash''"
abbreviation ErrInvalidTimestamp :: err where "ErrInvalidTimestamp \<equiv> Sentinel ''invalid timestamp''"
abbreviation ErrInvalidCommittedSeals :: err where "ErrInvalidCommittedSeals \<equiv> Sentinel ''invalid committed seals''"
abbreviation ErrEmptyCommittedSeals :: err where "ErrEmptyCommittedSeals \<equiv> Sentinel ''zero committed seals''"
abbreviation ErrMismatchTxhashes :: err where "ErrMismatchTxhashes \<equiv> Sentinel ''mismatch transactions hashes''"
abbreviation ErrDecodeFailed :: err where "ErrDecodeFailed \<equiv> Sentinel ''decode p2p message failed''"
abbreviation ErrStartedEngine :: err where "ErrStartedEngine \<equiv> Sentinel ''started engine''"
abbreviation ErrStoppedEngine :: err where "ErrStoppedEngine \<equiv> Sentinel ''stopped engine''"
abbreviation ErrInvalidHotstuffHeaderExtra :: err where "ErrInvalidHotstuffHeaderExtra \<equiv> Sentinel ''invalid hotstuff header extra-data''"
abbreviation ErrInvalidIstanbulHeaderExtra :: err where "ErrInvalidIstanbulHeaderExtra \<equiv> Sentinel ''invalid istanbul header extra-data''"
abbreviation ErrUnknownAncestor :: err where "ErrUnknownAncestor \<equiv> Sentinel ''unknown ancestor''"
abbreviation ErrFutureBlock :: err where "ErrFutureBlock \<equiv> Sentinel ''block in the future''"
abbreviation ErrBlacklistedHash :: err where "ErrBlacklistedHash \<equiv> Sentinel ''blacklisted hash''"

record crypto =
  Keccak256 :: "bytes \<Rightarrow> hash"
  ec_Sign :: "bytes \<Rightarrow> hash \<Rightarrow> err + bytes"
  ec_SigToAddress :: "hash \<Rightarrow> bytes \<Rightarrow> err + address"
  tbls_Sign :: "bytes \<Rightarrow> bytes \<Rightarrow> err + bytes"
  tbls_Recover :: "bytes \<Rightarrow> bytes \<Rightarrow> bytes list \<Rightarrow> int \<Rightarrow> int \<Rightarrow> err + bytes"
  bls_Verify :: "bytes \<Rightarrow> bytes \<Rightarrow> bytes \<Rightarrow> err option"
  DeriveSha :: "bytes list \<Rightarrow> hash"
  tx_decodable :: "bytes \<Rightarrow> bool"

text \<open>\<open>Keccak256\<close> returns 32 bytes.\<close>

definition keccak_size :: "crypto \<Rightarrow> bool" where
  "keccak_size K \<longleftrightarrow> (\<forall>b. wf_hash (Keccak256 K b))"

text \<open>\<open>rlpHash\<close> of \<open>core/types/hashing.go\<close> and \<open>RLPHash\<close> of \<open>types.go\<close> ignore the
  encoder's error: nothing is then written to the hasher.\<close>

definition rlpHash :: "crypto \<Rightarrow> item \<Rightarrow> hash" where
  "rlpHash K x = Keccak256 K (case EncodeToBytes x of Some b \<Rightarrow> b | None \<Rightarrow> [])"

lemma wf_rlpHash: "keccak_size K \<Longrightarrow> wf_hash (rlpHash K x)"
  by (simp add: keccak_size_def rlpHash_def)

text \<open>An instance of the parameters for examples: a hash that keeps the last 32 bytes, padded, and
  signatures that always verify.\<close>

definition example_crypto :: crypto where
  "example_crypto =
    \<lparr>Keccak256 = (\<lambda>b. take 32 (rev b @ replicate 32 7)), ec_Sign = (\<lambda>key h. Inr (replicate 65 1)),
     ec_SigToAddress = (\<lambda>h sig. Inr (replicate 20 9)), tbls_Sign = (\<lambda>key data. Inr [5]),
     tbls_Recover = (\<lambda>pub data shares t n. Inr [6]), bls_Verify = (\<lambda>pub data sig. None),
     DeriveSha = (\<lambda>txs. replicate 32 3), tx_decodable = (\<lambda>tx. True)\<rparr>"

lemma example_keccak_size: "keccak_size example_crypto"
  by (auto simp: keccak_size_def example_crypto_def wf_hash_def HashLength_def)

end
