(* ===== verification/Core_Types.thy ===== *)
theory Core_Types
  imports Hotstuff_Error
begin

text \<open>
  Headers and blocks of \<open>core/types/block.go\<close>, the extra-data of the three BFT engines
  (\<open>core/types/hotstuff_extra.go\<close>, \<open>core/types/istanbul.go\<close>) and the header hash, which
  dispatches on the mix digest and hashes a header whose extra-data has been filtered.

  The hash of a HotStuff header ignores the proposer's seal, the embedded quorum
  certificate and the salt: the lemmas below show that sealing a block keeps its hash,
  which is what lets the engine exchange the locked block for the sealed one.
\<close>

section \<open>Headers\<close>

record Header =
  ParentHash :: hash
  UncleHash :: hash
  Coinbase :: address
  Root :: hash
  TxHash :: hash
  ReceiptHash :: hash
  Bloom :: bytes
  Difficulty :: int
  Number :: int
  GasLimit :: u64
  GasUsed :: u64
  Time :: u64
  Extra :: bytes
  MixDigest :: hash
  Nonce :: bytes

definition header_item :: "Header \<Rightarrow> item" where
  "header_item h = Lst
    [Str (ParentHash h), Str (UncleHash h), Str (Coinbase h), Str (Root h), Str (TxHash h),
     Str (ReceiptHash h), Str (Bloom h), Big (Difficulty h), Big (Number h), UInt (GasLimit h),
     UInt (GasUsed h), UInt (Time h), Str (Extra h), Str (MixDigest h), Str (Nonce h)]"

definition decodeHeader :: "Header sm" where
  "decodeHeader = decodeStruct (
     fld (decodeByteArray 32) (\<lambda>parentHash. fld (decodeByteArray 32) (\<lambda>uncleHash.
     fld (decodeByteArray 20) (\<lambda>coinbase. fld (decodeByteArray 32) (\<lambda>root.
     fld (decodeByteArray 32) (\<lambda>txHash. fld (decodeByteArray 32) (\<lambda>receiptHash.
     fld (decodeByteArray 256) (\<lambda>bloom. fld decodeBigInt (\<lambda>difficulty.
     fld decodeBigInt (\<lambda>number. fld decodeUint64 (\<lambda>gasLimit.
     fld decodeUint64 (\<lambda>gasUsed. fld decodeUint64 (\<lambda>time.
     fld decodeByteSlice (\<lambda>extra. fld (decodeByteArray 32) (\<lambda>mixDigest.
     fld (decodeByteArray 8) (\<lambda>nonce.
       sret \<lparr>ParentHash = parentHash, UncleHash = uncleHash, Coinbase = coinbase, Root = root,
         TxHash = txHash, ReceiptHash = receiptHash, Bloom = bloom, Difficulty = difficulty,
         Number = number, GasLimit = gasLimit, GasUsed = gasUsed, Time = time, Extra = extra,
         MixDigest = mixDigest, Nonce = nonce\<rparr>))))))))))))))))"

text \<open>\<open>CopyHeader\<close> replaces nil integers by zero and copies the rest; the model's integers are
  never nil, so it is the identity on values.\<close>

definition CopyHeader :: "Header \<Rightarrow> Header" where
  "CopyHeader h = h"

definition big_IsUint64 :: "int \<Rightarrow> bool" where
  "big_IsUint64 x \<longleftrightarrow> 0 \<le> x \<and> x < 2 ^ 64"

definition header_SanityCheck :: "Header \<Rightarrow> err option" where
  "header_SanityCheck h =
    (if \<not> big_IsUint64 (Number h) then Some (Errorf ''too large block number'')
     else if big_BitLen (nat \<bar>Difficulty h\<bar>) > 80 then Some (Errorf ''too large block difficulty'')
     else if length (Extra h) > 100 * 1024 then Some (Errorf ''too large block extradata'')
     else None)"

section \<open>Blocks\<close>

text \<open>A transaction is represented by its RLP encoding.\<close>

record Block =
  header :: Header
  uncles :: "Header list"
  transactions :: "bytes list"

definition block_item :: "Block \<Rightarrow> item" where
  "block_item b = Lst
    [header_item (header b), Lst (map Raw (transactions b)), Lst (map header_item (uncles b))]"

definition decodeTx :: "crypto \<Rightarrow> bytes sm" where
  "decodeTx K = sbind stream_Kind (\<lambda>(kind, _).
     if kind = KByte then sfail ErrExpectedList
     else sbind stream_Raw (\<lambda>raw. if tx_decodable K raw then sret raw else sfail ErrTransaction))"

definition decodeBlock :: "crypto \<Rightarrow> Block sm" where
  "decodeBlock K s =
    (let (_, s) = stream_Kind s in
     decodeStruct (
       fld decodeHeader (\<lambda>h. fld (decodeListSlice (decodeTx K)) (\<lambda>txs.
       fld (decodeListSlice decodeHeader) (\<lambda>us.
         sret \<lparr>header = h, uncles = us, transactions = txs\<rparr>)))) s)"

definition block_Header :: "Block \<Rightarrow> Header" where
  "block_Header b = CopyHeader (header b)"

definition block_Number :: "Block \<Rightarrow> int" where
  "block_Number b = Number (header b)"

definition NumberU64 :: "Block \<Rightarrow> u64" where
  "NumberU64 b = big_Uint64 (Number (header b))"

definition EmptyUncleHash :: "crypto \<Rightarrow> hash" where
  "EmptyUncleHash K = rlpHash K (Lst [])"

definition CalcUncleHash :: "crypto \<Rightarrow> Header list \<Rightarrow> hash" where
  "CalcUncleHash K us =
    (if length us = 0 then EmptyUncleHash K else rlpHash K (Lst (map header_item us)))"

definition WithSeal :: "Block \<Rightarrow> Header \<Rightarrow> Block" where
  "WithSeal b h = \<lparr>header = h, uncles = uncles b, transactions = transactions b\<rparr>"

section \<open>HotStuff extra-data\<close>

definition HotstuffDigest :: hash where
  "HotstuffDigest = replicate 32 0xFF"

definition HotstuffExtraVanity :: nat where "HotstuffExtraVanity = 32"
definition HotstuffExtraSeal :: nat where "HotstuffExtraSeal = 65"

record HotstuffExtra =
  Validators :: "address list"
  EncodedQC :: bytes
  Seal :: bytes
  Salt :: bytes

definition extra_item :: "HotstuffExtra \<Rightarrow> item" where
  "extra_item ist = Lst
    [Lst (map Str (Validators ist)), Str (EncodedQC ist), Str (Seal ist), Str (Salt ist)]"

definition decodeExtra :: "HotstuffExtra sm" where
  "decodeExtra = decodeStruct (
     fld (decodeListSlice (decodeByteArray 20)) (\<lambda>validators.
     fld decodeByteSlice (\<lambda>encodedQC. fld decodeByteSlice (\<lambda>seal. fld decodeByteSlice (\<lambda>salt.
       sret \<lparr>Validators = validators, EncodedQC = encodedQC, Seal = seal, Salt = salt\<rparr>)))))"

definition ExtractHotstuffExtraPayload :: "bytes \<Rightarrow> err + HotstuffExtra" where
  "ExtractHotstuffExtraPayload extra =
    (if length extra < HotstuffExtraVanity then Inl ErrInvalidHotstuffHeaderExtra
     else case DecodeBytes decodeExtra (drop HotstuffExtraVanity extra) of
            Inl e \<Rightarrow> Inl (ErrRlp e)
          | Inr x \<Rightarrow> Inr x)"

definition ExtractHotstuffExtra :: "Header \<Rightarrow> err + HotstuffExtra" where
  "ExtractHotstuffExtra h = ExtractHotstuffExtraPayload (Extra h)"

definition SetEncodedQC :: "bytes \<Rightarrow> Header \<Rightarrow> err + Header" where
  "SetEncodedQC encodedQC h =
    (case ExtractHotstuffExtra h of
       Inl e \<Rightarrow> Inl e
     | Inr extra \<Rightarrow>
         (case EncodeToBytes (extra_item (extra\<lparr>EncodedQC := encodedQC\<rparr>)) of
            None \<Rightarrow> Inl ErrEncode
          | Some payload \<Rightarrow> Inr (h\<lparr>Extra := take HotstuffExtraVanity (Extra h) @ payload\<rparr>)))"

definition SetSeal :: "bytes \<Rightarrow> Header \<Rightarrow> err + Header" where
  "SetSeal seal h =
    (case ExtractHotstuffExtra h of
       Inl e \<Rightarrow> Inl e
     | Inr extra \<Rightarrow>
         (case EncodeToBytes (extra_item (extra\<lparr>Seal := seal\<rparr>)) of
            None \<Rightarrow> Inl ErrEncode
          | Some payload \<Rightarrow> Inr (h\<lparr>Extra := take HotstuffExtraVanity (Extra h) @ payload\<rparr>)))"

definition HotstuffFilteredHeader :: "Header \<Rightarrow> bool \<Rightarrow> Header option" where
  "HotstuffFilteredHeader h keepSeal =
    (let newHeader = CopyHeader h in
     case ExtractHotstuffExtra newHeader of
       Inl e \<Rightarrow> None
     | Inr extra \<Rightarrow>
         let extra = (if \<not> keepSeal then extra\<lparr>Seal := []\<rparr> else extra);
             extra = extra\<lparr>EncodedQC := [], Salt := []\<rparr>
         in case EncodeToBytes (extra_item extra) of
              None \<Rightarrow> None
            | Some payload \<Rightarrow>
                Some (newHeader\<lparr>Extra := take HotstuffExtraVanity (Extra newHeader) @ payload\<rparr>))"

definition HotstuffHeaderFillWithValidators :: "Header \<Rightarrow> address list \<Rightarrow> err + Header" where
  "HotstuffHeaderFillWithValidators h vals =
    (let vanity = (if length (Extra h) < HotstuffExtraVanity
                   then Extra h @ replicate (HotstuffExtraVanity - length (Extra h)) 0
                   else Extra h)
     in case EncodeToBytes (extra_item \<lparr>Validators = vals, EncodedQC = [], Seal = [], Salt = []\<rparr>) of
          None \<Rightarrow> Inl ErrEncode
        | Some payload \<Rightarrow> Inr (h\<lparr>Extra := take HotstuffExtraVanity vanity @ payload\<rparr>))"

definition GenerateExtraWithSignature :: "address list \<Rightarrow> bytes \<Rightarrow> bytes \<Rightarrow> err + bytes" where
  "GenerateExtraWithSignature vals seal encodedQC =
    (let vanity = replicate HotstuffExtraVanity 0
     in case EncodeToBytes (extra_item
               \<lparr>Validators = vals, EncodedQC = encodedQC, Seal = seal, Salt = []\<rparr>) of
          None \<Rightarrow> Inl ErrEncode
        | Some payload \<Rightarrow> Inr (vanity @ payload))"

section \<open>Istanbul and QBFT extra-data\<close>

definition IstanbulDigest :: hash where
  "IstanbulDigest =
    [0x63, 0x74, 0x69, 0x63, 0x61, 0x6c, 0x20, 0x62, 0x79, 0x7a, 0x61, 0x6e, 0x74, 0x69, 0x6e, 0x65,
     0x20, 0x66, 0x61, 0x75, 0x6c, 0x74, 0x20, 0x74, 0x6f, 0x6c, 0x65, 0x72, 0x61, 0x6e, 0x63, 0x65]"

definition IstanbulExtraVanity :: nat where "IstanbulExtraVanity = 32"

record IstanbulExtra =
  ist_Validators :: "address list"
  ist_Seal :: bytes
  ist_CommittedSeal :: "bytes list"

definition istanbul_item :: "IstanbulExtra \<Rightarrow> item" where
  "istanbul_item ist = Lst
    [Lst (map Str (ist_Validators ist)), Str (ist_Seal ist), Lst (map Str (ist_CommittedSeal ist))]"

definition decodeIstanbulExtra :: "IstanbulExtra sm" where
  "decodeIstanbulExtra = decodeStruct (
     fld (decodeListSlice (decodeByteArray 20)) (\<lambda>validators. fld decodeByteSlice (\<lambda>seal.
     fld (decodeListSlice decodeByteSlice) (\<lambda>committed.
       sret \<lparr>ist_Validators = validators, ist_Seal = seal, ist_CommittedSeal = committed\<rparr>))))"

definition ExtractIstanbulExtra :: "Header \<Rightarrow> err + IstanbulExtra" where
  "ExtractIstanbulExtra h =
    (if length (Extra h) < IstanbulExtraVanity then Inl ErrInvalidIstanbulHeaderExtra
     else case DecodeBytes decodeIstanbulExtra (drop IstanbulExtraVanity (Extra h)) of
            Inl e \<Rightarrow> Inl (ErrRlp e)
          | Inr x \<Rightarrow> Inr x)"

definition IstanbulFilteredHeader :: "Header \<Rightarrow> bool \<Rightarrow> Header option" where
  "IstanbulFilteredHeader h keepSeal =
    (let newHeader = CopyHeader h in
     case ExtractIstanbulExtra newHeader of
       Inl e \<Rightarrow> None
     | Inr extra \<Rightarrow>
         let extra = (if \<not> keepSeal then extra\<lparr>ist_Seal := []\<rparr> else extra);
             extra = extra\<lparr>ist_CommittedSeal := []\<rparr>
         in case EncodeToBytes (istanbul_item extra) of
              None \<Rightarrow> None
            | Some payload \<Rightarrow>
                Some (newHeader\<lparr>Extra := take IstanbulExtraVanity (Extra newHeader) @ payload\<rparr>))"

record ValidatorVote =
  RecipientAddress :: address
  VoteType :: byte

record QBFTExtra =
  VanityData :: bytes
  qbft_Validators :: "address list"
  qbft_Vote :: "ValidatorVote option"
  qbft_Round :: "32 word"
  qbft_CommittedSeal :: "bytes list"

definition validatorVote_item :: "ValidatorVote option \<Rightarrow> item" where
  "validatorVote_item vv =
    (case vv of None \<Rightarrow> Lst [] | Some v \<Rightarrow> Lst [Str (RecipientAddress v), UInt (ucast (VoteType v))])"

definition qbft_item :: "QBFTExtra \<Rightarrow> item" where
  "qbft_item q = Lst
    [Str (VanityData q), Lst (map Str (qbft_Validators q)), validatorVote_item (qbft_Vote q),
     UInt (ucast (qbft_Round q)), Lst (map Str (qbft_CommittedSeal q))]"

definition decodeValidatorVote :: "ValidatorVote sm" where
  "decodeValidatorVote = decodeStruct (
     fld (decodeByteArray 20) (\<lambda>recipient. fld (decodeUint 8) (\<lambda>voteType.
       sret \<lparr>RecipientAddress = recipient, VoteType = of_nat voteType\<rparr>)))"

definition decodeQBFTExtra :: "QBFTExtra sm" where
  "decodeQBFTExtra = decodeStruct (
     fld decodeByteSlice (\<lambda>vanity. fld (decodeListSlice (decodeByteArray 20)) (\<lambda>validators.
     fld (decodeNilPtr KList decodeValidatorVote) (\<lambda>vote. fld (decodeUint 32) (\<lambda>round.
     fld (decodeListSlice decodeByteSlice) (\<lambda>committed.
       sret \<lparr>VanityData = vanity, qbft_Validators = validators, qbft_Vote = vote,
         qbft_Round = of_nat round, qbft_CommittedSeal = committed\<rparr>))))))"

definition ExtractQBFTExtra :: "Header \<Rightarrow> err + QBFTExtra" where
  "ExtractQBFTExtra h =
    (case DecodeBytes decodeQBFTExtra (Extra h) of Inl e \<Rightarrow> Inl (ErrRlp e) | Inr x \<Rightarrow> Inr x)"

definition QBFTFilteredHeaderWithRound :: "Header \<Rightarrow> 32 word \<Rightarrow> Header option" where
  "QBFTFilteredHeaderWithRound h round =
    (let newHeader = CopyHeader h in
     case ExtractQBFTExtra newHeader of
       Inl e \<Rightarrow> None
     | Inr extra \<Rightarrow>
         case EncodeToBytes (qbft_item (extra\<lparr>qbft_CommittedSeal := [], qbft_Round := round\<rparr>)) of
           None \<Rightarrow> None
         | Some payload \<Rightarrow> Some (newHeader\<lparr>Extra := payload\<rparr>))"

definition QBFTFilteredHeader :: "Header \<Rightarrow> Header option" where
  "QBFTFilteredHeader h = QBFTFilteredHeaderWithRound h 0"

definition FilteredHeader :: "Header \<Rightarrow> Header option" where
  "FilteredHeader h =
    (case ExtractIstanbulExtra h of
       Inl e \<Rightarrow> QBFTFilteredHeader h
     | Inr _ \<Rightarrow> IstanbulFilteredHeader h True)"

section \<open>Hashes\<close>

definition header_Hash :: "crypto \<Rightarrow> Header \<Rightarrow> hash" where
  "header_Hash K h =
    (let filtered =
       (if MixDigest h = IstanbulDigest then FilteredHeader h
        else if MixDigest h = HotstuffDigest then HotstuffFilteredHeader h False
        else None)
     in case filtered of
          Some h' \<Rightarrow> rlpHash K (header_item h')
        | None \<Rightarrow> rlpHash K (header_item h))"

definition block_Hash :: "crypto \<Rightarrow> Block \<Rightarrow> hash" where
  "block_Hash K b = header_Hash K (header b)"

section \<open>Codecs\<close>

definition wf_header :: "Header \<Rightarrow> bool" where
  "wf_header h \<longleftrightarrow> wf_hash (ParentHash h) \<and> wf_hash (UncleHash h) \<and> wf_address (Coinbase h)
     \<and> wf_hash (Root h) \<and> wf_hash (TxHash h) \<and> wf_hash (ReceiptHash h) \<and> length (Bloom h) = 256
     \<and> 0 \<le> Difficulty h \<and> 0 \<le> Number h \<and> wf_hash (MixDigest h) \<and> length (Nonce h) = 8"

definition wf_extra :: "HotstuffExtra \<Rightarrow> bool" where
  "wf_extra x \<longleftrightarrow> list_all wf_address (Validators x)"

lemmas wf_lengths = wf_hash_def wf_address_def HashLength_def AddressLength_def

lemma reads_header:
  "wf_header h \<Longrightarrow> length (enc (header_item h)) < 2 ^ 64 \<Longrightarrow> reads decodeHeader (enc (header_item h)) h"
  unfolding header_item_def decodeHeader_def wf_header_def wf_lengths
  by (rule reads_intro | simp)+

lemma encodable_header: "wf_header h \<Longrightarrow> encodable (header_item h)"
  by (simp add: header_item_def wf_header_def)

interpretation header: rlp_codec wf_header header_item decodeHeader
  by unfold_locales (rule reads_header encodable_header, assumption+)+

lemma reads_extra:
  "wf_extra x \<Longrightarrow> length (enc (extra_item x)) < 2 ^ 64 \<Longrightarrow> reads decodeExtra (enc (extra_item x)) x"
  unfolding extra_item_def decodeExtra_def wf_extra_def wf_lengths list_all_iff
  by (rule reads_intro | simp)+

interpretation extra: rlp_codec wf_extra extra_item decodeExtra
  by unfold_locales (rule reads_extra, assumption+, simp add: extra_item_def list_all_iff)

lemma yields_extra: "yields decodeExtra wf_extra"
  unfolding decodeExtra_def wf_extra_def wf_lengths
  by (rule yields_decodeStruct, rule yields_fld [OF yields_decodeListSlice],
      rule yields_decodeByteArray, (rule yields_fld [OF yields_True])+, rule yields_sret, simp)

definition wf_tx :: "crypto \<Rightarrow> bytes \<Rightarrow> bool" where
  "wf_tx K raw \<longleftrightarrow> tx_decodable K raw \<and>
    ((\<exists>xs. raw = enc (Lst xs)) \<or> (\<exists>b. raw = enc_str b \<and> \<not> (length b = 1 \<and> hd b < 128)))"

definition wf_block :: "crypto \<Rightarrow> Block \<Rightarrow> bool" where
  "wf_block K b \<longleftrightarrow> wf_header (header b) \<and> list_all wf_header (uncles b)
     \<and> list_all (wf_tx K) (transactions b)"

lemma stream_Raw_after_Kind: "stream_Raw (snd (stream_Kind s)) = stream_Raw s"
  by (simp add: stream_Raw_def sbind_def stream_Kind_idem)

lemma decodeStruct_after_Kind: "decodeStruct m (snd (stream_Kind s)) = decodeStruct m s"
  by (simp add: decodeStruct_def stream_List_def sbind_def smap_err_def stream_Kind_idem)

lemma wf_tx_kind:
  assumes "wf_tx K raw" "length raw < 2 ^ 64"
    and "pos_at s (raw @ rest) st" "room (length raw) st"
  shows "\<exists>k n s'. stream_Kind s = (Inr (k, n), s') \<and> k \<noteq> KByte"
  using assms(1) unfolding wf_tx_def
proof (elim conjE disjE exE)
  fix xs assume raw: "raw = enc (Lst xs)"
  with assms show ?thesis
    using stream_Kind_head [of s "0xC0" "0xF7" "length (encs xs)" "encs xs @ rest" st KList]
    by (auto simp: length_enc_head)
next
  fix b assume raw: "raw = enc_str b" and b: "\<not> (length b = 1 \<and> hd b < 128)"
  then have e: "enc_str b = enc_head 0x80 0xB7 (length b) @ b"
    by (cases rule: enc_Str_cases [of b]) auto
  with assms raw show ?thesis
    using stream_Kind_head [of s "0x80" "0xB7" "length b" "b @ rest" st KString]
    by (auto simp: length_enc_head)
qed

lemma reads_tx:
  assumes "wf_tx K raw" "length raw < 2 ^ 64"
  shows "reads (decodeTx K) raw raw"
proof (rule readsI)
  fix s rest st
  assume a: "pos_at s (raw @ rest) st" "room (length raw) st"
  obtain k n s' where s': "stream_Kind s = (Inr (k, n), s')" "k \<noteq> KByte"
    using wf_tx_kind [OF assms a] by blast
  have "reads stream_Raw raw raw"
    using assms unfolding wf_tx_def
  proof (elim conjE disjE exE)
    fix b assume "raw = enc_str b"
    then show ?thesis
      using assms(2) le_less_trans [OF length_enc_str_bound] by (simp add: reads_stream_Raw_Str)
  qed (use assms(2) in \<open>simp add: reads_stream_Raw_Lst [simplified]\<close>)
  then obtain s'' where "stream_Raw s = (Inr raw, s'')" "pos_at s'' rest (bump (length raw) st)"
    using a by (rule readsD)
  moreover have "stream_Raw s' = stream_Raw s" using stream_Raw_after_Kind [of s] s' by simp
  ultimately show "\<exists>s'. decodeTx K s = (Inr raw, s') \<and> pos_at s' rest (bump (length raw) st)"
    using s' assms(1) by (auto simp: decodeTx_def sbind_def sret_def wf_tx_def)
qed

lemma stops_decodeTx: "stops (decodeTx K)" "stops decodeHeader"
  by (simp_all add: decodeTx_def decodeHeader_def stops_sbind stops_Kind)

lemma enc_head_ne [simp]: "enc_head a b n \<noteq> []"
  by (simp add: enc_head_def)

lemma reads_block:
  assumes "wf_block K b" "length (enc (block_item b)) < 2 ^ 64"
  shows "reads (decodeBlock K) (enc (block_item b)) b"
proof -
  have wf: "wf_header (header b)" "\<forall>h \<in> set (uncles b). wf_header h"
      "\<forall>r \<in> set (transactions b). wf_tx K r"
    using assms(1) by (simp_all add: wf_block_def list_all_iff)
  have len: "length (enc (header_item (header b))) < 2 ^ 64"
      "length (enc (Lst (map Raw (transactions b)))) < 2 ^ 64"
      "length (enc (Lst (map header_item (uncles b)))) < 2 ^ 64"
    using assms(2) by (simp_all add: block_item_def)
  have tx: "reads (decodeTx K) (enc (Raw r)) r" "enc (Raw r) \<noteq> []"
    if "r \<in> set (transactions b)" for r
  proof -
    have "length r < 2 ^ 64"
      using length_enc_in [of "Raw r" "map Raw (transactions b)"] that len(2) by auto
    with that wf(3) show "reads (decodeTx K) (enc (Raw r)) r" by (simp add: reads_tx)
    from that wf(3) show "enc (Raw r) \<noteq> []" by (auto simp: wf_tx_def)
  qed
  have un: "reads decodeHeader (enc (header_item h)) h" "enc (header_item h) \<noteq> []"
    if "h \<in> set (uncles b)" for h
  proof -
    have "length (enc (header_item h)) < 2 ^ 64"
      using length_enc_in [of "header_item h" "map header_item (uncles b)"] that len(3) by auto
    with that wf(2) show "reads decodeHeader (enc (header_item h)) h" by (intro reads_header) auto
  qed (simp add: header_item_def)
  have "reads (decodeStruct (
       fld decodeHeader (\<lambda>h. fld (decodeListSlice (decodeTx K)) (\<lambda>txs.
       fld (decodeListSlice decodeHeader) (\<lambda>us.
         sret \<lparr>header = h, uncles = us, transactions = txs\<rparr>))))) (enc (block_item b)) b"
    unfolding block_item_def
    by (rule reads_struct reads_field reads_slice reads_done stops_decodeTx tx un len
        reads_header [OF wf(1) len(1)] assms(2) [unfolded block_item_def] | assumption | simp)+
  then show ?thesis
    by (auto simp: decodeBlock_def reads_def decodeStruct_after_Kind split_beta)
qed

lemma encodable_block: "wf_block K b \<Longrightarrow> encodable (block_item b)"
  by (auto simp: wf_block_def block_item_def list_all_iff encodable_header)

interpretation block: rlp_codec "wf_block K" block_item "decodeBlock K" for K
  by unfold_locales (rule reads_block encodable_block, assumption+)+

lemma yields_header: "yields decodeHeader wf_header"
  unfolding decodeHeader_def
  by (rule yields_decodeStruct)
    (rule yields_fld [OF yields_decodeByteArray] yields_fld [OF yields_decodeBigInt]
      yields_fld [OF yields_True] yields_sret | simp add: wf_header_def wf_lengths)+

section \<open>The hash of a HotStuff header ignores its seals\<close>

lemma Extract_wf: "ExtractHotstuffExtra h = Inr x \<Longrightarrow> wf_extra x"
  by (auto simp: ExtractHotstuffExtra_def ExtractHotstuffExtraPayload_def
      intro: DecodeBytes_yields yields_extra split: if_splits sum.splits)

lemma Extract_vanity: "ExtractHotstuffExtra h = Inr x \<Longrightarrow> HotstuffExtraVanity \<le> length (Extra h)"
  by (simp add: ExtractHotstuffExtra_def ExtractHotstuffExtraPayload_def split: if_splits)

lemma Extract_payload:
  assumes "wf_extra x" "length (enc (extra_item x)) < 2 ^ 64" "length v = HotstuffExtraVanity"
  shows "ExtractHotstuffExtraPayload (v @ enc (extra_item x)) = Inr x"
  using extra.decode_enc [OF assms(1,2)] assms(3)
  by (simp add: ExtractHotstuffExtraPayload_def del: enc.simps)

text \<open>\<open>reseals h h'\<close>: \<open>h'\<close> is \<open>h\<close> with another quorum certificate and another seal.\<close>

definition reseals :: "Header \<Rightarrow> Header \<Rightarrow> bool" where
  "reseals h h' \<longleftrightarrow> (\<exists>x q sl. ExtractHotstuffExtra h = Inr x
     \<and> ExtractHotstuffExtra h' = Inr (x\<lparr>EncodedQC := q, Seal := sl\<rparr>)
     \<and> h' = h\<lparr>Extra := Extra h'\<rparr>
     \<and> take HotstuffExtraVanity (Extra h') = take HotstuffExtraVanity (Extra h))"

lemma SetEncodedQC_result:
  assumes "SetEncodedQC q h = Inr h'" "ExtractHotstuffExtra h = Inr x"
    and "length (enc (extra_item (x\<lparr>EncodedQC := q\<rparr>))) < 2 ^ 64"
  shows "ExtractHotstuffExtra h' = Inr (x\<lparr>EncodedQC := q\<rparr>)" "reseals h h'"
proof -
  have wf: "wf_extra (x\<lparr>EncodedQC := q\<rparr>)" using Extract_wf [OF assms(2)] by (simp add: wf_extra_def)
  have h': "h' = h\<lparr>Extra := take HotstuffExtraVanity (Extra h) @ enc (extra_item (x\<lparr>EncodedQC := q\<rparr>))\<rparr>"
    using assms extra.encode_ok [OF wf assms(3)] by (simp add: SetEncodedQC_def)
  then show e: "ExtractHotstuffExtra h' = Inr (x\<lparr>EncodedQC := q\<rparr>)"
    using Extract_payload [OF wf assms(3)] Extract_vanity [OF assms(2)]
    by (simp add: ExtractHotstuffExtra_def)
  show "reseals h h'"
    unfolding reseals_def
    by (rule exI [of _ x], rule exI [of _ q], rule exI [of _ "Seal x"])
      (use e h' assms(2) Extract_vanity [OF assms(2)] in simp)
qed

lemma SetSeal_result:
  assumes "SetSeal sl h = Inr h'" "ExtractHotstuffExtra h = Inr x"
    and "length (enc (extra_item (x\<lparr>Seal := sl\<rparr>))) < 2 ^ 64"
  shows "ExtractHotstuffExtra h' = Inr (x\<lparr>Seal := sl\<rparr>)" "reseals h h'"
proof -
  have wf: "wf_extra (x\<lparr>Seal := sl\<rparr>)" using Extract_wf [OF assms(2)] by (simp add: wf_extra_def)
  have h': "h' = h\<lparr>Extra := take HotstuffExtraVanity (Extra h) @ enc (extra_item (x\<lparr>Seal := sl\<rparr>))\<rparr>"
    using assms extra.encode_ok [OF wf assms(3)] by (simp add: SetSeal_def)
  then show e: "ExtractHotstuffExtra h' = Inr (x\<lparr>Seal := sl\<rparr>)"
    using Extract_payload [OF wf assms(3)] Extract_vanity [OF assms(2)]
    by (simp add: ExtractHotstuffExtra_def)
  show "reseals h h'"
    unfolding reseals_def
    by (rule exI [of _ x], rule exI [of _ "EncodedQC x"], rule exI [of _ sl])
      (use e h' assms(2) Extract_vanity [OF assms(2)] in simp)
qed

lemma reseals_filtered:
  assumes "reseals h h'"
  shows "HotstuffFilteredHeader h' False = HotstuffFilteredHeader h False"
proof -
  obtain x q sl where r: "ExtractHotstuffExtra h = Inr x"
      "ExtractHotstuffExtra h' = Inr (x\<lparr>EncodedQC := q, Seal := sl\<rparr>)"
      "h' = h\<lparr>Extra := Extra h'\<rparr>"
      "take HotstuffExtraVanity (Extra h') = take HotstuffExtraVanity (Extra h)"
    using assms by (auto simp: reseals_def)
  have "h'\<lparr>Extra := e\<rparr> = h\<lparr>Extra := e\<rparr>" for e by (subst r(3)) simp
  with r show ?thesis
    by (auto simp: HotstuffFilteredHeader_def CopyHeader_def Let_def split: option.split)
qed

lemma digests_differ [simp]: "HotstuffDigest \<noteq> IstanbulDigest"
proof -
  have "hd HotstuffDigest \<noteq> hd IstanbulDigest"
    by (simp add: HotstuffDigest_def IstanbulDigest_def hd_replicate)
  then show ?thesis by auto
qed

lemma HotstuffFilteredHeader_None:
  "HotstuffFilteredHeader h keep = None \<longleftrightarrow> (\<exists>e. ExtractHotstuffExtra h = Inl e)"
  by (auto simp: HotstuffFilteredHeader_def CopyHeader_def Let_def EncodeToBytes_None_iff
      extra_item_def list_all_iff split: sum.splits option.splits)

lemma reseals_MixDigest: "reseals h h' \<Longrightarrow> MixDigest h' = MixDigest h"
  unfolding reseals_def by (metis Header.ext_inject Header.surjective Header.update_convs(13))

lemma reseals_Hash:
  assumes "reseals h h'" "MixDigest h = HotstuffDigest"
  shows "header_Hash K h' = header_Hash K h"
proof -
  have "HotstuffFilteredHeader h False \<noteq> None"
    using assms(1) by (auto simp: HotstuffFilteredHeader_None reseals_def)
  then show ?thesis
    using reseals_filtered [OF assms(1)] reseals_MixDigest [OF assms(1)] assms(2)
    by (auto simp: header_Hash_def Let_def)
qed

section \<open>Properties\<close>

text \<open>C24. A block that is written is read back unchanged, header, transactions and uncles.\<close>

theorem block_roundtrip:
  assumes "wf_block K b" "EncodeToBytes (block_item b) = Some bs" "length bs < 2 ^ 64"
  shows "DecodeBytes (decodeBlock K) bs = Inr b"
  by (rule block.decode_encode [OF assms])

text \<open>Examples: a genesis block and its child, proposed by the one validator of a committee.\<close>

definition example_validator :: address where
  "example_validator = replicate 20 9"

definition genesis_header :: Header where
  "genesis_header =
    \<lparr>ParentHash = EmptyHash, UncleHash = CalcUncleHash example_crypto [], Coinbase = example_validator,
     Root = EmptyHash, TxHash = replicate 32 3, ReceiptHash = EmptyHash, Bloom = replicate 256 0,
     Difficulty = 1, Number = 0, GasLimit = 0, GasUsed = 0, Time = 0,
     Extra = replicate 32 0 @ enc (extra_item
       \<lparr>Validators = [example_validator], EncodedQC = [], Seal = replicate 65 1, Salt = []\<rparr>),
     MixDigest = HotstuffDigest, Nonce = replicate 8 1\<rparr>"

definition genesis_block :: Block where
  "genesis_block = \<lparr>header = genesis_header, uncles = [], transactions = []\<rparr>"

definition next_header :: Header where
  "next_header = genesis_header\<lparr>ParentHash := block_Hash example_crypto genesis_block, Number := 1,
     Time := 5, Nonce := replicate 8 2\<rparr>"

definition next_block :: Block where
  "next_block = genesis_block\<lparr>header := next_header\<rparr>"

lemma wf_example_headers: "wf_header genesis_header" "wf_header next_header"
  using wf_rlpHash [OF example_keccak_size]
  by (simp_all add: wf_header_def next_header_def genesis_header_def CalcUncleHash_def EmptyUncleHash_def block_Hash_def
      header_Hash_def Let_def HotstuffDigest_def example_validator_def wf_lengths EmptyHash_def
      split: option.split)

theorem block_roundtrip_witness:
  "\<exists>bs. EncodeToBytes (block_item next_block) = Some bs \<and>
     DecodeBytes (decodeBlock example_crypto) bs = Inr next_block"
proof -
  have w: "wf_block example_crypto next_block"
    by (simp add: wf_block_def next_block_def genesis_block_def wf_example_headers)
  have "length (enc (block_item next_block)) < 1000" by code_simp
  then have l: "length (enc (block_item next_block)) < 2 ^ 64" by (rule less_trans) simp
  have e: "EncodeToBytes (block_item next_block) = Some (enc (block_item next_block))"
    by (rule EncodeToBytes_rule [OF encodable_block [OF w] l])
  from block_roundtrip [OF w e l] e show ?thesis by blast
qed

end
