(* ===== verification/Hotstuff_Types.thy ===== *)
theory Hotstuff_Types
  imports Core_Types
begin

text \<open>
  The data the replicas exchange, \<open>consensus/hotstuff/types.go\<close>: views and their order,
  the proposed block (HotStuff's tree node), quorum certificates, votes, the signed message
  envelope, and the RLP codec of each of them. Every codec interprets \<open>rlp_codec\<close>, so
  decoding what was encoded gives it back and two values with one encoding are equal; the
  second is what makes a signature over the bytes of a vote a signature of that vote.

  The cached hash of a \<open>ProposedBlock\<close> is computed on demand: it is a function of the parent
  and the hash of the block, and the only place that replaces the block of an existing
  node, \<open>SetSealedBlock\<close>, first checks that the hash of the block stays the same.
\<close>

section \<open>Message types and states\<close>

type_synonym MsgType = u64

abbreviation MsgTypeUnknown :: MsgType where "MsgTypeUnknown \<equiv> 0"
abbreviation MsgTypeNewView :: MsgType where "MsgTypeNewView \<equiv> 1"
abbreviation MsgTypePrepare :: MsgType where "MsgTypePrepare \<equiv> 2"
abbreviation MsgTypePrepareVote :: MsgType where "MsgTypePrepareVote \<equiv> 3"
abbreviation MsgTypePreCommit :: MsgType where "MsgTypePreCommit \<equiv> 4"
abbreviation MsgTypePreCommitVote :: MsgType where "MsgTypePreCommitVote \<equiv> 5"
abbreviation MsgTypeCommit :: MsgType where "MsgTypeCommit \<equiv> 6"
abbreviation MsgTypeCommitVote :: MsgType where "MsgTypeCommitVote \<equiv> 7"
abbreviation MsgTypeDecide :: MsgType where "MsgTypeDecide \<equiv> 8"

definition MsgType_String :: "MsgType \<Rightarrow> string" where
  "MsgType_String m =
    (if m = MsgTypeNewView then ''NewView''
     else if m = MsgTypePrepare then ''Prepare''
     else if m = MsgTypePrepareVote then ''PrepareVote''
     else if m = MsgTypePreCommit then ''PreCommit''
     else if m = MsgTypePreCommitVote then ''PreCommitVote''
     else if m = MsgTypeCommit then ''Commit''
     else if m = MsgTypeCommitVote then ''CommitVote''
     else if m = MsgTypeDecide then ''Decide''
     else ''Unknown'')"

datatype State =
  StateAcceptRequest | StateHighQC | StatePrepared | StatePreCommitted | StateCommitted

fun State_uint64 :: "State \<Rightarrow> u64" where
  "State_uint64 StateAcceptRequest = 1"
| "State_uint64 StateHighQC = 2"
| "State_uint64 StatePrepared = 3"
| "State_uint64 StatePreCommitted = 4"
| "State_uint64 StateCommitted = 5"

fun State_String :: "State \<Rightarrow> string" where
  "State_String StateAcceptRequest = ''StateAcceptRequest''"
| "State_String StateHighQC = ''StateHighQC''"
| "State_String StatePrepared = ''StatePrepared''"
| "State_String StatePreCommitted = ''StatePreCommitted''"
| "State_String StateCommitted = ''Committed''"

lemma State_uint64_inj: "State_uint64 s = State_uint64 t \<Longrightarrow> s = t"
  by (cases s; cases t) simp_all

instantiation State :: linorder
begin

definition less_eq_State :: "State \<Rightarrow> State \<Rightarrow> bool" where
  "less_eq_State s t \<longleftrightarrow> State_uint64 s \<le> State_uint64 t"

definition less_State :: "State \<Rightarrow> State \<Rightarrow> bool" where
  "less_State s t \<longleftrightarrow> State_uint64 s < State_uint64 t"

instance
  by standard (auto simp: less_eq_State_def less_State_def intro: State_uint64_inj)

end

lemma State_less_simps [simp]:
  "\<not> s < StateAcceptRequest"
  "s < StateHighQC \<longleftrightarrow> s = StateAcceptRequest"
  "s < StatePrepared \<longleftrightarrow> s = StateAcceptRequest \<or> s = StateHighQC"
  "s < StatePreCommitted \<longleftrightarrow> s \<noteq> StatePreCommitted \<and> s \<noteq> StateCommitted"
  "s < StateCommitted \<longleftrightarrow> s \<noteq> StateCommitted"
  by (cases s; simp add: less_State_def)+

definition State_Cmp :: "State \<Rightarrow> State \<Rightarrow> int" where
  "State_Cmp s y =
    (if State_uint64 s < State_uint64 y then -1
     else if State_uint64 s > State_uint64 y then 1 else 0)"

section \<open>Views\<close>

record View =
  Round :: int
  Height :: int

definition HeightU64 :: "View \<Rightarrow> u64" where "HeightU64 v = big_Uint64 (Height v)"
definition RoundU64 :: "View \<Rightarrow> u64" where "RoundU64 v = big_Uint64 (Round v)"

definition view_item :: "View \<Rightarrow> item" where
  "view_item v = Lst [Big (Round v), Big (Height v)]"

definition decodeView :: "View sm" where
  "decodeView = decodeStruct (
     fld decodeBigInt (\<lambda>round. fld decodeBigInt (\<lambda>height.
       sret \<lparr>Round = round, Height = height\<rparr>)))"

definition View_Cmp :: "View \<Rightarrow> View \<Rightarrow> int" where
  "View_Cmp v y =
    (if big_Cmp (Height v) (Height y) \<noteq> 0 then big_Cmp (Height v) (Height y)
     else if big_Cmp (Round v) (Round y) \<noteq> 0 then big_Cmp (Round v) (Round y)
     else 0)"

definition View_Sub :: "View \<Rightarrow> View \<Rightarrow> int \<times> int" where
  "View_Sub v y = (big_Int64 (Height v - Height y), big_Int64 (Round v - Round y))"

section \<open>Hashing and encoding\<close>

definition hs_Encode :: "item \<Rightarrow> err + bytes" where
  "hs_Encode x = (case EncodeToBytes x of None \<Rightarrow> Inl ErrEncode | Some b \<Rightarrow> Inr b)"

section \<open>Proposed blocks\<close>

record ProposedBlock =
  Parent :: hash
  pb_Block :: "Block option"

definition NewProposedBlock :: "hash \<Rightarrow> Block \<Rightarrow> ProposedBlock" where
  "NewProposedBlock parent block = \<lparr>Parent = parent, pb_Block = Some block\<rparr>"

definition pb_item :: "ProposedBlock \<Rightarrow> item" where
  "pb_item n = Lst [Str (Parent n), case pb_Block n of None \<Rightarrow> Lst [] | Some b \<Rightarrow> block_item b]"

definition decodePB :: "crypto \<Rightarrow> ProposedBlock sm" where
  "decodePB K = decodeStruct (
     fld (decodeByteArray 32) (\<lambda>parent. fld (decodeBlock K) (\<lambda>block.
       sret \<lparr>Parent = parent, pb_Block = Some block\<rparr>)))"

definition node_hash :: "crypto \<Rightarrow> hash \<Rightarrow> hash \<Rightarrow> hash" where
  "node_hash K parent blockHash = rlpHash K (Lst [Str parent, Str blockHash])"

definition pb_Hash :: "crypto \<Rightarrow> ProposedBlock \<Rightarrow> hash option" where
  "pb_Hash K n =
    (case pb_Block n of None \<Rightarrow> None | Some b \<Rightarrow> Some (node_hash K (Parent n) (block_Hash K b)))"

section \<open>Messages\<close>

record Message =
  mhash :: hash
  mAddress :: address
  mCode :: MsgType
  mView :: View
  mMsg :: bytes
  mSignature :: bytes

definition NewCleanMessage :: "View \<Rightarrow> MsgType \<Rightarrow> bytes \<Rightarrow> Message" where
  "NewCleanMessage view code payload =
    \<lparr>mhash = EmptyHash, mAddress = EmptyAddress, mCode = code, mView = view, mMsg = payload,
     mSignature = []\<rparr>"

definition message_item :: "Message \<Rightarrow> item" where
  "message_item m = Lst
    [UInt (mCode m), view_item (mView m), Str (mMsg m), Str (mAddress m), Str (mSignature m)]"

definition decodeMessage :: "Message sm" where
  "decodeMessage = decodeStruct (
     fld decodeUint64 (\<lambda>code. fld decodeView (\<lambda>view. fld decodeByteSlice (\<lambda>msg.
     fld (decodeByteArray 20) (\<lambda>address. fld decodeByteSlice (\<lambda>signature.
       sret \<lparr>mhash = EmptyHash, mAddress = address, mCode = code, mView = view, mMsg = msg,
         mSignature = signature\<rparr>))))))"

definition Payload :: "Message \<Rightarrow> err + bytes" where
  "Payload m = hs_Encode (message_item m)"

definition PayloadNoSig :: "crypto \<Rightarrow> Message \<Rightarrow> (err + bytes) \<times> Message" where
  "PayloadNoSig K m =
    (case hs_Encode (message_item (NewCleanMessage (mView m) (mCode m) (mMsg m))) of
       Inl e \<Rightarrow> (Inl e, m)
     | Inr data \<Rightarrow> (Inr data, m\<lparr>mhash := Keccak256 K data\<rparr>))"

definition message_Hash :: "crypto \<Rightarrow> Message \<Rightarrow> (err + hash) \<times> Message" where
  "message_Hash K m =
    (if mhash m \<noteq> EmptyHash then (Inr (mhash m), m)
     else case PayloadNoSig K m of
            (Inl e, m) \<Rightarrow> (Inl e, m)
          | (Inr _, m) \<Rightarrow> (Inr (mhash m), m))"

definition FromPayload ::
  "crypto \<Rightarrow> address \<Rightarrow> bytes \<Rightarrow> (hash \<Rightarrow> bytes \<Rightarrow> err + address) option \<Rightarrow> err + Message" where
  "FromPayload K src payload validateFn =
    (case DecodeBytes decodeMessage payload of
       Inl e \<Rightarrow> Inl (ErrRlp e)
     | Inr m \<Rightarrow>
         (case PayloadNoSig K m of
            (Inl e, m) \<Rightarrow> Inl e
          | (Inr _, m) \<Rightarrow>
              (case validateFn of
                 None \<Rightarrow> Inr (m\<lparr>mAddress := src\<rparr>)
               | Some f \<Rightarrow>
                   (case f (mhash m) (mSignature m) of
                      Inl e \<Rightarrow> Inl e
                    | Inr signer \<Rightarrow>
                        if signer \<noteq> src then Inl ErrInvalidSigner
                        else Inr (m\<lparr>mAddress := src\<rparr>)))))"

definition message_Copy :: "Message \<Rightarrow> Message" where
  "message_Copy m = NewCleanMessage
    \<lparr>Round = uint (RoundU64 (mView m)), Height = uint (HeightU64 (mView m))\<rparr> (mCode m) (mMsg m)"

section \<open>Quorum certificates, votes, packaged certificates\<close>

record QuorumCert =
  qView :: View
  qCode :: MsgType
  qProposedBlock :: hash
  qProposer :: address
  qBLSSignature :: bytes

definition qc_item :: "QuorumCert \<Rightarrow> item" where
  "qc_item qc = Lst
    [view_item (qView qc), UInt (qCode qc), Str (qProposedBlock qc), Str (qProposer qc),
     Str (qBLSSignature qc)]"

definition decodeQC :: "QuorumCert sm" where
  "decodeQC = decodeStruct (
     fld decodeView (\<lambda>view. fld decodeUint64 (\<lambda>code. fld (decodeByteArray 32) (\<lambda>node.
     fld (decodeByteArray 20) (\<lambda>proposer. fld decodeByteSlice (\<lambda>sig.
       sret \<lparr>qView = view, qCode = code, qProposedBlock = node, qProposer = proposer,
         qBLSSignature = sig\<rparr>))))))"

definition SealHash :: "crypto \<Rightarrow> QuorumCert \<Rightarrow> hash" where
  "SealHash K qc =
    mhash (snd (PayloadNoSig K (NewCleanMessage (qView qc) (qCode qc) (qProposedBlock qc))))"

definition qc_HeightU64 :: "QuorumCert \<Rightarrow> u64" where
  "qc_HeightU64 qc = big_Uint64 (Height (qView qc))"

definition qc_RoundU64 :: "QuorumCert \<Rightarrow> u64" where
  "qc_RoundU64 qc = big_Uint64 (Round (qView qc))"

definition qc_Copy :: "QuorumCert \<Rightarrow> QuorumCert option" where
  "qc_Copy qc =
    (case EncodeToBytes (qc_item qc) of
       None \<Rightarrow> None
     | Some b \<Rightarrow> (case DecodeBytes decodeQC b of Inl e \<Rightarrow> None | Inr q \<Rightarrow> Some q))"

record Vote =
  vCode :: MsgType
  vView :: View
  vProposedBlock :: hash
  vBLSSignature :: bytes

definition vote_item :: "Vote \<Rightarrow> item" where
  "vote_item v = Lst
    [UInt (vCode v), view_item (vView v), Str (vProposedBlock v), Str (vBLSSignature v)]"

definition decodeVote :: "Vote sm" where
  "decodeVote = decodeStruct (
     fld decodeUint64 (\<lambda>code. fld decodeView (\<lambda>view. fld (decodeByteArray 32) (\<lambda>node.
     fld decodeByteSlice (\<lambda>sig.
       sret \<lparr>vCode = code, vView = view, vProposedBlock = node, vBLSSignature = sig\<rparr>)))))"

definition Unsigned :: "Vote \<Rightarrow> Vote" where
  "Unsigned v = v\<lparr>vBLSSignature := []\<rparr>"

record Diploma =
  CommitQC :: QuorumCert
  BlockHash :: hash

definition diploma_item :: "Diploma \<Rightarrow> item" where
  "diploma_item d = Lst [qc_item (CommitQC d), Str (BlockHash d)]"

definition decodeDiploma :: "Diploma sm" where
  "decodeDiploma = decodeStruct (
     fld decodeQC (\<lambda>qc. fld (decodeByteArray 32) (\<lambda>h.
       sret \<lparr>CommitQC = qc, BlockHash = h\<rparr>)))"

record PackagedQC =
  pk_ProposedBlock :: ProposedBlock
  pk_QC :: QuorumCert

definition packagedQC_item :: "PackagedQC \<Rightarrow> item" where
  "packagedQC_item p = Lst [pb_item (pk_ProposedBlock p), qc_item (pk_QC p)]"

definition decodePackagedQC :: "crypto \<Rightarrow> PackagedQC sm" where
  "decodePackagedQC K = decodeStruct (
     fld (decodePB K) (\<lambda>n. fld decodeQC (\<lambda>qc. sret \<lparr>pk_ProposedBlock = n, pk_QC = qc\<rparr>)))"

record Request =
  req_Block :: Block

section \<open>The order of views\<close>

definition view_less :: "View \<Rightarrow> View \<Rightarrow> bool" where
  "view_less v y \<longleftrightarrow> Height v < Height y \<or> (Height v = Height y \<and> Round v < Round y)"

lemma View_Cmp_simps [simp]:
  "View_Cmp v y = 0 \<longleftrightarrow> v = y"
  "View_Cmp v y < 0 \<longleftrightarrow> view_less v y"
  "View_Cmp v y > 0 \<longleftrightarrow> view_less y v"
  by (auto simp: View_Cmp_def view_less_def big_Cmp_def)

lemma view_less_irrefl [simp]: "\<not> view_less v v"
  by (simp add: view_less_def)

lemma view_less_trans: "view_less u v \<Longrightarrow> view_less v w \<Longrightarrow> view_less u w"
  by (auto simp: view_less_def)

lemma view_less_linear: "view_less u v \<or> u = v \<or> view_less v u"
  by (cases u; cases v) (auto simp: view_less_def)

section \<open>Codecs\<close>

definition wf_view :: "View \<Rightarrow> bool" where
  "wf_view v \<longleftrightarrow> 0 \<le> Round v \<and> 0 \<le> Height v"

definition wf_qc :: "QuorumCert \<Rightarrow> bool" where
  "wf_qc q \<longleftrightarrow> wf_view (qView q) \<and> wf_hash (qProposedBlock q) \<and> wf_address (qProposer q)"

definition wf_vote :: "Vote \<Rightarrow> bool" where
  "wf_vote v \<longleftrightarrow> wf_view (vView v) \<and> wf_hash (vProposedBlock v)"

definition wf_message :: "Message \<Rightarrow> bool" where
  "wf_message m \<longleftrightarrow> mhash m = EmptyHash \<and> wf_view (mView m) \<and> wf_address (mAddress m)"

definition wf_pb :: "crypto \<Rightarrow> ProposedBlock \<Rightarrow> bool" where
  "wf_pb K n \<longleftrightarrow> wf_hash (Parent n) \<and> (\<exists>b. pb_Block n = Some b \<and> wf_block K b)"

definition wf_diploma :: "Diploma \<Rightarrow> bool" where
  "wf_diploma d \<longleftrightarrow> wf_qc (CommitQC d) \<and> wf_hash (BlockHash d)"

definition wf_packagedQC :: "crypto \<Rightarrow> PackagedQC \<Rightarrow> bool" where
  "wf_packagedQC K p \<longleftrightarrow> wf_pb K (pk_ProposedBlock p) \<and> wf_qc (pk_QC p)"

lemma reads_view [reads_intro]:
  "wf_view v \<Longrightarrow> length (enc (view_item v)) < 2 ^ 64 \<Longrightarrow> reads decodeView (enc (view_item v)) v"
  unfolding view_item_def decodeView_def wf_view_def
  by (rule reads_intro | simp)+

lemma encodable_view [simp]: "encodable (view_item v) \<longleftrightarrow> wf_view v"
  by (auto simp: view_item_def wf_view_def)

interpretation view: rlp_codec wf_view view_item decodeView
  by unfold_locales (rule reads_view, assumption+, simp)

lemma reads_qc [reads_intro]:
  "wf_qc q \<Longrightarrow> length (enc (qc_item q)) < 2 ^ 64 \<Longrightarrow> reads decodeQC (enc (qc_item q)) q"
  unfolding qc_item_def decodeQC_def wf_qc_def wf_lengths
  by (rule reads_intro | simp)+

lemma encodable_qc [simp]: "encodable (qc_item q) \<longleftrightarrow> wf_view (qView q)"
  by (simp add: qc_item_def)

interpretation qc: rlp_codec wf_qc qc_item decodeQC
  by unfold_locales (rule reads_qc, assumption+, simp add: wf_qc_def)

lemma reads_vote [reads_intro]:
  "wf_vote v \<Longrightarrow> length (enc (vote_item v)) < 2 ^ 64 \<Longrightarrow> reads decodeVote (enc (vote_item v)) v"
  unfolding vote_item_def decodeVote_def wf_vote_def wf_lengths
  by (rule reads_intro | simp)+

lemma encodable_vote [simp]: "encodable (vote_item v) \<longleftrightarrow> wf_view (vView v)"
  by (simp add: vote_item_def)

interpretation vote: rlp_codec wf_vote vote_item decodeVote
  by unfold_locales (rule reads_vote, assumption+, simp add: wf_vote_def)

lemma reads_message [reads_intro]:
  "wf_message m \<Longrightarrow> length (enc (message_item m)) < 2 ^ 64 \<Longrightarrow>
     reads decodeMessage (enc (message_item m)) m"
  unfolding message_item_def decodeMessage_def wf_message_def wf_lengths
  by (rule reads_intro | simp)+

lemma encodable_message [simp]: "encodable (message_item m) \<longleftrightarrow> wf_view (mView m)"
  by (simp add: message_item_def)

interpretation message: rlp_codec wf_message message_item decodeMessage
  by unfold_locales (rule reads_message, assumption+, simp add: wf_message_def)

lemma reads_pb [reads_intro]:
  assumes "wf_pb K n" "length (enc (pb_item n)) < 2 ^ 64"
  shows "reads (decodePB K) (enc (pb_item n)) n"
proof -
  obtain b where b: "pb_Block n = Some b" "wf_block K b" "wf_hash (Parent n)"
    using assms(1) by (auto simp: wf_pb_def)
  then have len: "length (enc (block_item b)) < 2 ^ 64"
      "length (enc (Lst [Str (Parent n), block_item b])) < 2 ^ 64"
    using assms(2) by (simp_all add: pb_item_def)
  have "reads (decodePB K) (enc (Lst [Str (Parent n), block_item b])) n"
    unfolding decodePB_def
    by (rule reads_intro reads_block [OF b(2) len(1)] len
        | simp add: b b(3) [unfolded wf_lengths])+
  then show ?thesis by (simp add: pb_item_def b)
qed

lemma encodable_pb: "wf_pb K n \<Longrightarrow> encodable (pb_item n)"
  by (auto simp: pb_item_def wf_pb_def encodable_block)

interpretation pb: rlp_codec "wf_pb K" pb_item "decodePB K" for K
  by unfold_locales (rule reads_pb encodable_pb, assumption+)+

lemma reads_diploma:
  "wf_diploma d \<Longrightarrow> length (enc (diploma_item d)) < 2 ^ 64 \<Longrightarrow>
     reads decodeDiploma (enc (diploma_item d)) d"
  unfolding diploma_item_def decodeDiploma_def wf_diploma_def wf_lengths
  by (rule reads_intro | simp add: wf_lengths)+

interpretation diploma: rlp_codec wf_diploma diploma_item decodeDiploma
  by unfold_locales
    (rule reads_diploma, assumption+, simp add: diploma_item_def wf_diploma_def wf_qc_def)

lemma reads_packagedQC:
  "wf_packagedQC K p \<Longrightarrow> length (enc (packagedQC_item p)) < 2 ^ 64 \<Longrightarrow>
     reads (decodePackagedQC K) (enc (packagedQC_item p)) p"
  unfolding packagedQC_item_def decodePackagedQC_def wf_packagedQC_def
  by (rule reads_intro | simp)+

interpretation packagedQC: rlp_codec "wf_packagedQC K" packagedQC_item "decodePackagedQC K" for K
  by unfold_locales
    (rule reads_packagedQC, assumption+, auto simp: packagedQC_item_def wf_packagedQC_def
      wf_qc_def encodable_pb)

subsection \<open>Decoded values are well-formed\<close>

lemmas yields_base =
  yields_fld [OF yields_decodeByteArray] yields_fld [OF yields_decodeBigInt]

lemma yields_view: "yields decodeView wf_view"
  unfolding decodeView_def
  by (rule yields_decodeStruct) (rule yields_base yields_sret | simp add: wf_view_def)+

lemma yields_qc: "yields decodeQC wf_qc"
  unfolding decodeQC_def
  by (rule yields_decodeStruct)
    (rule yields_base yields_fld [OF yields_view] yields_fld [OF yields_True] yields_sret
      | simp add: wf_qc_def wf_lengths)+

lemma yields_vote: "yields decodeVote wf_vote"
  unfolding decodeVote_def
  by (rule yields_decodeStruct)
    (rule yields_base yields_fld [OF yields_view] yields_fld [OF yields_True] yields_sret
      | simp add: wf_vote_def wf_lengths)+

lemma yields_message: "yields decodeMessage wf_message"
  unfolding decodeMessage_def
  by (rule yields_decodeStruct)
    (rule yields_base yields_fld [OF yields_view] yields_fld [OF yields_True] yields_sret
      | simp add: wf_message_def wf_lengths)+

lemma yields_diploma: "yields decodeDiploma wf_diploma"
  unfolding decodeDiploma_def
  by (rule yields_decodeStruct)
    (rule yields_base yields_fld [OF yields_qc] yields_sret | simp add: wf_diploma_def wf_lengths)+

section \<open>Messages\<close>

lemma PayloadNoSig_hash:
  assumes "PayloadNoSig K m = (Inr d, m')"
  shows "m' = m\<lparr>mhash := Keccak256 K d\<rparr>"
    "hs_Encode (message_item (NewCleanMessage (mView m) (mCode m) (mMsg m))) = Inr d"
  using assms by (auto simp: PayloadNoSig_def split: sum.splits)

text \<open>The address of an accepted message is the sender's, and the signature is by the sender.\<close>

lemma FromPayload_sender:
  assumes "FromPayload K src payload (Some f) = Inr m"
  shows "mAddress m = src" "f (mhash m) (mSignature m) = Inr src" "wf_view (mView m)"
    "\<exists>d. hs_Encode (message_item (NewCleanMessage (mView m) (mCode m) (mMsg m))) = Inr d
       \<and> mhash m = Keccak256 K d"
proof -
  obtain m0 d where d: "DecodeBytes decodeMessage payload = Inr m0"
      "PayloadNoSig K m0 = (Inr d, m0\<lparr>mhash := Keccak256 K d\<rparr>)"
      "m = m0\<lparr>mhash := Keccak256 K d, mAddress := src\<rparr>"
      "f (Keccak256 K d) (mSignature m0) = Inr src"
      "hs_Encode (message_item (NewCleanMessage (mView m0) (mCode m0) (mMsg m0))) = Inr d"
    using assms by (fastforce simp: FromPayload_def split: sum.splits prod.splits if_splits
        dest: PayloadNoSig_hash)
  have "wf_message m0" using DecodeBytes_yields [OF d(1) yields_message] .
  with d show "mAddress m = src" "f (mhash m) (mSignature m) = Inr src" "wf_view (mView m)"
    "\<exists>d. hs_Encode (message_item (NewCleanMessage (mView m) (mCode m) (mMsg m))) = Inr d
       \<and> mhash m = Keccak256 K d"
    by (simp_all add: wf_message_def)
qed

section \<open>Properties\<close>

text \<open>C21. Two votes with the same encoding are the same vote: a signature over the bytes of a vote is a
  signature over its code, its view and its node.\<close>

theorem vote_encoding_injective:
  assumes "wf_vote v" "hs_Encode (vote_item v) = Inr bs" "wf_vote u" "hs_Encode (vote_item u) = Inr bs"
    and "length bs < 2 ^ 64"
  shows "v = u"
  by (rule vote.encode_inj [of v bs u]) (use assms in \<open>auto simp: hs_Encode_def split: option.splits\<close>)

theorem vote_encoding_injective_witness:
  "\<exists>bs. hs_Encode (vote_item \<lparr>vCode = 7, vView = \<lparr>Round = 0, Height = 1\<rparr>,
      vProposedBlock = EmptyHash, vBLSSignature = []\<rparr>) = Inr bs \<and>
    (\<forall>r \<in> {0 :: int, 1, 2}. hs_Encode (vote_item \<lparr>vCode = 7, vView = \<lparr>Round = r, Height = 1\<rparr>,
      vProposedBlock = EmptyHash, vBLSSignature = []\<rparr>) = Inr bs \<longrightarrow> r = 0)"
proof -
  let ?v = "\<lambda>r. \<lparr>vCode = 7, vView = \<lparr>Round = r, Height = 1\<rparr>, vProposedBlock = EmptyHash,
    vBLSSignature = []\<rparr>"
  define bs where "bs = enc (vote_item (?v 0))"
  have wf: "wf_vote (?v r)" if "r \<in> {0, 1, 2}" for r using that by (auto simp: wf_vote_def wf_view_def)
  have "length bs < 100" unfolding bs_def by code_simp
  then have l: "length bs < 2 ^ 64" by (rule less_trans) simp
  have e: "hs_Encode (vote_item (?v 0)) = Inr bs"
    using vote.encode_ok [of "?v 0"] wf [of 0] l by (simp add: hs_Encode_def bs_def)
  have "r = 0" if "r \<in> {0, 1, 2}" "hs_Encode (vote_item (?v r)) = Inr bs" for r
    using vote_encoding_injective [OF wf [of 0] e wf [OF that(1)] that(2) l] by simp
  with e show ?thesis by blast
qed

text \<open>C20. A message that is accepted carries the sender's address, and its signature is the sender's
  over the hash of its code, view and body.\<close>

theorem accepted_message_is_signed:
  assumes "FromPayload K src payload (Some validate) = Inr m"
  shows "mAddress m = src \<and> validate (mhash m) (mSignature m) = Inr src \<and>
    (\<exists>d. hs_Encode (message_item (NewCleanMessage (mView m) (mCode m) (mMsg m))) = Inr d \<and>
       mhash m = Keccak256 K d)"
  using FromPayload_sender [OF assms] by blast

theorem accepted_message_is_signed_witness:
  "\<exists>m d. FromPayload example_crypto (replicate 20 9)
      (enc (message_item (NewCleanMessage \<lparr>Round = 0, Height = 1\<rparr> MsgTypePrepare [1])))
      (Some (ec_SigToAddress example_crypto)) = Inr m \<and>
    hs_Encode (message_item (NewCleanMessage (mView m) (mCode m) (mMsg m))) = Inr d \<and>
    mhash m = Keccak256 example_crypto d"
proof -
  let ?r = "FromPayload example_crypto (replicate 20 9)
      (enc (message_item (NewCleanMessage \<lparr>Round = 0, Height = 1\<rparr> MsgTypePrepare [1])))
      (Some (ec_SigToAddress example_crypto))"
  have "case ?r of Inl e \<Rightarrow> False | Inr m \<Rightarrow> True" by code_simp
  then obtain m where m: "?r = Inr m" by (cases ?r) auto
  from accepted_message_is_signed [OF m] m show ?thesis by blast
qed

end
