(* ===== verification/Validator_Set.thy ===== *)
theory Validator_Set
  imports Hotstuff_Types "HOL-Library.List_Lexorder" "HOL-Library.Signed_Division"
begin

text \<open>
  The validator set, \<open>consensus/hotstuff/validator\<close>, and the order of validators,
  \<open>consensus/hotstuff/validators.go\<close>: a sorted list of addresses with a current proposer,
  chosen from the round by the policy of the configuration, and the sizes \<open>F\<close> and \<open>Q\<close> of
  a faulty minority and of a quorum.

  \<open>sort.Sort\<close> orders by \<open>Address.String\<close>, the checksummed hexadecimal form. It is not a stable
  sort, but validators with the same string are the same address, so its result is the
  one list that \<open>sort_key\<close> returns. A validator is its address; an interface value that
  may be nil is an option.

  The locale \<open>quorum_system\<close> is what the agreement argument needs of \<open>F\<close> and \<open>Q\<close>: two quorums
  share more validators than can be faulty.
\<close>

unbundle bit_operations_syntax

section \<open>Addresses as strings\<close>

definition hex_digit :: "byte \<Rightarrow> byte" where
  "hex_digit d = (if d < 10 then 0x30 + d else 0x57 + d)"

definition Address_hex :: "address \<Rightarrow> bytes" where
  "Address_hex a = [0x30, 0x78] @
     concat (map (\<lambda>b. [hex_digit (drop_bit 4 b), hex_digit (take_bit 4 b)]) a)"

definition checksum_char :: "bytes \<Rightarrow> nat \<Rightarrow> byte \<Rightarrow> byte" where
  "checksum_char h i c =
    (let hashByte = h ! ((i - 2) div 2);
         hashByte = (if i mod 2 = 0 then drop_bit 4 hashByte else take_bit 4 hashByte)
     in if c > 0x39 \<and> hashByte > 7 then c - 32 else c)"

definition Address_String :: "crypto \<Rightarrow> address \<Rightarrow> bytes" where
  "Address_String K a =
    (let buf = Address_hex a; h = Keccak256 K (drop 2 buf)
     in take 2 buf @ map (\<lambda>(i, c). checksum_char h i c) (drop 2 (List.enumerate 0 buf)))"

section \<open>The set\<close>

type_synonym SelectProposerPolicy = string

definition RoundRobin :: SelectProposerPolicy where "RoundRobin = ''RoundRobin''"
definition Sticky :: SelectProposerPolicy where "Sticky = ''Sticky''"
definition VRF :: SelectProposerPolicy where "VRF = ''VRF''"

record defaultSet =
  validators :: "address list"
  policy :: SelectProposerPolicy
  proposer :: "address option"

definition Size :: "defaultSet \<Rightarrow> int" where
  "Size vs = int (length (validators vs))"

definition AddressList :: "defaultSet \<Rightarrow> address list" where
  "AddressList vs = validators vs"

definition GetByIndex :: "defaultSet \<Rightarrow> u64 \<Rightarrow> address option" where
  "GetByIndex vs i =
    (if i < word_of_int (Size vs) then Some (validators vs ! unat i) else None)"

fun find_address :: "int \<Rightarrow> address \<Rightarrow> address list \<Rightarrow> int \<times> address option" where
  "find_address i addr [] = (-1, None)"
| "find_address i addr (v # vs) = (if addr = v then (i, Some v) else find_address (i + 1) addr vs)"

definition GetByAddress :: "defaultSet \<Rightarrow> address \<Rightarrow> int \<times> address option" where
  "GetByAddress vs addr = find_address 0 addr (validators vs)"

definition IsProposer :: "defaultSet \<Rightarrow> address \<Rightarrow> bool" where
  "IsProposer vs addr \<longleftrightarrow> proposer vs = snd (GetByAddress vs addr)"

definition newDefaultSet :: "crypto \<Rightarrow> address list \<Rightarrow> SelectProposerPolicy \<Rightarrow> defaultSet" where
  "newDefaultSet K addrs pol =
    (let vs = \<lparr>validators = sort_key (Address_String K) addrs, policy = pol, proposer = None\<rparr>
     in if Size vs > 0 then vs\<lparr>proposer := GetByIndex vs 0\<rparr> else vs)"

definition vs_Copy :: "crypto \<Rightarrow> defaultSet \<Rightarrow> defaultSet" where
  "vs_Copy K vs = newDefaultSet K (validators vs) (policy vs)"

section \<open>The proposer of a round\<close>

definition calcSeed :: "defaultSet \<Rightarrow> address \<Rightarrow> u64 \<Rightarrow> u64" where
  "calcSeed vs prop round =
    (let offset = (case GetByAddress vs prop of (idx, Some _) \<Rightarrow> idx | (_, None) \<Rightarrow> 0)
     in word_of_int offset + round)"

definition emptyAddress :: "address \<Rightarrow> bool" where
  "emptyAddress a \<longleftrightarrow> a = EmptyAddress"

definition roundRobinSelector :: "defaultSet \<Rightarrow> address \<Rightarrow> u64 \<Rightarrow> address option" where
  "roundRobinSelector vs prop round =
    (if Size vs = 0 then None
     else let seed = (if emptyAddress prop then round else calcSeed vs prop round + 1)
          in GetByIndex vs (seed mod word_of_int (Size vs)))"

definition stickySelector :: "defaultSet \<Rightarrow> address \<Rightarrow> u64 \<Rightarrow> address option" where
  "stickySelector vs prop round =
    (if Size vs = 0 then None
     else let seed = (if emptyAddress prop then round else calcSeed vs prop round)
          in GetByIndex vs (seed mod word_of_int (Size vs)))"

definition vrfSelector :: "defaultSet \<Rightarrow> address \<Rightarrow> u64 \<Rightarrow> address option" where
  "vrfSelector vs prop round = None"

definition selector :: "defaultSet \<Rightarrow> address \<Rightarrow> u64 \<Rightarrow> address option" where
  "selector vs =
    (if policy vs = VRF then vrfSelector vs
     else if policy vs = Sticky then stickySelector vs
     else roundRobinSelector vs)"

definition CalcProposer :: "defaultSet \<Rightarrow> address \<Rightarrow> u64 \<Rightarrow> defaultSet" where
  "CalcProposer vs lastProposer round = vs\<lparr>proposer := selector vs lastProposer round\<rparr>"

definition CalcProposerByIndex :: "defaultSet \<Rightarrow> u64 \<Rightarrow> defaultSet" where
  "CalcProposerByIndex vs index =
    (if index < word_of_int (Size vs) then vs\<lparr>proposer := Some (validators vs ! unat index)\<rparr>
     else vs)"

section \<open>Membership\<close>

definition AddValidator :: "crypto \<Rightarrow> defaultSet \<Rightarrow> address \<Rightarrow> bool \<times> defaultSet" where
  "AddValidator K vs addr =
    (if addr \<in> set (validators vs) then (False, vs)
     else (True, vs\<lparr>validators := sort_key (Address_String K) (validators vs @ [addr])\<rparr>))"

definition RemoveValidator :: "defaultSet \<Rightarrow> address \<Rightarrow> bool \<times> defaultSet" where
  "RemoveValidator vs addr =
    (case GetByAddress vs addr of
       (i, Some _) \<Rightarrow>
         (True, vs\<lparr>validators := take (nat i) (validators vs) @ drop (nat i + 1) (validators vs)\<rparr>)
     | (_, None) \<Rightarrow> (False, vs))"

definition F :: "defaultSet \<Rightarrow> int" where
  "F vs = (Size vs - 1) sdiv 3"

definition Q :: "defaultSet \<Rightarrow> int" where
  "Q vs = Size vs - F vs"

section \<open>Validators in extra-data\<close>

definition ExtractValidators :: "bytes \<Rightarrow> address list" where
  "ExtractValidators extraData =
    map (\<lambda>i. take AddressLength (drop (i * AddressLength) extraData))
      [0..<length extraData div AddressLength]"

definition ValidExtraData :: "bytes \<Rightarrow> bool" where
  "ValidExtraData extraData \<longleftrightarrow> length extraData mod AddressLength = 0"

section \<open>Addresses are determined by their strings\<close>

definition lower_char :: "byte \<Rightarrow> byte" where
  "lower_char c = (if 0x39 < c \<and> c < 0x61 then c + 32 else c)"

lemma unat_hex_digit:
  assumes "unat d < 16"
  shows "unat (hex_digit d) = (if unat d < 10 then 48 + unat d else 87 + unat d)"
  using assms by (auto simp: hex_digit_def unat_word_ariths word_less_nat_alt)

lemma lower_checksum_char:
  assumes "unat d < 16"
  shows "lower_char (checksum_char h i (hex_digit d)) = hex_digit d"
proof (cases "unat d < 10")
  case True
  with unat_hex_digit [OF assms] have "unat (hex_digit d) \<le> 57" by simp
  then have "\<not> 0x39 < hex_digit d" by (simp add: word_less_nat_alt)
  then show ?thesis by (simp add: checksum_char_def lower_char_def Let_def)
next
  case False
  with unat_hex_digit [OF assms] assms have c: "97 \<le> unat (hex_digit d)" "unat (hex_digit d) < 103"
    by simp_all
  then have "(32 :: byte) \<le> hex_digit d" by (simp add: word_le_nat_alt)
  then have "unat (hex_digit d - 32) = unat (hex_digit d) - 32" by (simp add: unat_sub)
  with c have "0x39 < hex_digit d - 32" "hex_digit d - 32 < 0x61" "\<not> hex_digit d < 0x61"
    by (simp_all add: word_less_nat_alt)
  then show ?thesis by (simp add: checksum_char_def lower_char_def Let_def)
qed

lemma hex_digit_inj:
  assumes "unat d < 16" "unat e < 16" "hex_digit d = hex_digit e"
  shows "d = e"
  using unat_hex_digit [OF assms(1)] unat_hex_digit [OF assms(2)] assms(3)
  by (auto simp: word_unat_eq_iff split: if_splits)

lemma nibble_bounds:
  "unat (drop_bit 4 b) < 16" "unat (take_bit 4 b) < 16" for b :: byte
proof -
  have "unat b < 2 ^ LENGTH(8)" by (rule unsigned_less)
  then have "unat b div 16 < 16" by (simp add: div_less_iff_less_mult)
  then show "unat (drop_bit 4 b) < 16"
    using \<open>unat b < 2 ^ LENGTH(8)\<close>
    by (simp only: unsigned_drop_bit_eq) (simp add: drop_bit_eq_div take_bit_eq_mod)
  show "unat (take_bit 4 b) < 16"
    by (simp only: unsigned_take_bit_eq) (simp add: take_bit_eq_mod)
qed

lemma byte_from_nibbles:
  "drop_bit 4 a = drop_bit 4 b \<Longrightarrow> take_bit 4 a = take_bit 4 b \<Longrightarrow> a = b" for a b :: byte
  by (metis bits_ident)

definition hex_digits :: "address \<Rightarrow> bytes" where
  "hex_digits a = concat (map (\<lambda>b. [hex_digit (drop_bit 4 b), hex_digit (take_bit 4 b)]) a)"

lemma hex_digits_Cons:
  "hex_digits (x # a) = hex_digit (drop_bit 4 x) # hex_digit (take_bit 4 x) # hex_digits a"
  by (simp add: hex_digits_def)

lemma hex_digits_inj: "hex_digits a = hex_digits b \<Longrightarrow> a = b"
proof (induction a arbitrary: b)
  case Nil
  then show ?case by (cases b) (auto simp: hex_digits_def)
next
  case (Cons x a)
  then obtain y b' where b: "b = y # b'" by (cases b) (auto simp: hex_digits_def)
  with Cons.prems have h: "hex_digit (drop_bit 4 x) = hex_digit (drop_bit 4 y)"
      "hex_digit (take_bit 4 x) = hex_digit (take_bit 4 y)" "hex_digits a = hex_digits b'"
    unfolding b hex_digits_Cons by (simp_all only: list.inject)
  have "x = y"
    by (rule byte_from_nibbles) (rule hex_digit_inj, rule nibble_bounds, rule nibble_bounds, rule h)+
  with Cons.IH [OF h(3)] b show ?case by simp
qed

lemma hex_digits_range: "c \<in> set (hex_digits a) \<Longrightarrow> \<exists>d. unat d < 16 \<and> c = hex_digit d"
  using nibble_bounds by (auto simp: hex_digits_def)

lemma lower_Address_String: "map lower_char (drop 2 (Address_String K a)) = hex_digits a"
proof -
  have hex: "drop 2 (Address_hex a) = hex_digits a" "take 2 (Address_hex a) = [0x30, 0x78]"
    by (simp_all add: Address_hex_def hex_digits_def)
  have "map (lower_char \<circ> (\<lambda>(i, c). checksum_char h i c)) (drop 2 (List.enumerate 0 (Address_hex a)))
      = map snd (drop 2 (List.enumerate 0 (Address_hex a)))" for h
  proof (rule map_cong [OF refl])
    fix p assume "p \<in> set (drop 2 (List.enumerate 0 (Address_hex a)))"
    then have "snd p \<in> set (map snd (drop 2 (List.enumerate 0 (Address_hex a))))" by simp
    then have "snd p \<in> set (hex_digits a)" by (simp add: drop_map [symmetric] hex)
    then show "(lower_char \<circ> (\<lambda>(i, c). checksum_char h i c)) p = snd p"
      by (auto dest!: hex_digits_range simp: lower_checksum_char split_beta)
  qed
  then show ?thesis by (simp add: Address_String_def Let_def hex drop_map [symmetric])
qed

lemma Address_String_inj: "Address_String K a = Address_String K b \<Longrightarrow> a = b"
  by (rule hex_digits_inj) (metis lower_Address_String)

section \<open>Lookup\<close>

lemma find_address_snd: "snd (find_address i a vs) = (if a \<in> set vs then Some a else None)"
  by (induction vs arbitrary: i) auto

lemma find_address_fst:
  "a \<in> set vs \<Longrightarrow> \<exists>k < length vs. fst (find_address i a vs) = i + int k \<and> vs ! k = a"
proof (induction vs arbitrary: i)
  case (Cons v vs)
  show ?case
  proof (cases "a = v")
    case False
    then obtain k where "k < length vs" "fst (find_address (i + 1) a vs) = i + 1 + int k" "vs ! k = a"
      using Cons by auto
    then show ?thesis using False by (intro exI [of _ "Suc k"]) auto
  qed auto
qed simp

lemma find_address_absent: "a \<notin> set vs \<Longrightarrow> find_address i a vs = (-1, None)"
  by (induction vs arbitrary: i) auto

lemma GetByAddress_snd [simp]:
  "snd (GetByAddress vs a) = (if a \<in> set (validators vs) then Some a else None)"
  by (simp add: GetByAddress_def find_address_snd)

lemma GetByAddress_fst [simp]: "fst (GetByAddress vs a) < 0 \<longleftrightarrow> a \<notin> set (validators vs)"
  using find_address_fst [of a "validators vs" 0]
  by (auto simp: GetByAddress_def find_address_absent)

lemma GetByAddress_index:
  assumes "a \<in> set (validators vs)"
  obtains k where "k < length (validators vs)" "GetByAddress vs a = (int k, Some a)"
    "validators vs ! k = a"
proof -
  obtain k where k: "k < length (validators vs)" "fst (GetByAddress vs a) = int k"
      "validators vs ! k = a"
    using find_address_fst [OF assms, of 0] by (auto simp: GetByAddress_def)
  moreover have "GetByAddress vs a = (int k, Some a)"
    using k(2) GetByAddress_snd [of vs a] assms by (simp add: prod_eq_iff)
  ultimately show ?thesis using that by blast
qed

lemma IsProposer_iff:
  assumes "proposer vs = Some p" "p \<in> set (validators vs)"
  shows "IsProposer vs a \<longleftrightarrow> a = p"
  using assms by (auto simp: IsProposer_def)

section \<open>Construction\<close>

text \<open>A Go slice has fewer than \<open>2^63\<close> elements.\<close>

definition wf_valset :: "defaultSet \<Rightarrow> bool" where
  "wf_valset vs \<longleftrightarrow> distinct (validators vs) \<and> length (validators vs) < 2 ^ 63"

lemma validators_newDefaultSet [simp]:
  "validators (newDefaultSet K addrs pol) = sort_key (Address_String K) addrs"
  "policy (newDefaultSet K addrs pol) = pol"
  by (simp_all add: newDefaultSet_def Let_def)

lemma wf_newDefaultSet: "distinct addrs \<Longrightarrow> length addrs < 2 ^ 63 \<Longrightarrow> wf_valset (newDefaultSet K addrs pol)"
  by (simp add: wf_valset_def)

lemma vs_Copy_members [simp]:
  "set (validators (vs_Copy K vs)) = set (validators vs)" "policy (vs_Copy K vs) = policy vs"
  "wf_valset (vs_Copy K vs) = wf_valset vs"
  by (simp_all add: vs_Copy_def wf_valset_def)

lemma CalcProposer_simps [simp]:
  "validators (CalcProposer vs lastp r) = validators vs" "policy (CalcProposer vs lastp r) = policy vs"
  "wf_valset (CalcProposer vs lastp r) = wf_valset vs"
  "GetByAddress (CalcProposer vs lastp r) = GetByAddress vs"
  "Q (CalcProposer vs lastp r) = Q vs" "F (CalcProposer vs lastp r) = F vs"
  by (simp_all add: CalcProposer_def wf_valset_def GetByAddress_def Q_def F_def Size_def fun_eq_iff)

section \<open>The proposer of a round\<close>

lemma unat_Size:
  assumes "wf_valset vs"
  shows "unat (word_of_int (Size vs) :: u64) = length (validators vs)"
proof -
  have "length (validators vs) < 2 ^ 64" using assms by (simp add: wf_valset_def)
  then show ?thesis by (simp add: Size_def unat_of_nat)
qed

lemma GetByIndex_mod:
  assumes "wf_valset vs" "validators vs \<noteq> []"
  shows "GetByIndex vs (seed mod word_of_int (Size vs)) =
    Some (validators vs ! (unat seed mod length (validators vs)))"
proof -
  have "unat (seed mod word_of_int (Size vs)) = unat seed mod length (validators vs)"
    using unat_Size [OF assms(1)] by (simp add: unat_mod)
  then show ?thesis
    using assms(2) unat_Size [OF assms(1)] by (simp add: GetByIndex_def word_less_nat_alt)
qed

lemma Size_0_iff [simp]: "Size vs = 0 \<longleftrightarrow> validators vs = []"
  by (simp add: Size_def)

lemma selector_member:
  assumes "wf_valset vs" "validators vs \<noteq> []" "policy vs \<noteq> VRF"
  shows "\<exists>p \<in> set (validators vs). selector vs lastp r = Some p"
  using assms
  by (auto simp: selector_def roundRobinSelector_def stickySelector_def GetByIndex_mod
      Let_def)

text \<open>The seed of a round is a fixed offset plus the round, modulo \<open>2^64\<close>.\<close>

definition selector_offset :: "defaultSet \<Rightarrow> address \<Rightarrow> u64" where
  "selector_offset vs lastp =
    (if emptyAddress lastp then 0
     else calcSeed vs lastp 0 + (if policy vs = Sticky then 0 else 1))"

lemma selector_seed:
  assumes "wf_valset vs" "validators vs \<noteq> []" "policy vs \<noteq> VRF"
  shows "selector vs lastp r =
    Some (validators vs ! (unat (selector_offset vs lastp + r) mod length (validators vs)))"
  using assms
  by (auto simp: selector_def roundRobinSelector_def stickySelector_def GetByIndex_mod
      Let_def selector_offset_def calcSeed_def ac_simps)

lemma selector_offset_bound:
  assumes "wf_valset vs" "validators vs \<noteq> []"
  shows "unat (selector_offset vs lastp) \<le> length (validators vs)"
proof -
  have lt: "length (validators vs) < 2 ^ 63" using assms(1) by (simp add: wf_valset_def)
  consider "lastp \<in> set (validators vs)" | "lastp \<notin> set (validators vs)" by blast
  then show ?thesis
  proof cases
    case 1
    then obtain k where "k < length (validators vs)" "GetByAddress vs lastp = (int k, Some lastp)"
      by (rule GetByAddress_index)
    with lt show ?thesis
      by (auto simp: selector_offset_def calcSeed_def unat_word_ariths unat_of_nat)
  next
    case 2
    then have "GetByAddress vs lastp = (-1, None)" by (simp add: GetByAddress_def find_address_absent)
    with lt assms(2) show ?thesis
      by (auto simp: selector_offset_def calcSeed_def Suc_le_eq)
  qed
qed

lemma rotation_covers:
  assumes "k < (n :: nat)"
  shows "\<exists>r < n. (c + r) mod n = k"
proof -
  let ?r = "(k + (n - c mod n)) mod n"
  have "0 < n" using assms by simp
  have "(c + ?r) mod n = (c mod n + (k + (n - c mod n))) mod n"
    by (simp add: mod_simps)
  also have "c mod n + (k + (n - c mod n)) = k + n"
    using mod_less_divisor [OF \<open>0 < n\<close>, of c] by linarith
  finally show ?thesis using assms by (intro exI [of _ ?r]) auto
qed

lemma selector_covers:
  assumes "wf_valset vs" "policy vs \<noteq> VRF" "v \<in> set (validators vs)"
  shows "\<exists>r < length (validators vs). selector vs lastp (of_nat r) = Some v"
proof -
  let ?n = "length (validators vs)" and ?c = "unat (selector_offset vs lastp)"
  have ne: "validators vs \<noteq> []" using assms(3) by auto
  obtain k where k: "k < ?n" "validators vs ! k = v" using assms(3) by (auto simp: in_set_conv_nth)
  obtain r where r: "r < ?n" "(?c + r) mod ?n = k" using rotation_covers [OF k(1)] by blast
  have "?c + r < 2 ^ 64"
    using selector_offset_bound [OF assms(1) ne, of lastp] r(1) assms(1) by (simp add: wf_valset_def)
  then have "unat (selector_offset vs lastp + of_nat r) = ?c + r"
    by (simp add: unat_word_ariths unat_of_nat)
  with r k selector_seed [OF assms(1) ne assms(2)] show ?thesis by auto
qed

section \<open>Quorums\<close>

text \<open>
  \<open>q n\<close> votes of \<open>n\<close> validators form a quorum, and at most \<open>f n\<close> validators are faulty. Two
  quorums have more than \<open>f n\<close> validators in common, so at least one of them is correct.
\<close>

locale quorum_system =
  fixes q f :: "nat \<Rightarrow> nat"
  assumes q_le: "q n \<le> n"
    and q_overlap: "0 < n \<Longrightarrow> n + f n < 2 * q n"
    and q_live: "q n \<le> n - f n"
begin

lemma intersection:
  assumes "finite V" "V \<noteq> {}" "A \<subseteq> V" "B \<subseteq> V" "q (card V) \<le> card A" "q (card V) \<le> card B"
  shows "f (card V) < card (A \<inter> B)"
proof -
  have fin: "finite A" "finite B" using assms finite_subset by blast+
  have "card (A \<union> B) \<le> card V" using assms by (intro card_mono) auto
  moreover have "card A + card B = card (A \<union> B) + card (A \<inter> B)" using fin by (rule card_Un_Int)
  moreover have "card V + f (card V) < 2 * q (card V)"
    using assms by (intro q_overlap) (simp add: card_gt_0_iff)
  ultimately show ?thesis using assms(5,6) by linarith
qed

lemma honest_witness:
  assumes "finite V" "V \<noteq> {}" "A \<subseteq> V" "B \<subseteq> V" "q (card V) \<le> card A" "q (card V) \<le> card B"
    and "card Byz \<le> f (card V)" "finite Byz"
  obtains v where "v \<in> A" "v \<in> B" "v \<notin> Byz"
proof -
  have "\<not> A \<inter> B \<subseteq> Byz"
    using intersection [OF assms(1-6)] card_mono [OF assms(8), of "A \<inter> B"] assms(7) by linarith
  then show ?thesis using that by blast
qed

lemma correct_quorum:
  assumes "finite V" "Byz \<subseteq> V" "card Byz \<le> f (card V)"
  shows "q (card V) \<le> card (V - Byz)"
  using assms q_live [of "card V"] by (simp add: card_Diff_subset finite_subset)

end

definition quorum_size :: "nat \<Rightarrow> nat" where
  "quorum_size n = nat (int n - (int n - 1) sdiv 3)"

definition faulty_size :: "nat \<Rightarrow> nat" where
  "faulty_size n = nat ((int n - 1) sdiv 3)"

lemma F_faulty_size: "F vs = int (faulty_size (length (validators vs)))"
  by (cases "length (validators vs)")
    (simp_all add: F_def faulty_size_def Size_def signed_divide_int_def)

lemma faulty_size_div: "faulty_size n = (n - 1) div 3"
  by (cases n) (simp_all add: faulty_size_def signed_divide_int_def nat_div_distrib)

lemma quorum_size_eq: "quorum_size n = n - (n - 1) div 3"
proof -
  have "(int n - 1) sdiv 3 = int ((n - 1) div 3)"
    by (cases n) (simp_all add: signed_divide_int_def sgn_if zdiv_int)
  then show ?thesis by (simp add: quorum_size_def)
qed

lemma Q_quorum_size: "Q vs = int (quorum_size (length (validators vs)))"
  using faulty_size_div [of "length (validators vs)"]
  by (simp add: Q_def F_faulty_size quorum_size_eq Size_def)

interpretation bft: quorum_system quorum_size faulty_size
  by unfold_locales (unfold quorum_size_eq faulty_size_div, linarith+)

lemma quorums_meet:
  assumes "wf_valset vs" "validators vs \<noteq> []"
    and "A \<subseteq> set (validators vs)" "B \<subseteq> set (validators vs)"
    and "Q vs \<le> int (card A)" "Q vs \<le> int (card B)"
    and "finite Byz" "int (card Byz) \<le> F vs"
  obtains v where "v \<in> A" "v \<in> B" "v \<notin> Byz"
proof -
  have c: "card (set (validators vs)) = length (validators vs)"
    using assms(1) by (simp add: wf_valset_def distinct_card)
  have p: "finite (set (validators vs))" "set (validators vs) \<noteq> {}"
    "quorum_size (card (set (validators vs))) \<le> card A" "quorum_size (card (set (validators vs))) \<le> card B"
    "card Byz \<le> faulty_size (card (set (validators vs)))"
    using assms by (simp_all add: c Q_quorum_size F_faulty_size)
  from bft.honest_witness [OF p(1,2) assms(3,4) p(3-5) assms(7)] that show thesis .
qed

section \<open>Membership\<close>

text \<open>The order by string is a canonical form: lists with the same validators have one.\<close>

lemma sorted_by_string_unique:
  assumes "mset xs = mset ys" "sorted (map (Address_String K) xs)" "sorted (map (Address_String K) ys)"
  shows "xs = ys"
proof -
  have "map (Address_String K) xs = map (Address_String K) ys"
    using properties_for_sort [of "map (Address_String K) xs" "map (Address_String K) ys"]
      sorted_sort_id [OF assms(3)] assms(1,2) by simp
  moreover have "inj (Address_String K)" by (rule injI) (rule Address_String_inj)
  ultimately show ?thesis by (simp add: inj_map_eq_map)
qed

lemma find_address_remove1:
  "find_address i a vs = (j, Some v) \<Longrightarrow>
     i \<le> j \<and> take (nat (j - i)) vs @ drop (nat (j - i) + 1) vs = remove1 a vs"
proof (induction i a vs rule: find_address.induct)
  case (2 i a w vs)
  show ?case
  proof (cases "a = w")
    case False
    with 2 have "i + 1 \<le> j" "take (nat (j - (i + 1))) vs @ drop (nat (j - (i + 1)) + 1) vs = remove1 a vs"
      by auto
    moreover have "nat (j - i) = Suc (nat (j - (i + 1)))" using calculation(1) by simp
    ultimately show ?thesis using False by simp
  qed (use 2 in auto)
qed simp

lemma RemoveValidator_remove1:
  "RemoveValidator vs a =
    (if a \<in> set (validators vs) then (True, vs\<lparr>validators := remove1 a (validators vs)\<rparr>) else (False, vs))"
proof (cases "a \<in> set (validators vs)")
  case True
  obtain j where j: "GetByAddress vs a = (j, Some a)"
    using True GetByAddress_snd [of vs a] by (metis prod.collapse)
  with find_address_remove1 [of 0 a "validators vs" j a] True show ?thesis
    by (simp add: RemoveValidator_def GetByAddress_def)
next
  case False
  then show ?thesis by (simp add: RemoveValidator_def GetByAddress_def find_address_absent)
qed

section \<open>Properties\<close>

text \<open>C15. Rotation: with a round-robin or sticky policy every validator is the proposer of one of
  the first \<open>n\<close> rounds of a height, \<open>n\<close> being the number of validators, whoever proposed the last
  block.\<close>

theorem every_validator_proposes:
  assumes "wf_valset vs" "policy vs \<noteq> VRF" "v \<in> set (validators vs)"
  shows "\<exists>r < length (validators vs). proposer (CalcProposer vs lastProposer (of_nat r)) = Some v"
  using selector_covers [OF assms] by (simp add: CalcProposer_def)

theorem every_validator_proposes_witness:
  "let vs = \<lparr>validators = [[1], [2], [3], [4]], policy = RoundRobin, proposer = None\<rparr>
   in \<exists>r < length (validators vs). proposer (CalcProposer vs [3] (of_nat r)) = Some [2]"
  using every_validator_proposes
    [of "\<lparr>validators = [[1], [2], [3], [4]], policy = RoundRobin, proposer = None\<rparr>" "[2]" "[3]"]
  by (simp add: wf_valset_def RoundRobin_def VRF_def)

text \<open>C37. Nodes that are given the same validators in any order build the same set: the validators
  are kept sorted by their checksummed strings, which no two addresses share.\<close>

theorem validator_order_canonical:
  assumes "mset addrs = mset addrs'"
  shows "newDefaultSet K addrs pol = newDefaultSet K addrs' pol"
proof -
  have "sort_key (Address_String K) addrs = sort_key (Address_String K) addrs'"
    by (rule sorted_by_string_unique [of _ _ K]) (simp_all add: assms)
  then show ?thesis by (simp add: newDefaultSet_def)
qed

theorem validator_order_canonical_witness:
  "newDefaultSet example_crypto [[1], [2]] RoundRobin = newDefaultSet example_crypto [[2], [1]] RoundRobin"
  by (rule validator_order_canonical) simp

text \<open>Adding a validator and removing it again gives back the set.\<close>

lemma add_then_remove_validator:
  assumes "sorted (map (Address_String K) (validators vs))" "a \<notin> set (validators vs)"
  shows "fst (AddValidator K vs a) \<and> RemoveValidator (snd (AddValidator K vs a)) a = (True, vs)"
proof -
  have "remove1 a (sort_key (Address_String K) (validators vs @ [a])) = validators vs"
    by (rule sorted_by_string_unique [of _ _ K]) (use assms in \<open>simp_all add: sorted_map_remove1\<close>)
  then show ?thesis
    using assms(2) by (simp add: AddValidator_def RemoveValidator_remove1)
qed

end
