(* ===== verification/Signer.thy ===== *)
theory Signer
  imports Validator_Set
begin

text \<open>
  The signer, \<open>consensus/hotstuff/signer/signer.go\<close>: threshold BLS signatures over votes,
  the authentication of a quorum certificate, ECDSA signatures over messages and headers, and
  the cache of recovered header signers.

  \<open>world\<close> holds what an operation reads from outside the engine while it handles one event:
  the clock, the chain, the peers, the result of executing a block and of writing to the
  database, the integer that the machine makes of an out-of-range float, the order in which
  \<open>range\<close> visits a Go map, and the replacement decisions of the ARC caches of \<open>golang-lru\<close>.
\<close>

section \<open>The outside world during one event\<close>

record world =
  w_now :: u64
  w_currentBlock :: Block
  w_GetHeader :: "hash \<Rightarrow> u64 \<Rightarrow> Header option"
  w_hasBadBlock :: "hash \<Rightarrow> bool"
  w_ExecuteBlock :: "Block \<Rightarrow> err + (nat \<times> nat \<times> nat)"
  w_FindPeer :: "address \<Rightarrow> bool"
  w_dbPut :: "string \<Rightarrow> err option"
  w_floatOverflow :: int
  w_range_msgs :: "Message list \<Rightarrow> Message list"
  w_range_addrs :: "address list \<Rightarrow> address list"
  w_sig_Add :: "hash \<Rightarrow> address \<Rightarrow> (hash \<rightharpoonup> address) \<Rightarrow> (hash \<rightharpoonup> address)"
  w_known_Add :: "hash \<Rightarrow> hash set \<Rightarrow> hash set"
  w_recent_Add :: "address \<Rightarrow> hash set \<Rightarrow> (address \<rightharpoonup> hash set) \<Rightarrow> (address \<rightharpoonup> hash set)"

text \<open>\<open>range\<close> visits every entry of a map once. A cache returns what was added to it: after an
  \<open>Add\<close> the new entry is there, and every other entry is an old one, perhaps evicted.\<close>

definition world_ok :: "world \<Rightarrow> bool" where
  "world_ok w \<longleftrightarrow>
    (\<forall>ms. mset (w_range_msgs w ms) = mset ms) \<and>
    (\<forall>xs. mset (w_range_addrs w xs) = mset xs) \<and>
    (\<forall>k v m. w_sig_Add w k v m k = Some v \<and> (\<forall>k'. k' \<noteq> k \<longrightarrow> w_sig_Add w k v m k' \<in> {m k', None})) \<and>
    (\<forall>k s. k \<in> w_known_Add w k s \<and> w_known_Add w k s \<subseteq> insert k s) \<and>
    (\<forall>k v m. w_recent_Add w k v m k = Some v \<and>
       (\<forall>k'. k' \<noteq> k \<longrightarrow> w_recent_Add w k v m k' \<in> {m k', None}))"

section \<open>The signer\<close>

record signer =
  s_address :: address
  s_privateKey :: "bytes option"
  s_signatures :: "hash \<rightharpoonup> address"
  s_blsPubPoly :: bytes
  s_blsPrivKey :: bytes
  s_t :: int
  s_n :: int

definition BLSSign :: "crypto \<Rightarrow> signer \<Rightarrow> bytes \<Rightarrow> err + bytes" where
  "BLSSign K s data = tbls_Sign K (s_blsPrivKey s) data"

definition BLSRecoverAggSig :: "crypto \<Rightarrow> signer \<Rightarrow> bytes \<Rightarrow> bytes list \<Rightarrow> err + bytes" where
  "BLSRecoverAggSig K s data sigShares = tbls_Recover K (s_blsPubPoly s) data sigShares (s_t s) (s_n s)"

definition BLSVerifyAggSig :: "crypto \<Rightarrow> signer \<Rightarrow> bytes \<Rightarrow> bytes \<Rightarrow> err option" where
  "BLSVerifyAggSig K s data aggSig = bls_Verify K (s_blsPubPoly s) data aggSig"

text \<open>\<open>AuthQC\<close> ignores the encoder's error; the encoder then returns no bytes.\<close>

definition qc_vote :: "QuorumCert \<Rightarrow> Vote" where
  "qc_vote qc =
    \<lparr>vCode = qCode qc, vView = qView qc, vProposedBlock = qProposedBlock qc, vBLSSignature = []\<rparr>"

definition AuthQC :: "crypto \<Rightarrow> signer \<Rightarrow> QuorumCert \<Rightarrow> err option" where
  "AuthQC K s qc =
    (if big_Uint64 (Height (qView qc)) = 0 then None
     else let data = (case hs_Encode (vote_item (qc_vote qc)) of Inl _ \<Rightarrow> [] | Inr b \<Rightarrow> b)
          in BLSVerifyAggSig K s data (qBLSSignature qc))"

definition Sign :: "crypto \<Rightarrow> signer \<Rightarrow> hash \<Rightarrow> err + bytes" where
  "Sign K s h =
    (if h = EmptyHash then Inl ErrInvalidRawHash
     else case s_privateKey s of None \<Rightarrow> Inl ErrInvalidSigner | Some key \<Rightarrow> ec_Sign K key h)"

text \<open>\<open>HeaderHash\<close> encodes the filtered header; \<open>HotstuffFilteredHeader\<close> returns a nil pointer when
  the extra-data is malformed, which is encoded as the empty list.\<close>

definition HeaderHash :: "crypto \<Rightarrow> Header \<Rightarrow> hash" where
  "HeaderHash K h =
    (case HotstuffFilteredHeader h False of
       Some h' \<Rightarrow> rlpHash K (header_item h')
     | None \<Rightarrow> rlpHash K (Lst []))"

definition getSignatureAddress :: "crypto \<Rightarrow> hash \<Rightarrow> bytes \<Rightarrow> err + address" where
  "getSignatureAddress K h sig =
    (if h = EmptyHash then Inl ErrInvalidRawHash else ec_SigToAddress K h sig)"

definition RecoverSigner :: "crypto \<Rightarrow> world \<Rightarrow> Header \<Rightarrow> signer \<Rightarrow> (err + address) \<times> signer" where
  "RecoverSigner K w hdr s =
    (let h = header_Hash K hdr in
     case s_signatures s h of
       Some addr \<Rightarrow> (Inr addr, s)
     | None \<Rightarrow>
         (case ExtractHotstuffExtra hdr of
            Inl _ \<Rightarrow> (Inl ErrInvalidExtraDataFormat, s)
          | Inr extra \<Rightarrow>
              (case getSignatureAddress K (HeaderHash K hdr) (Seal extra) of
                 Inl e \<Rightarrow> (Inl e, s)
               | Inr addr \<Rightarrow>
                   (Inr addr, s\<lparr>s_signatures := w_sig_Add w h addr (s_signatures s)\<rparr>))))"

definition signer_VerifyHeader ::
  "crypto \<Rightarrow> world \<Rightarrow> Header \<Rightarrow> defaultSet \<Rightarrow> bool \<Rightarrow> signer \<Rightarrow> err option \<times> signer" where
  "signer_VerifyHeader K w hdr valSet seal s =
    (if big_Uint64 (Number hdr) = 0 then (None, s)
     else case RecoverSigner K w hdr s of
       (Inl e, s) \<Rightarrow> (Some e, s)
     | (Inr sgnr, s) \<Rightarrow>
         if sgnr \<noteq> Coinbase hdr then (Some ErrInvalidSigner, s)
         else if snd (GetByAddress valSet sgnr) = None then (Some ErrUnauthorized, s)
         else if seal then
           (case ExtractHotstuffExtra hdr of
              Inl _ \<Rightarrow> (Some ErrInvalidExtraDataFormat, s)
            | Inr extra \<Rightarrow>
                (case DecodeBytes decodeQC (EncodedQC extra) of
                   Inl e \<Rightarrow> (Some (ErrRlp e), s)
                 | Inr commitQC \<Rightarrow> (AuthQC K s commitQC, s)))
         else (None, s))"

definition SignerSeal :: "crypto \<Rightarrow> signer \<Rightarrow> Header \<Rightarrow> err + Header" where
  "SignerSeal K s h =
    (case Sign K s (HeaderHash K h) of
       Inl _ \<Rightarrow> Inl ErrInvalidSignature
     | Inr seal \<Rightarrow>
         if length seal mod HotstuffExtraSeal \<noteq> 0 then Inl ErrInvalidSignature
         else SetSeal seal h)"

definition CheckSignature :: "crypto \<Rightarrow> defaultSet \<Rightarrow> hash \<Rightarrow> bytes \<Rightarrow> err + address" where
  "CheckSignature K valSet h sig =
    (if h = EmptyHash then Inl ErrInvalidRawHash
     else case getSignatureAddress K h sig of
       Inl e \<Rightarrow> Inl e
     | Inr sgnr \<Rightarrow>
         (case snd (GetByAddress valSet sgnr) of
            Some v \<Rightarrow> Inr v
          | None \<Rightarrow> Inl ErrUnauthorizedAddress))"

definition BuildPrepareExtra :: "Header \<Rightarrow> defaultSet \<Rightarrow> err + (bytes \<times> Header)" where
  "BuildPrepareExtra hdr valSet =
    (let hdr = (if length (Extra hdr) < HotstuffExtraVanity
           then hdr\<lparr>Extra := Extra hdr @ replicate (HotstuffExtraVanity - length (Extra hdr)) 0\<rparr>
           else hdr)
     in case hs_Encode (extra_item
               \<lparr>Validators = AddressList valSet, EncodedQC = [], Seal = [], Salt = []\<rparr>) of
          Inl e \<Rightarrow> Inl e
        | Inr payload \<Rightarrow> Inr (take HotstuffExtraVanity (Extra hdr) @ payload, hdr))"

section \<open>Properties\<close>

lemma RecoverSigner_cached:
  assumes "RecoverSigner K w h s = (Inr a, s')" "world_ok w"
  shows "s_signatures s' (header_Hash K h) = Some a" "\<exists>m. s' = s\<lparr>s_signatures := m\<rparr>"
  using assms by (auto simp: RecoverSigner_def Let_def world_ok_def split: option.splits sum.splits
      intro: exI [of _ "s_signatures s"])

lemma AuthQC_signatures [simp]: "AuthQC K (s\<lparr>s_signatures := m\<rparr>) qc = AuthQC K s qc"
  by (simp add: AuthQC_def BLSVerifyAggSig_def Let_def)

text \<open>What the signer has checked of a header it accepts, when the signer of the header is in its cache.\<close>

lemma signer_VerifyHeader_accepts:
  assumes "signer_VerifyHeader K w h vs seal s = (None, s')" "big_Uint64 (Number h) \<noteq> 0"
    and "s_signatures s (header_Hash K h) = Some a"
  shows "a = Coinbase h" "a \<in> set (validators vs)"
    "seal \<Longrightarrow> \<exists>x qc. ExtractHotstuffExtra h = Inr x \<and> DecodeBytes decodeQC (EncodedQC x) = Inr qc \<and>
       AuthQC K s qc = None"
  using assms by (auto simp: signer_VerifyHeader_def RecoverSigner_def split: if_splits sum.splits)

text \<open>C35. The signer of a header is remembered under the hash of the header, which does not cover the
  seal. After one recovery, any header with the same hash is attributed to the same signer, whatever
  its seal is.\<close>

theorem recovered_signer_ignores_seal:
  assumes "RecoverSigner K w h s = (Inr a, s')" "world_ok w" "header_Hash K h' = header_Hash K h"
  shows "RecoverSigner K w h' s' = (Inr a, s')"
  using RecoverSigner_cached(1) [OF assms(1,2)] assms(3) by (simp add: RecoverSigner_def Let_def)

definition example_world :: world where
  "example_world =
    \<lparr>w_now = 6, w_currentBlock = genesis_block,
     w_GetHeader = (\<lambda>h n. if n = 0 then Some genesis_header else None), w_hasBadBlock = (\<lambda>h. False),
     w_ExecuteBlock = (\<lambda>b. Inr (0, 0, 0)), w_FindPeer = (\<lambda>a. True), w_dbPut = (\<lambda>key. None),
     w_floatOverflow = - (2 ^ 63), w_range_msgs = (\<lambda>ms. ms), w_range_addrs = (\<lambda>as. as),
     w_sig_Add = (\<lambda>k v m. m(k \<mapsto> v)), w_known_Add = insert, w_recent_Add = (\<lambda>k v m. m(k \<mapsto> v))\<rparr>"

lemma example_world_ok: "world_ok example_world"
  by (simp add: world_ok_def example_world_def)

definition example_signer :: signer where
  "example_signer =
    \<lparr>s_address = example_validator, s_privateKey = Some [], s_signatures = Map.empty,
     s_blsPubPoly = [], s_blsPrivKey = [], s_t = 1, s_n = 1\<rparr>"

text \<open>The child of the genesis block with another seal.\<close>

definition resealed_header :: Header where
  "resealed_header = next_header\<lparr>Extra := replicate 32 0 @ enc (extra_item
     \<lparr>Validators = [example_validator], EncodedQC = [], Seal = replicate 65 0, Salt = []\<rparr>)\<rparr>"

theorem recovered_signer_ignores_seal_witness:
  "\<exists>s. RecoverSigner example_crypto example_world next_header example_signer = (Inr example_validator, s) \<and>
     RecoverSigner example_crypto example_world resealed_header s = (Inr example_validator, s)"
proof -
  have h: "header_Hash example_crypto resealed_header = header_Hash example_crypto next_header" by code_simp
  have "fst (RecoverSigner example_crypto example_world next_header example_signer) = Inr example_validator"
    by code_simp
  then obtain s where "RecoverSigner example_crypto example_world next_header example_signer =
      (Inr example_validator, s)" by (metis prod.collapse)
  from recovered_signer_ignores_seal [OF this example_world_ok h] this show ?thesis by blast
qed

end
