(* ===== verification/Backend.thy ===== *)
theory Backend
  imports Signer
begin

text \<open>
  The consensus engine around the protocol, \<open>consensus/hotstuff/backend\<close>: sending messages to
  peers, sealing and committing blocks, verifying headers and proposals, preparing and sealing
  new blocks for the miner, and the handler of incoming peer messages.

  Everything the engine sends is an \<open>effect\<close>: an event posted to the node's own event
  queue, a message handed to a peer, a block given to the chain or to the miner, a timer.
  \<open>BLSSigned\<close> records each call of \<open>BLSSign\<close> by the protocol with the bytes it signs.

  The validator set of the backend and the one of the protocol core are one object in the
  code. The backend only ever copies it, and a copy depends on the members and the policy
  and not on the current proposer, so \<open>b_valset\<close> is a value of its own here.
\<close>

section \<open>Effects and state\<close>

record ExecutedBlock =
  eb_State :: "nat option"
  eb_Block :: "Block option"
  eb_Receipts :: "nat option"
  eb_Logs :: "nat option"

datatype effect =
    PostMessage address bytes
  | PostRequest Block
  | PostBacklog Message
  | PostFinalCommitted Header
  | SendConsensus address bytes
  | BLSSigned bytes
  | FeedExecuted ExecutedBlock
  | CommitChannel Block
  | EnqueueBlock Block
  | SleepUntil u64
  | StopTimer
  | StartTimer int

record config =
  RequestTimeout :: u64
  BlockPeriod :: u64

record backend =
  b_config :: config
  b_valset :: defaultSet
  b_signer :: signer
  b_started :: bool
  b_hasCurrentBlock :: bool
  b_hasBadBlock :: bool
  b_broadcaster :: bool
  b_knownMessages :: "hash set"
  b_recentMessages :: "address \<rightharpoonup> hash set"
  b_proposedBlockHash :: hash

definition backend_Address :: "backend \<Rightarrow> address" where
  "backend_Address b = s_address (b_signer b)"

definition snap :: "crypto \<Rightarrow> backend \<Rightarrow> defaultSet" where
  "snap K b = vs_Copy K (b_valset b)"

section \<open>Sending\<close>

definition RLPHash_bytes :: "crypto \<Rightarrow> bytes \<Rightarrow> hash" where
  "RLPHash_bytes K payload = rlpHash K (Str payload)"

text \<open>One peer of \<open>Gossip\<close>: a peer that already has the message is skipped.\<close>

definition gossip_peer ::
  "world \<Rightarrow> hash \<Rightarrow> bytes \<Rightarrow> address \<Rightarrow> backend \<times> effect list \<Rightarrow> backend \<times> effect list" where
  "gossip_peer w h payload addr st =
    (case st of (b, out) \<Rightarrow>
       (case b_recentMessages b addr of
          Some m \<Rightarrow>
            if h \<in> m then (b, out)
            else (b\<lparr>b_recentMessages := w_recent_Add w addr (w_known_Add w h m) (b_recentMessages b)\<rparr>,
                  out @ [SendConsensus addr payload])
        | None \<Rightarrow>
            (b\<lparr>b_recentMessages := w_recent_Add w addr (w_known_Add w h {}) (b_recentMessages b)\<rparr>,
             out @ [SendConsensus addr payload])))"

definition Gossip ::
  "crypto \<Rightarrow> world \<Rightarrow> defaultSet \<Rightarrow> bytes \<Rightarrow> backend \<Rightarrow> backend \<times> effect list" where
  "Gossip K w valSet payload b =
    (let h = RLPHash_bytes K payload;
         b = b\<lparr>b_knownMessages := w_known_Add w h (b_knownMessages b)\<rparr>;
         targets = remdups (filter (\<lambda>a. a \<noteq> backend_Address b) (validators valSet))
     in if b_broadcaster b \<and> length targets > 0
        then fold (gossip_peer w h payload) (w_range_addrs w (filter (w_FindPeer w) targets)) (b, [])
        else (b, []))"

definition Broadcast ::
  "crypto \<Rightarrow> world \<Rightarrow> defaultSet \<Rightarrow> bytes \<Rightarrow> backend \<Rightarrow> backend \<times> effect list" where
  "Broadcast K w valSet payload b =
    (case Gossip K w valSet payload b of
       (b, out) \<Rightarrow> (b, out @ [PostMessage (backend_Address b) payload]))"

text \<open>\<open>Unicast\<close> dereferences the proposer, which is nil under the VRF policy.\<close>

definition Unicast ::
  "crypto \<Rightarrow> world \<Rightarrow> defaultSet \<Rightarrow> bytes \<Rightarrow> backend \<Rightarrow> (backend \<times> effect list) option" where
  "Unicast K w valSet payload b =
    (case proposer valSet of
       None \<Rightarrow> None
     | Some target \<Rightarrow>
         let h = RLPHash_bytes K payload;
             b = b\<lparr>b_knownMessages := w_known_Add w h (b_knownMessages b)\<rparr>
         in Some (if backend_Address b = target then (b, [PostMessage (backend_Address b) payload])
                  else if b_broadcaster b \<and> w_FindPeer w target
                  then gossip_peer w h payload target (b, [])
                  else (b, [])))"

section \<open>Sealing and committing\<close>

definition SealBlock :: "Block \<Rightarrow> QuorumCert \<Rightarrow> err + Block" where
  "SealBlock block commitQC =
    (case hs_Encode (qc_item commitQC) of
       Inl e \<Rightarrow> Inl e
     | Inr encodedQC \<Rightarrow>
         (case SetEncodedQC encodedQC (block_Header block) of
            Inl e \<Rightarrow> Inl e
          | Inr h \<Rightarrow> Inr (WithSeal block h)))"

definition backend_Commit ::
  "crypto \<Rightarrow> ExecutedBlock \<Rightarrow> backend \<Rightarrow> err option \<times> effect list" where
  "backend_Commit K executed b =
    (case eb_Block executed of
       None \<Rightarrow> (Some (Errorf ''invalid executed block''), [])
     | Some block \<Rightarrow>
         (None, FeedExecuted executed #
           (if b_proposedBlockHash b = block_Hash K block then [CommitChannel block]
            else if b_broadcaster b then [EnqueueBlock block] else [])))"

definition backend_ExecuteBlock :: "world \<Rightarrow> Block \<Rightarrow> err + ExecutedBlock" where
  "backend_ExecuteBlock w block =
    (case w_ExecuteBlock w block of
       Inl e \<Rightarrow> Inl e
     | Inr (st, receipts, logs) \<Rightarrow>
         Inr \<lparr>eb_State = Some st, eb_Block = Some block, eb_Receipts = Some receipts,
              eb_Logs = Some logs\<rparr>)"

section \<open>Verifying headers and proposals\<close>

definition defaultDifficulty :: int where "defaultDifficulty = 1"

definition nilUncleHash :: "crypto \<Rightarrow> hash" where
  "nilUncleHash K = CalcUncleHash K []"

definition verifyHeader ::
  "crypto \<Rightarrow> world \<Rightarrow> Header \<Rightarrow> Header list \<Rightarrow> bool \<Rightarrow> backend \<Rightarrow> err option \<times> backend" where
  "verifyHeader K w hdr parents seal b =
    (if MixDigest hdr \<noteq> HotstuffDigest then (Some ErrInvalidMixDigest, b)
     else if UncleHash hdr \<noteq> nilUncleHash K then (Some ErrInvalidUncleHash, b)
     else if big_Cmp (Difficulty hdr) defaultDifficulty \<noteq> 0 then (Some ErrInvalidDifficulty, b)
     else let number = big_Uint64 (Number hdr) in
       if number = 0 then (None, b)
       else let parent = (if length parents > 0 then Some (last parents)
                          else w_GetHeader w (ParentHash hdr) (number - 1)) in
         case parent of
           None \<Rightarrow> (Some ErrUnknownAncestor, b)
         | Some p \<Rightarrow>
             if big_Uint64 (Number p) \<noteq> number - 1 \<or> header_Hash K p \<noteq> ParentHash hdr
             then (Some ErrUnknownAncestor, b)
             else if Time hdr > w_now w then (Some ErrInvalidTimestamp, b)
             else if Time hdr < Time p + BlockPeriod (b_config b) then (Some ErrInvalidTimestamp, b)
             else case RecoverSigner K w hdr (b_signer b) of
               (Inl e, s) \<Rightarrow> (Some e, b\<lparr>b_signer := s\<rparr>)
             | (Inr _, s) \<Rightarrow>
                 (case signer_VerifyHeader K w hdr (vs_Copy K (snap K b)) seal s of
                    (r, s) \<Rightarrow> (r, b\<lparr>b_signer := s\<rparr>)))"

definition backend_VerifyHeader ::
  "crypto \<Rightarrow> world \<Rightarrow> Header \<Rightarrow> bool \<Rightarrow> backend \<Rightarrow> err option \<times> backend" where
  "backend_VerifyHeader K w hdr seal b = verifyHeader K w hdr [] seal b"

fun verifyHeaders_from ::
  "crypto \<Rightarrow> world \<Rightarrow> Header list \<Rightarrow> (Header \<times> bool) list \<Rightarrow> backend \<Rightarrow> err option list \<times> backend" where
  "verifyHeaders_from K w done [] b = ([], b)"
| "verifyHeaders_from K w done ((hdr, seal) # rest) b =
     (case verifyHeader K w hdr done seal b of
        (r, b) \<Rightarrow> (case verifyHeaders_from K w (done @ [hdr]) rest b of (rs, b) \<Rightarrow> (r # rs, b)))"

definition VerifyHeaders ::
  "crypto \<Rightarrow> world \<Rightarrow> Header list \<Rightarrow> bool list \<Rightarrow> backend \<Rightarrow> err option list \<times> backend" where
  "VerifyHeaders K w hdrs seals b =
    verifyHeaders_from K w []
      (map (\<lambda>(i, h). (h, if i < length seals then seals ! i else False)) (List.enumerate 0 hdrs)) b"

definition VerifyUncles :: "Block \<Rightarrow> err option" where
  "VerifyUncles block = (if length (uncles block) > 0 then Some ErrInvalidUncleHash else None)"

definition HasBadProposal :: "world \<Rightarrow> hash \<Rightarrow> backend \<Rightarrow> bool" where
  "HasBadProposal w h b \<longleftrightarrow> b_hasBadBlock b \<and> w_hasBadBlock w h"

definition Verify :: "crypto \<Rightarrow> world \<Rightarrow> Block \<Rightarrow> backend \<Rightarrow> err option \<times> backend" where
  "Verify K w block b =
    (if HasBadProposal w (block_Hash K block) b then (Some ErrBlacklistedHash, b)
     else if DeriveSha K (transactions block) \<noteq> TxHash (block_Header block)
     then (Some ErrMismatchTxhashes, b)
     else if CalcUncleHash K (uncles block) \<noteq> nilUncleHash K then (Some ErrInvalidUncleHash, b)
     else backend_VerifyHeader K w (block_Header block) False b)"

definition Author :: "crypto \<Rightarrow> world \<Rightarrow> Header \<Rightarrow> backend \<Rightarrow> (err + address) \<times> backend" where
  "Author K w hdr b =
    (case RecoverSigner K w hdr (b_signer b) of (r, s) \<Rightarrow> (r, b\<lparr>b_signer := s\<rparr>))"

definition LastProposal ::
  "crypto \<Rightarrow> world \<Rightarrow> backend \<Rightarrow> (Block option \<times> address) \<times> backend" where
  "LastProposal K w b =
    (if \<not> b_hasCurrentBlock b then ((None, EmptyAddress), b)
     else let block = w_currentBlock w in
       if big_Cmp (block_Number block) 0 > 0 then
         (case Author K w (block_Header block) b of
            (Inl _, b) \<Rightarrow> ((None, EmptyAddress), b)
          | (Inr p, b) \<Rightarrow> ((Some block, p), b))
       else ((Some block, EmptyAddress), b))"

definition HasProposal :: "world \<Rightarrow> hash \<Rightarrow> int \<Rightarrow> bool" where
  "HasProposal w h number \<longleftrightarrow> w_GetHeader w h (big_Uint64 number) \<noteq> None"

section \<open>Preparing and sealing a block for the miner\<close>

definition emptyNonce :: bytes where "emptyNonce = replicate 8 0"

definition Prepare :: "crypto \<Rightarrow> world \<Rightarrow> Header \<Rightarrow> backend \<Rightarrow> err option \<times> Header" where
  "Prepare K w hdr b =
    (let hdr = hdr\<lparr>Coinbase := backend_Address b, Nonce := emptyNonce, MixDigest := HotstuffDigest\<rparr>;
         number = big_Uint64 (Number hdr)
     in case w_GetHeader w (ParentHash hdr) (number - 1) of
          None \<Rightarrow> (Some ErrUnknownAncestor, hdr)
        | Some parent \<Rightarrow>
            let hdr = hdr\<lparr>Difficulty := defaultDifficulty\<rparr> in
            case BuildPrepareExtra hdr (snap K b) of
              Inl e \<Rightarrow> (Some e, hdr)
            | Inr (extra, hdr) \<Rightarrow>
                let hdr = hdr\<lparr>Extra := extra, Time := Time parent + BlockPeriod (b_config b)\<rparr>
                in (None, if Time hdr < w_now w then hdr\<lparr>Time := w_now w\<rparr> else hdr))"

text \<open>\<open>Seal\<close> signs the block and hands it to the protocol; the goroutine then waits for the block
  on the commit channel. \<open>Seal_result\<close> is one iteration of that wait.\<close>

definition backend_Seal ::
  "crypto \<Rightarrow> world \<Rightarrow> Block \<Rightarrow> backend \<Rightarrow> (err + Block) \<times> backend \<times> effect list" where
  "backend_Seal K w block b =
    (let hdr = block_Header block; number = big_Uint64 (Number hdr) in
     if snd (GetByAddress (snap K b) (backend_Address b)) = None then (Inl ErrUnauthorized, b, [])
     else case w_GetHeader w (ParentHash hdr) (number - 1) of
       None \<Rightarrow> (Inl ErrUnknownAncestor, b, [])
     | Some _ \<Rightarrow>
         (case SignerSeal K (b_signer b) hdr of
            Inl e \<Rightarrow> (Inl e, b, [])
          | Inr hdr \<Rightarrow>
              let block = WithSeal block hdr
              in (Inr block, b\<lparr>b_proposedBlockHash := block_Hash K block\<rparr>, [PostRequest block])))"

definition Seal_result :: "crypto \<Rightarrow> Block \<Rightarrow> Block option \<Rightarrow> backend \<Rightarrow> Block option \<times> backend" where
  "Seal_result K block result b =
    (case result of
       Some r \<Rightarrow>
         if block_Hash K block = block_Hash K r
         then (Some r, b\<lparr>b_proposedBlockHash := EmptyHash\<rparr>) else (None, b)
     | None \<Rightarrow> (None, b))"

section \<open>Peer messages\<close>

definition hotstuffMsg :: nat where "hotstuffMsg = 0x11"

text \<open>A peer message is decoded from a stream of its size; bytes after the value are not looked at.\<close>

definition msg_Decode :: "'a sm \<Rightarrow> bytes \<Rightarrow> rlp_err + 'a" where
  "msg_Decode dec payload = fst (dec (stream_Reset payload))"

text \<open>The branch of \<open>HandleMsg\<close> for consensus messages.\<close>

definition HandleMsg_hotstuff ::
  "crypto \<Rightarrow> world \<Rightarrow> address \<Rightarrow> bytes \<Rightarrow> backend \<Rightarrow> err option \<times> backend \<times> effect list" where
  "HandleMsg_hotstuff K w addr payload b =
    (if \<not> b_started b then (Some ErrStoppedEngine, b, [])
     else case msg_Decode decodeByteSlice payload of
       Inl _ \<Rightarrow> (Some ErrDecodeFailed, b, [])
     | Inr data \<Rightarrow>
         let h = RLPHash_bytes K data;
             b = (case b_recentMessages b addr of
                    Some m \<Rightarrow> b\<lparr>b_recentMessages := (b_recentMessages b)(addr \<mapsto> w_known_Add w h m)\<rparr>
                  | None \<Rightarrow> b\<lparr>b_recentMessages :=
                      w_recent_Add w addr (w_known_Add w h {}) (b_recentMessages b)\<rparr>)
         in if h \<in> b_knownMessages b then (None, b, [])
            else (None, b\<lparr>b_knownMessages := w_known_Add w h (b_knownMessages b)\<rparr>,
                  [PostMessage addr data]))"

definition NewChainHead :: "Header \<Rightarrow> backend \<Rightarrow> err option \<times> effect list" where
  "NewChainHead hdr b =
    (if \<not> b_started b then (Some ErrStoppedEngine, []) else (None, [PostFinalCommitted hdr]))"

section \<open>Properties\<close>

text \<open>C33. Sealing a block with a commit certificate writes the certificate into the extra-data and keeps
  the hash of the block, its uncles and its transactions.\<close>

theorem sealing_keeps_hash:
  assumes "SealBlock b qc = Inr s" "MixDigest (header b) = HotstuffDigest"
    and "\<And>x q. ExtractHotstuffExtra (header b) = Inr x \<Longrightarrow> hs_Encode (qc_item qc) = Inr q \<Longrightarrow>
      length (enc (extra_item (x\<lparr>EncodedQC := q\<rparr>))) < 2 ^ 64"
  shows "block_Hash K s = block_Hash K b \<and> uncles s = uncles b \<and> transactions s = transactions b \<and>
    (\<exists>x q. hs_Encode (qc_item qc) = Inr q \<and> ExtractHotstuffExtra (header s) = Inr x \<and> EncodedQC x = q)"
proof -
  obtain q h where q: "hs_Encode (qc_item qc) = Inr q" "SetEncodedQC q (header b) = Inr h" "s = WithSeal b h"
    using assms(1) by (auto simp: SealBlock_def block_Header_def CopyHeader_def split: sum.splits)
  then obtain x where x: "ExtractHotstuffExtra (header b) = Inr x"
    by (auto simp: SetEncodedQC_def split: sum.splits)
  note r = SetEncodedQC_result [OF q(2) x assms(3) [OF x q(1)]]
  from reseals_Hash [OF r(2) assms(2), of K] r(1) q(1,3) show ?thesis
    by (simp add: block_Hash_def WithSeal_def)
qed

definition example_qc :: QuorumCert where
  "example_qc = \<lparr>qView = \<lparr>Round = 0, Height = 1\<rparr>, qCode = MsgTypeCommitVote, qProposedBlock = EmptyHash,
     qProposer = example_validator, qBLSSignature = [6]\<rparr>"

theorem sealing_keeps_hash_witness:
  "\<exists>s. SealBlock next_block example_qc = Inr s \<and>
     block_Hash example_crypto s = block_Hash example_crypto next_block \<and> s \<noteq> next_block"
proof -
  have "case SealBlock next_block example_qc of Inl e \<Rightarrow> False | Inr s \<Rightarrow> s \<noteq> next_block" by code_simp
  then obtain s where s: "SealBlock next_block example_qc = Inr s" "s \<noteq> next_block"
    by (auto split: sum.splits)
  have m: "MixDigest (header next_block) = HotstuffDigest"
    by (simp add: next_block_def next_header_def genesis_header_def)
  have "case ExtractHotstuffExtra (header next_block) of Inl e \<Rightarrow> True
    | Inr x \<Rightarrow> (case hs_Encode (qc_item example_qc) of Inl e \<Rightarrow> True
        | Inr q \<Rightarrow> length (enc (extra_item (x\<lparr>EncodedQC := q\<rparr>))) < 1000)" by code_simp
  then have "length (enc (extra_item (x\<lparr>EncodedQC := q\<rparr>))) < 2 ^ 64"
    if "ExtractHotstuffExtra (header next_block) = Inr x" "hs_Encode (qc_item example_qc) = Inr q" for x q
    using that by simp
  from sealing_keeps_hash [OF s(1) m this] s show ?thesis by blast
qed


definition example_committee :: defaultSet where
  "example_committee = \<lparr>validators = [example_validator], policy = RoundRobin, proposer = None\<rparr>"

definition example_backend :: backend where
  "example_backend =
    \<lparr>b_config = \<lparr>RequestTimeout = 10000, BlockPeriod = 1\<rparr>, b_valset = example_committee,
     b_signer = example_signer, b_started = True, b_hasCurrentBlock = True, b_hasBadBlock = False,
     b_broadcaster = False, b_knownMessages = {}, b_recentMessages = Map.empty,
     b_proposedBlockHash = EmptyHash\<rparr>"



text \<open>C36. A consensus message that has been handed to the core once is not handed to it again while it is
  in the cache of known messages, whichever peer sends it.\<close>

theorem peer_message_posted_once:
  assumes "HandleMsg_hotstuff K w addr payload b = (None, b', out)" "world_ok w"
  shows "snd (snd (HandleMsg_hotstuff K w' addr' payload b')) = []"
proof -
  obtain data where d: "b_started b" "msg_Decode decodeByteSlice payload = Inr data"
    using assms(1) by (auto simp: HandleMsg_hotstuff_def split: if_splits sum.splits)
  have "RLPHash_bytes K data \<in> b_knownMessages b'"
    using assms d by (auto simp: HandleMsg_hotstuff_def Let_def world_ok_def split: if_splits option.splits)
  with d(2) show ?thesis
    by (auto simp: HandleMsg_hotstuff_def Let_def split: if_splits option.splits)
qed

theorem peer_message_posted_once_witness:
  "\<exists>b out. HandleMsg_hotstuff example_crypto example_world [1] [0x82, 3, 4] example_backend = (None, b, out) \<and>
     out = [PostMessage [1] [3, 4]] \<and>
     snd (snd (HandleMsg_hotstuff example_crypto example_world [2] [0x82, 3, 4] b)) = []"
proof -
  have h: "fst (HandleMsg_hotstuff example_crypto example_world [1] [0x82, 3, 4] example_backend) = None"
    "snd (snd (HandleMsg_hotstuff example_crypto example_world [1] [0x82, 3, 4] example_backend)) =
      [PostMessage [1] [3, 4]]" by code_simp+
  then obtain b where b: "HandleMsg_hotstuff example_crypto example_world [1] [0x82, 3, 4] example_backend =
      (None, b, [PostMessage [1] [3, 4]])" by (metis prod.collapse)
  from peer_message_posted_once [OF b example_world_ok] b show ?thesis by blast
qed

end
