(* ===== verification/Message_Set.thy ===== *)
theory Message_Set
  imports Backend "HOL-Library.AList"
begin

text \<open>
  The sets of votes a leader collects, \<open>core/message_set.go\<close>: at most one message per
  validator, a later message of the same validator replacing the earlier one.

  The locale \<open>message_store\<close> is the contract the vote counting relies on: the size of the set is
  the number of distinct validators heard from.
\<close>

record MessageSet =
  ms_view :: View
  ms_vs :: defaultSet
  ms_msgs :: "(address \<times> Message) list"

definition NewMessageSet :: "defaultSet \<Rightarrow> MessageSet" where
  "NewMessageSet valSet = \<lparr>ms_view = \<lparr>Round = 0, Height = 0\<rparr>, ms_vs = valSet, ms_msgs = []\<rparr>"

definition ms_Add :: "Message \<Rightarrow> MessageSet \<Rightarrow> err option \<times> MessageSet" where
  "ms_Add msg s =
    (let (index, v) = GetByAddress (ms_vs s) (mAddress msg) in
     if index < 0 \<or> v = None then (Some (Errorf ''unauthorized address''), s)
     else (None, s\<lparr>ms_msgs := AList.update (mAddress msg) msg (ms_msgs s)\<rparr>))"

definition ms_Values :: "world \<Rightarrow> MessageSet \<Rightarrow> Message list" where
  "ms_Values w s = w_range_msgs w (map snd (ms_msgs s))"

definition ms_Size :: "MessageSet \<Rightarrow> int" where
  "ms_Size s = int (length (ms_msgs s))"

definition ms_Get :: "MessageSet \<Rightarrow> address \<Rightarrow> Message option" where
  "ms_Get s addr = map_of (ms_msgs s) addr"

section \<open>The contract\<close>

locale message_store =
  fixes new :: "'c \<Rightarrow> 's" and add :: "'m \<Rightarrow> 's \<Rightarrow> 's" and lookup :: "'s \<Rightarrow> 'v \<rightharpoonup> 'm"
    and sizeof :: "'s \<Rightarrow> nat" and invar :: "'c \<Rightarrow> 's \<Rightarrow> bool" and sender :: "'m \<Rightarrow> 'v"
    and members :: "'c \<Rightarrow> 'v set"
  assumes invar_new: "invar c (new c)"
    and lookup_new: "lookup (new c) = Map.empty"
    and invar_add: "invar c s \<Longrightarrow> invar c (add m s)"
    and lookup_add: "invar c s \<Longrightarrow>
      lookup (add m s) = (if sender m \<in> members c then (lookup s)(sender m \<mapsto> m) else lookup s)"
    and sizeof_card: "invar c s \<Longrightarrow> sizeof s = card (dom (lookup s))"
begin

lemma dom_fold_add:
  "invar c s \<Longrightarrow> invar c (fold add ms s) \<and>
     dom (lookup (fold add ms s)) = dom (lookup s) \<union> (sender ` set ms \<inter> members c)"
  by (induction ms arbitrary: s) (auto simp: invar_add lookup_add)

lemma size_fold_add: "sizeof (fold add ms (new c)) = card (sender ` set ms \<inter> members c)"
  using dom_fold_add [OF invar_new, of c ms] sizeof_card [of c "fold add ms (new c)"]
  by (simp add: lookup_new)

end

section \<open>The set implements the contract\<close>

definition ms_invar :: "defaultSet \<Rightarrow> MessageSet \<Rightarrow> bool" where
  "ms_invar vs s \<longleftrightarrow> ms_vs s = vs \<and> distinct (map fst (ms_msgs s))
     \<and> (\<forall>(a, m) \<in> set (ms_msgs s). mAddress m = a \<and> a \<in> set (validators vs))"

lemma ms_Add_eq:
  "ms_Add m s = (if mAddress m \<in> set (validators (ms_vs s))
     then (None, s\<lparr>ms_msgs := AList.update (mAddress m) m (ms_msgs s)\<rparr>)
     else (Some (Errorf ''unauthorized address''), s))"
  using GetByAddress_fst [of "ms_vs s" "mAddress m"] GetByAddress_snd [of "ms_vs s" "mAddress m"]
  by (auto simp: ms_Add_def Let_def split: prod.split simp del: GetByAddress_fst GetByAddress_snd)

lemma ms_invar_new [simp]: "ms_invar vs (NewMessageSet vs)"
  by (simp add: ms_invar_def NewMessageSet_def)

lemma set_update_subset: "set (AList.update k v xs) \<subseteq> insert (k, v) (set xs)"
  by (induction xs) auto

lemma ms_invar_Add: "ms_invar vs s \<Longrightarrow> ms_invar vs (snd (ms_Add m s))"
  using set_update_subset [of "mAddress m" m "ms_msgs s"]
  by (auto simp: ms_invar_def ms_Add_eq distinct_update)

lemma ms_Size_card: "ms_invar vs s \<Longrightarrow> ms_Size s = int (card (dom (map_of (ms_msgs s))))"
  by (simp add: ms_invar_def ms_Size_def dom_map_of_conv_image_fst)
    (metis List.finite_set card_image distinct_card distinct_map length_map list.set_map)

interpretation ms: message_store NewMessageSet "\<lambda>m s. snd (ms_Add m s)" "\<lambda>s. map_of (ms_msgs s)"
  "\<lambda>s. nat (ms_Size s)" ms_invar mAddress "\<lambda>vs. set (validators vs)"
proof
  fix vs s m
  assume s: "ms_invar vs s"
  show "ms_invar vs (snd (ms_Add m s))" using s by (rule ms_invar_Add)
  show "map_of (ms_msgs (snd (ms_Add m s))) =
      (if mAddress m \<in> set (validators vs) then (map_of (ms_msgs s))(mAddress m \<mapsto> m)
       else map_of (ms_msgs s))"
    using s by (simp add: ms_Add_eq ms_invar_def update_conv')
  show "nat (ms_Size s) = card (dom (map_of (ms_msgs s)))" using ms_Size_card [OF s] by simp
qed (simp_all add: NewMessageSet_def ms_invar_def)

section \<open>Properties\<close>

text \<open>C27. However often messages are added, and in whatever order, the size of a vote set is the number of
  validators that sent one: nobody votes twice and only validators vote.\<close>

theorem votes_count_validators:
  "ms_Size (fold (\<lambda>m s. snd (ms_Add m s)) ms (NewMessageSet vs)) =
     int (card (mAddress ` set ms \<inter> set (validators vs)))"
proof -
  have "0 \<le> ms_Size s" for s by (simp add: ms_Size_def)
  with ms.size_fold_add [of ms vs] show ?thesis by (metis int_nat_eq)
qed

end
