(* ===== verification/Round_State.thy ===== *)
theory Round_State
  imports Message_Set
begin

text \<open>
  The state of a round, \<open>core/round_state.go\<close>, and its snapshot in the database. An
  operation that writes to the database takes the store and the round state and returns
  both: the store is shared with the core and outlives the round state. A nil database
  makes every store and load a no-op.
\<close>

type_synonym database = "(string \<rightharpoonup> bytes) option"

record roundState =
  rs_vs :: defaultSet
  rs_round :: int
  rs_height :: int
  rs_state :: State
  lastChainedBlock :: Block
  pendingRequest :: "Request option"
  node :: "ProposedBlock option"
  lockedBlock :: "Block option"
  executed :: "ExecutedBlock option"
  proposalLocked :: bool
  newViews :: MessageSet
  prepareVotes :: MessageSet
  preCommitVotes :: MessageSet
  commitVotes :: MessageSet
  highQC :: "QuorumCert option"
  prepareQC :: "QuorumCert option"
  lockQC :: "QuorumCert option"
  committedQC :: "QuorumCert option"

definition newRoundState :: "crypto \<Rightarrow> defaultSet \<Rightarrow> Block \<Rightarrow> View \<Rightarrow> roundState" where
  "newRoundState K validatorSet lastBlock view =
    \<lparr>rs_vs = vs_Copy K validatorSet, rs_round = Round view, rs_height = Height view,
     rs_state = StateAcceptRequest, lastChainedBlock = lastBlock, pendingRequest = None,
     node = Some \<lparr>Parent = EmptyHash, pb_Block = None\<rparr>, lockedBlock = None, executed = None,
     proposalLocked = False, newViews = NewMessageSet validatorSet,
     prepareVotes = NewMessageSet validatorSet, preCommitVotes = NewMessageSet validatorSet,
     commitVotes = NewMessageSet validatorSet, highQC = None, prepareQC = None, lockQC = None,
     committedQC = None\<rparr>"

definition rs_update :: "crypto \<Rightarrow> defaultSet \<Rightarrow> Block \<Rightarrow> View \<Rightarrow> roundState \<Rightarrow> roundState" where
  "rs_update K vs lastBlock view s =
    s\<lparr>rs_vs := vs_Copy K vs, rs_height := Height view, rs_round := Round view,
      lastChainedBlock := lastBlock, newViews := NewMessageSet vs, prepareVotes := NewMessageSet vs,
      preCommitVotes := NewMessageSet vs, commitVotes := NewMessageSet vs\<rparr>"

definition rs_View :: "roundState \<Rightarrow> View" where
  "rs_View s = \<lparr>Round = rs_round s, Height = rs_height s\<rparr>"

definition rs_HeightU64 :: "roundState \<Rightarrow> u64" where
  "rs_HeightU64 s = big_Uint64 (rs_height s)"

definition rs_RoundU64 :: "roundState \<Rightarrow> u64" where
  "rs_RoundU64 s = big_Uint64 (rs_round s)"

definition SetPendingRequest :: "Request \<Rightarrow> roundState \<Rightarrow> roundState" where
  "SetPendingRequest req s = (if pendingRequest s = None then s\<lparr>pendingRequest := Some req\<rparr> else s)"

definition SetProposedBlock :: "ProposedBlock \<Rightarrow> roundState \<Rightarrow> err option \<times> roundState" where
  "SetProposedBlock n s =
    (if pb_Block n = None then (Some ErrInvalidNode, s) else (None, s\<lparr>node := Some n\<rparr>))"

definition LockedBlock :: "roundState \<Rightarrow> Block option" where
  "LockedBlock s = (if proposalLocked s then lockedBlock s else None)"

definition Unlock :: "roundState \<Rightarrow> roundState" where
  "Unlock s =
    s\<lparr>pendingRequest := None, proposalLocked := False, lockedBlock := None, node := None,
      executed := None\<rparr>"

section \<open>The snapshot\<close>

definition viewKey :: string where "viewKey = ''round-state-view''"
definition prepareQCKey :: string where "prepareQCKey = ''round-state-prepareQC''"
definition lockQCKey :: string where "lockQCKey = ''round-state-lockQC''"
definition commitQCKey :: string where "commitQCKey = ''round-state-commitQC''"
definition nodeKey :: string where "nodeKey = ''round-state-node''"

definition db_store :: "world \<Rightarrow> string \<Rightarrow> item \<Rightarrow> database \<Rightarrow> err option \<times> database" where
  "db_store w key x db =
    (case db of
       None \<Rightarrow> (None, db)
     | Some m \<Rightarrow>
         (case hs_Encode x of
            Inl e \<Rightarrow> (Some e, db)
          | Inr raw \<Rightarrow>
              (case w_dbPut w key of
                 Some e \<Rightarrow> (Some e, db)
               | None \<Rightarrow> (None, Some (m(key \<mapsto> raw))))))"

definition db_load :: "string \<Rightarrow> 'a sm \<Rightarrow> database \<Rightarrow> err + 'a option" where
  "db_load key dec db =
    (case db of
       None \<Rightarrow> Inr None
     | Some m \<Rightarrow>
         (case m key of
            None \<Rightarrow> Inl ErrNotFound
          | Some raw \<Rightarrow>
              (case DecodeBytes dec raw of Inl e \<Rightarrow> Inl (ErrRlp e) | Inr v \<Rightarrow> Inr (Some v))))"

definition storeView :: "world \<Rightarrow> View \<Rightarrow> database \<Rightarrow> err option \<times> database" where
  "storeView w v = db_store w viewKey (view_item v)"

definition storePrepareQC :: "world \<Rightarrow> QuorumCert \<Rightarrow> database \<Rightarrow> err option \<times> database" where
  "storePrepareQC w qc = db_store w prepareQCKey (qc_item qc)"

definition storeLockQC :: "world \<Rightarrow> QuorumCert \<Rightarrow> database \<Rightarrow> err option \<times> database" where
  "storeLockQC w qc = db_store w lockQCKey (qc_item qc)"

definition storeCommitQC :: "world \<Rightarrow> QuorumCert \<Rightarrow> database \<Rightarrow> err option \<times> database" where
  "storeCommitQC w qc = db_store w commitQCKey (qc_item qc)"

definition storeNode :: "world \<Rightarrow> ProposedBlock \<Rightarrow> database \<Rightarrow> err option \<times> database" where
  "storeNode w n = db_store w nodeKey (pb_item n)"

definition loadView :: "View \<Rightarrow> database \<Rightarrow> roundState \<Rightarrow> roundState" where
  "loadView cur db s =
    (case db_load viewKey decodeView db of
       Inr (Some view) \<Rightarrow>
         if View_Cmp view cur > 0 then s\<lparr>rs_height := Height view, rs_round := Round view\<rparr> else s
     | _ \<Rightarrow> s)"

definition loadPrepareQC :: "database \<Rightarrow> roundState \<Rightarrow> roundState" where
  "loadPrepareQC db s =
    (case db_load prepareQCKey decodeQC db of Inr (Some q) \<Rightarrow> s\<lparr>prepareQC := Some q\<rparr> | _ \<Rightarrow> s)"

definition loadLockQC :: "database \<Rightarrow> roundState \<Rightarrow> roundState" where
  "loadLockQC db s =
    (case db_load lockQCKey decodeQC db of Inr (Some q) \<Rightarrow> s\<lparr>lockQC := Some q\<rparr> | _ \<Rightarrow> s)"

definition loadCommitQC :: "database \<Rightarrow> roundState \<Rightarrow> roundState" where
  "loadCommitQC db s =
    (case db_load commitQCKey decodeQC db of Inr (Some q) \<Rightarrow> s\<lparr>committedQC := Some q\<rparr> | _ \<Rightarrow> s)"

definition loadNode :: "crypto \<Rightarrow> database \<Rightarrow> roundState \<Rightarrow> roundState" where
  "loadNode K db s =
    (case db_load nodeKey (decodePB K) db of Inr (Some n) \<Rightarrow> s\<lparr>node := Some n\<rparr> | _ \<Rightarrow> s)"

text \<open>\<open>reload\<close> reads the whole snapshot, logging what it cannot read, and restores the lock if the
  stored lock certificate is for the stored node.\<close>

definition reload :: "crypto \<Rightarrow> View \<Rightarrow> database \<Rightarrow> roundState \<Rightarrow> roundState" where
  "reload K view db s =
    (let s = loadNode K db (loadCommitQC db (loadLockQC db (loadPrepareQC db (loadView view db s))))
     in case (lockQC s, node s) of
          (Some q, Some n) \<Rightarrow>
            (case pb_Block n of
               Some b \<Rightarrow>
                 if Some (qProposedBlock q) = pb_Hash K n
                 then s\<lparr>lockedBlock := Some b, proposalLocked := True\<rparr> else s
             | None \<Rightarrow> s)
        | _ \<Rightarrow> s)"

section \<open>Certificates and locks\<close>

definition Lock :: "world \<Rightarrow> QuorumCert \<Rightarrow> database \<times> roundState \<Rightarrow> err option \<times> database \<times> roundState" where
  "Lock w qc st =
    (case st of (db, s) \<Rightarrow>
       (case node s of
          None \<Rightarrow> (Some ErrInvalidNode, db, s)
        | Some n \<Rightarrow>
            (case storeLockQC w qc db of
               (Some e, db) \<Rightarrow> (Some e, db, s)
             | (None, db) \<Rightarrow>
                 (case storeNode w n db of
                    (Some e, db) \<Rightarrow> (Some e, db, s)
                  | (None, db) \<Rightarrow>
                      (None, db, s\<lparr>lockQC := Some qc, lockedBlock := pb_Block n,
                        proposalLocked := True\<rparr>)))))"

definition SetPrepareQC ::
  "world \<Rightarrow> QuorumCert \<Rightarrow> database \<times> roundState \<Rightarrow> err option \<times> database \<times> roundState" where
  "SetPrepareQC w qc st =
    (case st of (db, s) \<Rightarrow>
       (case storePrepareQC w qc db of
          (Some e, db) \<Rightarrow> (Some e, db, s)
        | (None, db) \<Rightarrow> (None, db, s\<lparr>prepareQC := Some qc\<rparr>)))"

definition SetCommittedQC ::
  "world \<Rightarrow> QuorumCert \<Rightarrow> database \<times> roundState \<Rightarrow> err option \<times> database \<times> roundState" where
  "SetCommittedQC w qc st =
    (case st of (db, s) \<Rightarrow>
       (case storeCommitQC w qc db of
          (Some e, db) \<Rightarrow> (Some e, db, s)
        | (None, db) \<Rightarrow> (None, db, s\<lparr>committedQC := Some qc\<rparr>)))"

definition reseal_executed :: "crypto \<Rightarrow> Block \<Rightarrow> ExecutedBlock option \<Rightarrow> ExecutedBlock option" where
  "reseal_executed K block ex =
    (case ex of
       None \<Rightarrow> None
     | Some e \<Rightarrow>
         (case eb_Block e of
            None \<Rightarrow> Some e
          | Some b \<Rightarrow>
              if block_Hash K b = block_Hash K block then Some (e\<lparr>eb_Block := Some block\<rparr>) else Some e))"

definition SetSealedBlock ::
  "crypto \<Rightarrow> world \<Rightarrow> Block \<Rightarrow> database \<times> roundState \<Rightarrow> err option \<times> database \<times> roundState" where
  "SetSealedBlock K w block st =
    (case st of (db, s) \<Rightarrow>
       (case node s of
          None \<Rightarrow> (Some (Errorf ''locked block is nil''), db, s)
        | Some n \<Rightarrow>
            (case pb_Block n of
               None \<Rightarrow> (Some (Errorf ''locked block is nil''), db, s)
             | Some nb \<Rightarrow>
                 if block_Hash K nb \<noteq> block_Hash K block
                 then (Some (Errorf ''node block not equal to multi-seal block''), db, s)
                 else let n = n\<lparr>pb_Block := Some block\<rparr>; s = s\<lparr>node := Some n\<rparr> in
                   case storeNode w n db of
                     (Some e, db) \<Rightarrow> (Some e, db, s)
                   | (None, db) \<Rightarrow>
                       (None, db, s\<lparr>lockedBlock := Some block,
                         executed := reseal_executed K block (executed s)\<rparr>))))"

text \<open>\<open>UnsignedVote\<close> asks the node for its hash, which panics if the node has no block.\<close>

definition UnsignedVote :: "crypto \<Rightarrow> MsgType \<Rightarrow> roundState \<Rightarrow> Vote option option" where
  "UnsignedVote K code s =
    (case node s of
       None \<Rightarrow> Some None
     | Some n \<Rightarrow>
         (case pb_Hash K n of
            None \<Rightarrow> None
          | Some h \<Rightarrow>
              if h = EmptyHash then Some None
              else Some (Some \<lparr>vCode = code, vView = rs_View s, vProposedBlock = h,
                               vBLSSignature = []\<rparr>)))"

section \<open>Properties\<close>

lemma db_store_load:
  assumes "db_store w key x (Some m) = (None, db)" "EncodeToBytes x = Some raw" "DecodeBytes dec raw = Inr v"
  shows "db_load key dec db = Inr (Some v)" "db = Some (m(key \<mapsto> raw))"
  using assms by (auto simp: db_store_def db_load_def hs_Encode_def split: option.splits)

lemma stored_lock_reloads:
  assumes "Lock w qc (Some m, s) = (None, db, s')" "node s = Some n" "pb_Block n = Some b"
    and "pb_Hash K n = Some (qProposedBlock qc)" "wf_qc qc" "wf_pb K n"
    and "length (enc (qc_item qc)) < 2 ^ 64" "length (enc (pb_item n)) < 2 ^ 64"
  shows "LockedBlock (reload K v db s0) = Some b" "LockedBlock s' = Some b"
    "lockQC (reload K v db s0) = Some qc" "node (reload K v db s0) = Some n"
    "\<exists>m'. db = Some m' \<and> m' viewKey = m viewKey"
proof -
  obtain m1 where st: "db_store w lockQCKey (qc_item qc) (Some m) = (None, Some m1)"
      "db_store w nodeKey (pb_item n) (Some m1) = (None, db)"
    and s': "s' = s\<lparr>lockQC := Some qc, lockedBlock := pb_Block n, proposalLocked := True\<rparr>"
    using assms(1,2)
    by (auto simp: Lock_def storeLockQC_def storeNode_def db_store_def split: prod.splits option.splits sum.splits)
  have q: "EncodeToBytes (qc_item qc) = Some (enc (qc_item qc))" "DecodeBytes decodeQC (enc (qc_item qc)) = Inr qc"
    by (rule qc.encode_ok [OF assms(5,7)], rule qc.decode_enc [OF assms(5,7)])
  have n: "EncodeToBytes (pb_item n) = Some (enc (pb_item n))" "DecodeBytes (decodePB K) (enc (pb_item n)) = Inr n"
    by (rule pb.encode_ok [OF assms(6,8)], rule pb.decode_enc [OF assms(6,8)])
  note s1 = db_store_load [OF st(1) q] and s2 = db_store_load [OF st(2) n]
  have "db_load lockQCKey decodeQC db = Inr (Some qc)"
    using s1 s2(2) by (simp add: db_load_def lockQCKey_def nodeKey_def)
  with s2(1) assms(3,4) show "LockedBlock (reload K v db s0) = Some b" "lockQC (reload K v db s0) = Some qc"
    "node (reload K v db s0) = Some n"
    by (auto simp: reload_def loadNode_def loadCommitQC_def loadLockQC_def Let_def LockedBlock_def
        split: option.split sum.split)
  show "LockedBlock s' = Some b" using assms(3) s' by (simp add: LockedBlock_def)
  show "\<exists>m'. db = Some m' \<and> m' viewKey = m viewKey"
    using s1(2) s2(2) by (simp add: viewKey_def lockQCKey_def nodeKey_def)
qed

text \<open>C26. The snapshot keeps a lock: when \<open>Lock\<close> has stored the certificate and the node, \<open>reload\<close> into any
  round state brings back the certificate, the node and the locked block.\<close>

theorem lock_is_reloaded:
  assumes "Lock w qc (Some m, s) = (None, db, s')" "node s = Some n" "pb_Block n = Some b"
    and "pb_Hash K n = Some (qProposedBlock qc)" "wf_qc qc" "wf_pb K n"
    and "length (enc (qc_item qc)) < 2 ^ 64" "length (enc (pb_item n)) < 2 ^ 64"
  shows "LockedBlock (reload K v db s0) = Some b \<and> LockedBlock s' = Some b \<and>
    lockQC (reload K v db s0) = Some qc \<and> node (reload K v db s0) = Some n"
  using stored_lock_reloads [OF assms] by simp

definition example_node :: ProposedBlock where
  "example_node = \<lparr>Parent = replicate 32 1, pb_Block = Some next_block\<rparr>"

definition example_lockQC :: QuorumCert where
  "example_lockQC = example_qc\<lparr>qProposedBlock := node_hash example_crypto (replicate 32 1) (block_Hash example_crypto next_block)\<rparr>"

lemma example_lock_wf: "wf_qc example_lockQC" "wf_pb example_crypto example_node"
  using wf_rlpHash [OF example_keccak_size] wf_example_headers
  by (simp_all add: example_lockQC_def example_qc_def wf_qc_def wf_view_def node_hash_def example_node_def
      wf_pb_def wf_block_def next_block_def genesis_block_def wf_lengths example_validator_def)

lemma example_lock_length:
  "length (enc (qc_item example_lockQC)) < 2 ^ 64" "length (enc (pb_item example_node)) < 2 ^ 64"
proof -
  have "length (enc (qc_item example_lockQC)) < 1000" "length (enc (pb_item example_node)) < 1000"
    by code_simp+
  then show "length (enc (qc_item example_lockQC)) < 2 ^ 64" "length (enc (pb_item example_node)) < 2 ^ 64"
    by simp_all
qed

theorem lock_is_reloaded_witness:
  "\<exists>db s'. Lock example_world example_lockQC (Some Map.empty,
       (newRoundState example_crypto example_committee genesis_block \<lparr>Round = 0, Height = 1\<rparr>)\<lparr>node := Some example_node\<rparr>) =
       (None, db, s') \<and>
     LockedBlock (reload example_crypto \<lparr>Round = 0, Height = 1\<rparr> db
       (newRoundState example_crypto example_committee genesis_block \<lparr>Round = 0, Height = 1\<rparr>)) = Some next_block"
proof -
  let ?s0 = "newRoundState example_crypto example_committee genesis_block \<lparr>Round = 0, Height = 1\<rparr>"
  let ?s = "?s0\<lparr>node := Some example_node\<rparr>"
  note wf = example_lock_wf and l = example_lock_length
  have "fst (Lock example_world example_lockQC (Some Map.empty, ?s)) = None"
    using qc.encode_ok [OF wf(1) l(1)] pb.encode_ok [OF wf(2) l(2)]
    by (simp add: Lock_def storeLockQC_def storeNode_def db_store_def hs_Encode_def example_world_def)
  then obtain db s' where lk: "Lock example_world example_lockQC (Some Map.empty, ?s) = (None, db, s')"
    by (metis prod.collapse)
  have n: "node ?s = Some example_node" "pb_Block example_node = Some next_block"
    "pb_Hash example_crypto example_node = Some (qProposedBlock example_lockQC)"
    by (simp_all add: example_node_def pb_Hash_def example_lockQC_def)
  from lock_is_reloaded [OF lk n wf l] lk show ?thesis by blast
qed

end
