(* ===== verification/Prque.thy ===== *)
theory Prque
  imports HS_Prelude
begin

text \<open>
  The priority queue of \<open>common/prque\<close>, which orders the backlog of future messages and the
  pending requests: Go's \<open>container/heap\<close> over the sortable stack of \<open>sstack.go\<close>.

  The queue of the model keeps the heap in a list, the array the stack stands for. The last
  part models the stack itself, an array cut into blocks of \<open>blockSize\<close> items with a
  pointer to the active block, and shows that pushing, popping, comparing and swapping in it
  are the list operations. The locale \<open>priority_queue\<close> is the contract that the backlog
  and the request queue rely on.
\<close>

section \<open>The heap of \<open>container/heap\<close>\<close>

type_synonym 'v entry = "'v \<times> int"

text \<open>A priority is an \<open>int64\<close>; with \<open>wrapAround\<close> two priorities are compared by the sign of
  their difference modulo \<open>2^64\<close>.\<close>

definition Less :: "bool \<Rightarrow> 'v entry list \<Rightarrow> nat \<Rightarrow> nat \<Rightarrow> bool" where
  "Less wrapAround xs i j \<longleftrightarrow>
    (let a = snd (xs ! i); b = snd (xs ! j)
     in if wrapAround then big_Int64 (a - b) > 0 else a > b)"

definition Swap :: "nat \<Rightarrow> nat \<Rightarrow> 'v list \<Rightarrow> 'v list" where
  "Swap i j xs = xs[i := xs ! j, j := xs ! i]"

function heap_up :: "bool \<Rightarrow> 'v entry list \<Rightarrow> nat \<Rightarrow> 'v entry list" where
  "heap_up wr xs j =
    (let i = (j - 1) div 2
     in if i = j \<or> \<not> Less wr xs j i then xs else heap_up wr (Swap i j xs) i)"
  by pat_completeness auto
termination
  by (relation "measure (\<lambda>(_, _, j). j)") auto

function heap_down :: "bool \<Rightarrow> 'v entry list \<Rightarrow> nat \<Rightarrow> nat \<Rightarrow> 'v entry list" where
  "heap_down wr xs i n =
    (let j1 = 2 * i + 1; j2 = j1 + 1
     in if j1 \<ge> n then xs
        else let j = (if j2 < n \<and> Less wr xs j2 j1 then j2 else j1)
             in if \<not> Less wr xs j i then xs else heap_down wr (Swap i j xs) j n)"
  by pat_completeness auto
termination
  by (relation "measure (\<lambda>(_, _, i, n). n - i)") (auto split: if_splits)

declare heap_up.simps [simp del] heap_down.simps [simp del]

section \<open>The queue\<close>

record 'v prque =
  cont :: "'v entry list"
  wrapAround :: bool

definition prque_New :: "'v prque" where
  "prque_New = \<lparr>cont = [], wrapAround = False\<rparr>"

definition prque_NewWrapAround :: "'v prque" where
  "prque_NewWrapAround = \<lparr>cont = [], wrapAround = True\<rparr>"

definition prque_Push :: "'v \<Rightarrow> int \<Rightarrow> 'v prque \<Rightarrow> 'v prque" where
  "prque_Push data priority q =
    (let xs = cont q @ [(data, priority)]
     in q\<lparr>cont := heap_up (wrapAround q) xs (length xs - 1)\<rparr>)"

definition prque_Peek :: "'v prque \<Rightarrow> 'v entry option" where
  "prque_Peek q = (case cont q of [] \<Rightarrow> None | x # _ \<Rightarrow> Some x)"

definition prque_Pop :: "'v prque \<Rightarrow> ('v entry \<times> 'v prque) option" where
  "prque_Pop q =
    (if cont q = [] then None
     else let n = length (cont q) - 1;
              xs = heap_down (wrapAround q) (Swap 0 n (cont q)) 0 n
          in Some (xs ! n, q\<lparr>cont := take n xs\<rparr>))"

definition prque_Empty :: "'v prque \<Rightarrow> bool" where
  "prque_Empty q \<longleftrightarrow> length (cont q) = 0"

definition prque_Size :: "'v prque \<Rightarrow> nat" where
  "prque_Size q = length (cont q)"

definition prque_Reset :: "'v prque \<Rightarrow> 'v prque" where
  "prque_Reset q = prque_New"

section \<open>Heap order\<close>

lemma length_Swap [simp]: "length (Swap i j xs) = length xs"
  by (simp add: Swap_def)

lemma mset_Swap [simp]: "i < length xs \<Longrightarrow> j < length xs \<Longrightarrow> mset (Swap i j xs) = mset xs"
  by (simp add: Swap_def mset_swap)

lemma nth_Swap:
  "i < length xs \<Longrightarrow> j < length xs \<Longrightarrow>
     Swap i j xs ! k = (if k = j then xs ! i else if k = i then xs ! j else xs ! k)"
  by (auto simp: Swap_def nth_list_update)

abbreviation prio :: "'v entry list \<Rightarrow> nat \<Rightarrow> int" where
  "prio xs k \<equiv> snd (xs ! k)"

abbreviation parent :: "nat \<Rightarrow> nat" where
  "parent k \<equiv> (k - 1) div 2"

lemma Less_False [simp]: "Less False xs i j \<longleftrightarrow> prio xs j < prio xs i"
  by (simp add: Less_def Let_def)

definition heap :: "'v entry list \<Rightarrow> nat \<Rightarrow> bool" where
  "heap xs n \<longleftrightarrow> (\<forall>k. 0 < k \<longrightarrow> k < n \<longrightarrow> prio xs k \<le> prio xs (parent k))"

text \<open>The invariant of \<open>heap_up\<close> at \<open>j\<close>: only the edge above \<open>j\<close> may be out of order, and the
  children of \<open>j\<close> are below its parent.\<close>

definition up_inv :: "'v entry list \<Rightarrow> nat \<Rightarrow> nat \<Rightarrow> bool" where
  "up_inv xs j n \<longleftrightarrow>
    (\<forall>k. 0 < k \<longrightarrow> k < n \<longrightarrow> k \<noteq> j \<longrightarrow> prio xs k \<le> prio xs (parent k)) \<and>
    (\<forall>k. 0 < k \<longrightarrow> k < n \<longrightarrow> parent k = j \<longrightarrow> 0 < j \<longrightarrow> prio xs k \<le> prio xs (parent j))"

lemma heap_up_props:
  "j < length xs \<Longrightarrow> length (heap_up wr xs j) = length xs \<and> mset (heap_up wr xs j) = mset xs"
proof (induction wr xs j rule: heap_up.induct)
  case (1 wr xs j)
  then have "parent j < length xs" by (simp add: div_less_iff_less_mult)
  with 1 show ?case by (subst (1 2) heap_up.simps) (auto simp: Let_def)
qed

lemma up_inv_step:
  assumes "up_inv xs j n" "j < n" "n = length xs" "0 < j" "i = parent j" "prio xs i < prio xs j"
  shows "up_inv (Swap i j xs) i n"
proof -
  let ?ys = "Swap i j xs"
  have ij: "i < j" "i < length xs" "j < length xs" using assms by auto
  have ys: "prio ?ys k = (if k = j then prio xs i else if k = i then prio xs j else prio xs k)" for k
    using ij by (simp add: nth_Swap)
  have up: "prio xs k \<le> prio xs (parent k)" if "0 < k" "k < n" "k \<noteq> j" for k
    using assms(1) that by (auto simp: up_inv_def)
  have sib: "prio xs k \<le> prio xs i" if "0 < k" "k < n" "parent k = j" for k
    using assms(1,4,5) that by (auto simp: up_inv_def)
  show ?thesis
    unfolding up_inv_def
  proof (intro conjI allI impI)
    fix k assume k: "0 < k" "k < n" "k \<noteq> i"
    show "prio ?ys k \<le> prio ?ys (parent k)"
    proof (cases "k = j")
      case True
      then show ?thesis using ij assms(6) unfolding True assms(5) [symmetric] ys by simp
    next
      case False
      then show ?thesis
        using up [OF k(1,2) False] sib [OF k(1,2)] assms(6) ij k(3) unfolding ys by auto
    qed
  next
    fix k assume k: "0 < k" "k < n" "parent k = i" "0 < i"
    have i: "prio xs i \<le> prio xs (parent i)" using up [OF k(4)] ij assms(3) by simp
    have p: "parent i \<noteq> j" "parent i \<noteq> i" using ij k(4) by auto
    show "prio ?ys k \<le> prio ?ys (parent i)"
    proof (cases "k = j")
      case True
      then show ?thesis using i p unfolding ys by simp
    next
      case False
      have "k \<noteq> i" using k by auto
      with False up [OF k(1,2) False] k(3) i p show ?thesis unfolding ys by simp
    qed
  qed
qed

lemma heap_up_heap:
  "up_inv xs j n \<Longrightarrow> j < n \<Longrightarrow> n = length xs \<Longrightarrow> heap (heap_up False xs j) n"
proof (induction False xs j rule: heap_up.induct)
  case (1 xs j)
  show ?case
  proof (cases "parent j = j \<or> \<not> Less False xs j (parent j)")
    case True
    then have "heap_up False xs j = xs" by (subst heap_up.simps) (simp add: Let_def)
    moreover have "prio xs j \<le> prio xs (parent j)" if "0 < j" using True that by auto
    ultimately show ?thesis using "1.prems"(1) by (auto simp: heap_def up_inv_def)
  next
    case False
    then have "0 < j" by (cases j) auto
    with False "1.prems" have "up_inv (Swap (parent j) j xs) (parent j) n"
      by (intro up_inv_step) auto
    moreover have "heap_up False xs j = heap_up False (Swap (parent j) j xs) (parent j)"
      using False by (subst heap_up.simps) (simp add: Let_def)
    ultimately show ?thesis using "1.hyps" [OF refl False] "1.prems" by auto
  qed
qed

text \<open>The invariant of \<open>heap_down\<close> at \<open>i\<close>: only the edges below \<open>i\<close> may be out of order, and the
  children of \<open>i\<close> are below its parent.\<close>

definition down_inv :: "'v entry list \<Rightarrow> nat \<Rightarrow> nat \<Rightarrow> bool" where
  "down_inv xs i n \<longleftrightarrow>
    (\<forall>k. 0 < k \<longrightarrow> k < n \<longrightarrow> parent k \<noteq> i \<longrightarrow> prio xs k \<le> prio xs (parent k)) \<and>
    (\<forall>k. 0 < k \<longrightarrow> k < n \<longrightarrow> parent k = i \<longrightarrow> 0 < i \<longrightarrow> prio xs k \<le> prio xs (parent i))"

definition child :: "bool \<Rightarrow> 'v entry list \<Rightarrow> nat \<Rightarrow> nat \<Rightarrow> nat" where
  "child wr xs i n =
    (if 2 * i + 2 < n \<and> Less wr xs (2 * i + 2) (2 * i + 1) then 2 * i + 2 else 2 * i + 1)"

lemma heap_down_unfold:
  "heap_down wr xs i n =
    (if 2 * i + 1 < n \<and> Less wr xs (child wr xs i n) i
     then heap_down wr (Swap i (child wr xs i n) xs) (child wr xs i n) n else xs)"
  by (subst heap_down.simps) (simp add: Let_def child_def not_le)

lemma child_bounds:
  assumes "2 * i + 1 < n"
  shows "child wr xs i n < n" "i < child wr xs i n" "parent (child wr xs i n) = i"
    "0 < child wr xs i n" "n - child wr xs i n < n - i"
  using assms by (auto simp: child_def)

lemma heap_down_props:
  "n \<le> length xs \<Longrightarrow> length (heap_down wr xs i n) = length xs \<and> mset (heap_down wr xs i n) = mset xs
     \<and> (\<forall>k \<ge> n. heap_down wr xs i n ! k = xs ! k)"
proof (induction "n - i" arbitrary: xs i rule: less_induct)
  case less
  show ?case
  proof (cases "2 * i + 1 < n \<and> Less wr xs (child wr xs i n) i")
    case True
    then have 1: "2 * i + 1 < n" by simp
    note b = child_bounds [OF 1, of wr xs]
    have "i < n" using 1 by simp
    with less.hyps [OF b(5), of "Swap i (child wr xs i n) xs"] less.prems b True show ?thesis
      by (subst (1 2 3) heap_down_unfold) (auto simp: nth_Swap)
  next
    case False
    then have "heap_down wr xs i n = xs"
      using heap_down_unfold [of wr xs i n] by (simp only: if_False)
    then show ?thesis by simp
  qed
qed

lemma parent_cases: "0 < k \<Longrightarrow> parent k = i \<Longrightarrow> k = 2 * i + 1 \<or> k = 2 * i + 2"
  by auto

lemma down_inv_step:
  assumes inv: "down_inv xs i n" and n: "n \<le> length xs" and j: "j < n" "0 < j" "parent j = i"
    and gt: "prio xs i < prio xs j"
    and big: "\<And>k. k < n \<Longrightarrow> 0 < k \<Longrightarrow> parent k = i \<Longrightarrow> prio xs k \<le> prio xs j"
  shows "down_inv (Swap i j xs) j n"
proof -
  let ?ys = "Swap i j xs"
  have ij: "i < j" "i < length xs" "j < length xs" using j n by auto
  have ys: "prio ?ys k = (if k = j then prio xs i else if k = i then prio xs j else prio xs k)" for k
    using ij by (simp add: nth_Swap)
  have dn: "prio xs k \<le> prio xs (parent k)" if "0 < k" "k < n" "parent k \<noteq> i" for k
    using inv that by (auto simp: down_inv_def)
  have gp: "prio xs k \<le> prio xs (parent i)" if "0 < k" "k < n" "parent k = i" "0 < i" for k
    using inv that by (auto simp: down_inv_def)
  show ?thesis
    unfolding down_inv_def
  proof (intro conjI allI impI)
    fix k assume k: "0 < k" "k < n" "parent k \<noteq> j"
    show "prio ?ys k \<le> prio ?ys (parent k)"
    proof (cases "parent k = i")
      case True
      with k have "k \<noteq> i" by auto
      with True big [OF k(2,1)] gt ij show ?thesis by (auto simp: ys)
    next
      case False
      then have "k \<noteq> j" using j by auto
      show ?thesis
      proof (cases "k = i")
        case True
        then have "parent k \<noteq> i" "parent k \<noteq> j" using False k by auto
        with True gp [OF j(2,1,3)] k(1) ij show ?thesis by (auto simp: ys)
      next
        case False': False
        with False \<open>k \<noteq> j\<close> dn [OF k(1,2) False] k(3) show ?thesis by (auto simp: ys)
      qed
    qed
  next
    fix k assume k: "0 < k" "k < n" "parent k = j" "0 < j"
    then have "k \<noteq> j" "k \<noteq> i" "parent k \<noteq> i" using ij by auto
    with dn [OF k(1,2)] k(3) j(3) ij show "prio ?ys k \<le> prio ?ys (parent j)" by (simp add: ys)
  qed
qed

lemma child_max:
  assumes "k < n" "0 < k" "parent k = i"
  shows "prio xs k \<le> prio xs (child False xs i n)"
  using parent_cases [OF assms(2,3)] assms(1) by (auto simp: child_def)

lemma heap_down_heap:
  "down_inv xs i n \<Longrightarrow> n \<le> length xs \<Longrightarrow> heap (heap_down False xs i n) n"
proof (induction "n - i" arbitrary: xs i rule: less_induct)
  case less
  let ?j = "child False xs i n"
  show ?case
  proof (cases "2 * i + 1 < n \<and> Less False xs ?j i")
    case True
    then have 1: "2 * i + 1 < n" by simp
    note b = child_bounds [OF 1, of False xs]
    have "down_inv (Swap i ?j xs) ?j n"
      using True less.prems b child_max by (intro down_inv_step) auto
    with less.hyps [OF b(5)] less.prems True show ?thesis
      by (subst heap_down_unfold) simp
  next
    case False
    then have "heap_down False xs i n = xs"
      using heap_down_unfold [of False xs i n] by (simp only: if_False)
    moreover have "prio xs k \<le> prio xs i" if "0 < k" "k < n" "parent k = i" for k
    proof -
      have "2 * i + 1 < n" using that parent_cases [OF that(1,3)] by auto
      with False have "prio xs ?j \<le> prio xs i" by simp
      with child_max [OF that(2,1,3)] show ?thesis by (rule order_trans)
    qed
    ultimately show ?thesis using less.prems(1) by (auto simp: heap_def down_inv_def)
  qed
qed

lemma heap_root: "heap xs n \<Longrightarrow> k < n \<Longrightarrow> prio xs k \<le> prio xs 0"
proof (induction k rule: less_induct)
  case (less k)
  show ?case
  proof (cases "k = 0")
    case False
    with less.prems have "prio xs k \<le> prio xs (parent k)" by (simp add: heap_def)
    also have "\<dots> \<le> prio xs 0" using False less by (intro less.IH) auto
    finally show ?thesis .
  qed simp
qed

section \<open>The contract of a priority queue\<close>

locale priority_queue =
  fixes new :: 'q and push :: "'v \<Rightarrow> int \<Rightarrow> 'q \<Rightarrow> 'q" and pop :: "'q \<Rightarrow> ('v entry \<times> 'q) option"
    and invar :: "'q \<Rightarrow> bool" and items :: "'q \<Rightarrow> 'v entry multiset"
  assumes invar_new: "invar new" and items_new: "items new = {#}"
    and invar_push: "invar q \<Longrightarrow> invar (push v p q)"
    and items_push: "invar q \<Longrightarrow> items (push v p q) = add_mset (v, p) (items q)"
    and pop_None: "invar q \<Longrightarrow> pop q = None \<longleftrightarrow> items q = {#}"
    and pop_invar: "invar q \<Longrightarrow> pop q = Some (x, q') \<Longrightarrow> invar q'"
    and pop_items: "invar q \<Longrightarrow> pop q = Some (x, q') \<Longrightarrow> items q = add_mset x (items q')"
    and pop_max: "invar q \<Longrightarrow> pop q = Some (x, q') \<Longrightarrow> y \<in># items q \<Longrightarrow> snd y \<le> snd x"
begin

fun drain :: "nat \<Rightarrow> 'q \<Rightarrow> 'v entry list" where
  "drain 0 q = []"
| "drain (Suc n) q = (case pop q of None \<Rightarrow> [] | Some (x, q') \<Rightarrow> x # drain n q')"

lemma drain_items: "invar q \<Longrightarrow> size (items q) \<le> n \<Longrightarrow> mset (drain n q) = items q"
proof (induction n arbitrary: q)
  case (Suc n)
  then show ?case
    using pop_None [of q] pop_items [of q] pop_invar [of q]
    by (auto split: option.split)
qed simp

lemma drain_subset: "invar q \<Longrightarrow> x \<in> set (drain n q) \<Longrightarrow> x \<in># items q"
proof (induction n arbitrary: q)
  case (Suc n)
  show ?case
  proof (cases "pop q")
    case None
    with Suc.prems show ?thesis by simp
  next
    case (Some r)
    obtain y q' where r: "r = (y, q')" by (cases r)
    with Some have p: "pop q = Some (y, q')" by simp
    with Suc.prems Suc.IH [OF pop_invar [OF Suc.prems(1) p]] pop_items [OF Suc.prems(1) p]
    show ?thesis by auto
  qed
qed simp

lemma drain_sorted: "invar q \<Longrightarrow> sorted_wrt (\<lambda>x y. snd y \<le> snd x) (drain n q)"
proof (induction n arbitrary: q)
  case (Suc n)
  show ?case
  proof (cases "pop q")
    case (Some r)
    obtain x q' where r: "r = (x, q')" by (cases r)
    with Some have p: "pop q = Some (x, q')" by simp
    have "snd y \<le> snd x" if "y \<in> set (drain n q')" for y
      using pop_max [OF Suc.prems p, of y] pop_items [OF Suc.prems p]
        drain_subset [OF pop_invar [OF Suc.prems p] that] by simp
    with p Suc.IH [OF pop_invar [OF Suc.prems p]] show ?thesis by simp
  qed simp
qed simp

end

section \<open>The queue implements the contract\<close>

definition prque_invar :: "'v prque \<Rightarrow> bool" where
  "prque_invar q \<longleftrightarrow> \<not> wrapAround q \<and> heap (cont q) (length (cont q))"

definition prque_items :: "'v prque \<Rightarrow> 'v entry multiset" where
  "prque_items q = mset (cont q)"

lemma prque_Push_invar: "prque_invar q \<Longrightarrow> prque_invar (prque_Push v p q)"
proof -
  assume q: "prque_invar q"
  let ?xs = "cont q @ [(v, p)]"
  have "up_inv ?xs (length (cont q)) (length ?xs)"
    using q by (auto simp: up_inv_def prque_invar_def heap_def nth_append)
  then have "heap (heap_up False ?xs (length (cont q))) (length ?xs)"
    by (intro heap_up_heap) auto
  with q heap_up_props [of "length (cont q)" ?xs False] show ?thesis
    by (simp add: prque_invar_def prque_Push_def Let_def)
qed

lemma prque_Push_items: "prque_items (prque_Push v p q) = add_mset (v, p) (prque_items q)"
  using heap_up_props [of "length (cont q)" "cont q @ [(v, p)]" "wrapAround q"]
  by (simp add: prque_items_def prque_Push_def Let_def)

lemma prque_Pop_Some:
  assumes "prque_invar q" "prque_Pop q = Some (x, q')"
  shows "prque_invar q'" "prque_items q = add_mset x (prque_items q')" "x = cont q ! 0"
    "cont q \<noteq> []"
proof -
  let ?n = "length (cont q) - 1" and ?ys = "Swap 0 (length (cont q) - 1) (cont q)"
  show ne: "cont q \<noteq> []" using assms(2) by (auto simp: prque_Pop_def)
  let ?xs = "heap_down False ?ys 0 ?n"
  have n: "?n < length ?ys" "?n \<le> length ?ys" using ne by simp_all
  have x: "x = ?xs ! ?n" and q': "q' = q\<lparr>cont := take ?n ?xs\<rparr>"
    using assms ne by (auto simp: prque_Pop_def prque_invar_def Let_def)
  note d = heap_down_props [OF n(2), of False 0]
  show "x = cont q ! 0" using d x ne by (simp add: nth_Swap)
  have "down_inv ?ys 0 ?n"
    using assms(1) ne by (auto simp: down_inv_def prque_invar_def heap_def nth_Swap)
  then have "heap ?xs ?n" using n(2) by (rule heap_down_heap)
  then show "prque_invar q'"
    using assms(1) d n(2) by (auto simp: q' prque_invar_def heap_def)
  have "?xs = take ?n ?xs @ [?xs ! ?n]"
    using take_Suc_conv_app_nth [of ?n ?xs] d n(1) ne by simp
  then have "mset ?xs = add_mset (?xs ! ?n) (mset (take ?n ?xs))"
    by (metis mset.simps mset_append union_mset_add_mset_right add_0_right)
  moreover have "mset ?xs = mset (cont q)" using d ne by simp
  ultimately show "prque_items q = add_mset x (prque_items q')"
    unfolding prque_items_def q' x by simp
qed

interpretation pq: priority_queue prque_New prque_Push prque_Pop prque_invar prque_items
proof
  fix q :: "'v prque" and x q' y
  show "prque_Pop q = None \<longleftrightarrow> prque_items q = {#}"
    by (simp add: prque_Pop_def prque_items_def Let_def)
  assume q: "prque_invar q"
  assume p: "prque_Pop q = Some (x, q')"
  show "prque_invar q'" "prque_items q = add_mset x (prque_items q')"
    using prque_Pop_Some [OF q p] by simp_all
  assume "y \<in># prque_items q"
  then obtain k where "k < length (cont q)" "y = cont q ! k"
    by (auto simp: prque_items_def in_set_conv_nth)
  with q show "snd y \<le> snd x"
    using prque_Pop_Some(3) [OF q p] heap_root by (auto simp: prque_invar_def)
next
  show "prque_invar prque_New" "prque_items prque_New = {#}"
    by (simp_all add: prque_New_def prque_invar_def prque_items_def heap_def)
qed (simp_all add: prque_Push_invar prque_Push_items)

section \<open>Properties\<close>

fun prque_drain :: "nat \<Rightarrow> 'v prque \<Rightarrow> 'v entry list" where
  "prque_drain 0 q = []"
| "prque_drain (Suc n) q = (case prque_Pop q of None \<Rightarrow> [] | Some (x, q') \<Rightarrow> x # prque_drain n q')"

lemma prque_drain_eq: "prque_drain n q = pq.drain n q"
  by (induction n arbitrary: q) (auto split: option.split)

lemma prque_fold_Push:
  "prque_invar q \<Longrightarrow> prque_invar (fold (\<lambda>(v, p). prque_Push v p) xs q) \<and>
     prque_items (fold (\<lambda>(v, p). prque_Push v p) xs q) = prque_items q + mset xs"
  by (induction xs arbitrary: q) (auto simp: prque_Push_invar prque_Push_items)

text \<open>C29. Whatever is pushed into a new queue is popped from it, each entry once, and in the order of
  falling priorities.\<close>

theorem queue_pops_by_priority:
  "let q = fold (\<lambda>(v, p). prque_Push v p) xs prque_New; ys = prque_drain (length xs) q
   in mset ys = mset xs \<and> sorted_wrt (\<lambda>x y. snd y \<le> snd x) ys"
proof -
  let ?q = "fold (\<lambda>(v, p). prque_Push v p) xs prque_New"
  have q: "prque_invar ?q" "prque_items ?q = mset xs"
    using prque_fold_Push [OF pq.invar_new, of xs] by (simp_all add: pq.items_new)
  then show ?thesis
    using pq.drain_items [OF q(1), of "length xs"] pq.drain_sorted [OF q(1)]
    by (simp add: prque_drain_eq Let_def)
qed

end
