(* ===== verification/Core_State.thy ===== *)
theory Core_State
  imports Round_State Prque
begin

text \<open>
  The state of the protocol core and the operations its handlers share:
  \<open>core/core.go\<close> (the record), \<open>core/utils.go\<close> (checks, votes, certificates),
  \<open>core/backlog.go\<close>, \<open>core/request.go\<close>, \<open>core/timer.go\<close> and the sending half of
  \<open>core/handler.go\<close>.

  An operation on the core returns the core after the call, in an option whose \<open>None\<close> is a
  panic. Logging has no counterpart, except that the logger of most operations reads the
  current view: with no current round such an operation panics.
\<close>

section \<open>The core\<close>

record Core =
  c_db :: database
  current :: "roundState option"
  c_backend :: backend
  valSet :: defaultSet
  backlogs :: "(address \<times> Message prque) list"
  pendingRequests :: "Request prque"
  roundChangeTimer :: bool
  isRunning :: bool
  outbox :: "effect list"

definition core_New :: "backend \<Rightarrow> database \<Rightarrow> defaultSet \<Rightarrow> Core" where
  "core_New b db vs =
    \<lparr>c_db = db, current = None, c_backend = b, valSet = vs, backlogs = [],
     pendingRequests = prque_New, roundChangeTimer = False, isRunning = False, outbox = []\<rparr>"

definition emit :: "effect list \<Rightarrow> Core \<Rightarrow> Core" where
  "emit es c = c\<lparr>outbox := outbox c @ es\<rparr>"

definition set_current :: "roundState \<Rightarrow> Core \<Rightarrow> Core" where
  "set_current rs c = c\<lparr>current := Some rs\<rparr>"

definition core_Address :: "Core \<Rightarrow> address" where
  "core_Address c = backend_Address (c_backend c)"

definition core_IsProposer :: "Core \<Rightarrow> bool" where
  "core_IsProposer c \<longleftrightarrow> IsProposer (valSet c) (core_Address c)"

definition core_HeightU64 :: "Core \<Rightarrow> u64" where
  "core_HeightU64 c = (case current c of None \<Rightarrow> 0 | Some rs \<Rightarrow> rs_HeightU64 rs)"

definition core_RoundU64 :: "Core \<Rightarrow> u64" where
  "core_RoundU64 c = (case current c of None \<Rightarrow> 0 | Some rs \<Rightarrow> rs_RoundU64 rs)"

definition CurrentSequence :: "Core \<Rightarrow> (u64 \<times> u64) option" where
  "CurrentSequence c = do { rs \<leftarrow> current c; Some (HeightU64 (rs_View rs), RoundU64 (rs_View rs)) }"

definition IsCurrentProposal :: "crypto \<Rightarrow> hash \<Rightarrow> Core \<Rightarrow> bool option" where
  "IsCurrentProposal K blockHash c =
    (case current c of
       None \<Rightarrow> Some False
     | Some rs \<Rightarrow> do {
         proposal \<leftarrow> (case node rs of None \<Rightarrow> Some False
                      | Some n \<Rightarrow> (case pb_Hash K n of None \<Rightarrow> None | Some h \<Rightarrow> Some (h = blockHash)));
         if proposal then Some True
         else case pendingRequest rs of
                Some r \<Rightarrow> Some (block_Hash K (req_Block r) = blockHash)
              | None \<Rightarrow> Some False })"

section \<open>Checks\<close>

definition checkView :: "View \<Rightarrow> View \<Rightarrow> err option" where
  "checkView cur view =
    (let (hdiff, rdiff) = View_Sub view cur in
     if hdiff < 0 then Some ErrOldMessage
     else if hdiff > 1 then Some ErrFarAwayFutureMessage
     else if hdiff = 1 then Some ErrFutureMessage
     else if rdiff < 0 then Some ErrOldMessage
     else if rdiff = 0 then None
     else Some ErrFutureMessage)"

definition checkMsgDest :: "Core \<Rightarrow> err option" where
  "checkMsgDest c = (if \<not> core_IsProposer c then Some ErrNotToProposer else None)"

definition checkMsgSource :: "Core \<Rightarrow> address \<Rightarrow> err option" where
  "checkMsgSource c src = (if \<not> IsProposer (valSet c) src then Some ErrNotFromProposer else None)"

definition qc_code_matches :: "MsgType \<Rightarrow> MsgType \<Rightarrow> bool" where
  "qc_code_matches dataCode qcCode \<longleftrightarrow>
    \<not> ((dataCode = MsgTypeNewView \<and> qcCode \<noteq> MsgTypePrepareVote) \<or>
       (dataCode = MsgTypePrepare \<and> qcCode \<noteq> MsgTypePrepareVote) \<or>
       (dataCode = MsgTypePreCommit \<and> qcCode \<noteq> MsgTypePrepareVote) \<or>
       (dataCode = MsgTypeCommit \<and> qcCode \<noteq> MsgTypePreCommitVote) \<or>
       (dataCode = MsgTypeDecide \<and> qcCode \<noteq> MsgTypeCommitVote))"

text \<open>The part of \<open>verifyQC\<close> for certificates of the current view.\<close>

definition verifyQC_current ::
  "crypto \<Rightarrow> Core \<Rightarrow> roundState \<Rightarrow> Message \<Rightarrow> QuorumCert \<Rightarrow> err option option" where
  "verifyQC_current K c rs data qc =
    (if View_Cmp (qView qc) (mView data) \<noteq> 0
     then Some (Some (Errorf ''qc.View not matching message view''))
     else do {
       p \<leftarrow> proposer (valSet c);
       if qProposer qc \<noteq> p then Some (Some (Errorf ''expect proposer''))
       else case node rs of
              None \<Rightarrow> Some (Some (Errorf ''current node is nil''))
            | Some n \<Rightarrow> do {
                h \<leftarrow> pb_Hash K n;
                Some (if h \<noteq> qProposedBlock qc then Some (Errorf ''expect node'') else None) } })"

definition verifyQC ::
  "crypto \<Rightarrow> Core \<Rightarrow> roundState \<Rightarrow> Message \<Rightarrow> QuorumCert \<Rightarrow> err option option" where
  "verifyQC K c rs data qc =
    (if qc_HeightU64 qc = 0 then Some None
     else if qProposedBlock qc = EmptyHash \<or> qProposer qc = EmptyAddress
     then Some (Some (Errorf ''qc.ProposedBlock, Proposer, Seal or BLSSig is nil''))
     else if \<not> qc_code_matches (mCode data) (qCode qc)
     then Some (Some (Errorf ''qc.Code not matching message code''))
     else if (mCode data = MsgTypeNewView \<or> mCode data = MsgTypePrepare) \<and>
             (let (hdiff, rdiff) = View_Sub (mView data) (qView qc)
              in hdiff < 0 \<or> (hdiff = 0 \<and> rdiff < 0))
     then Some (Some (Errorf ''view is invalid''))
     else do {
       e \<leftarrow> (if mCode data = MsgTypePreCommit \<or> mCode data = MsgTypeCommit \<or> mCode data = MsgTypeDecide
             then verifyQC_current K c rs data qc else Some None);
       case e of
         Some e \<Rightarrow> Some (Some e)
       | None \<Rightarrow>
           (case PayloadNoSig K (NewCleanMessage (qView qc) (qCode qc) (qProposedBlock qc)) of
              (Inl _, _) \<Rightarrow> Some (Some (Errorf ''payload no sig''))
            | (Inr _, msg) \<Rightarrow>
                (case fst (message_Hash K msg) of
                   Inl e \<Rightarrow> Some (Some e)
                 | Inr msgHash \<Rightarrow>
                     if msgHash \<noteq> SealHash K qc then Some (Some (Errorf ''expect qc hash''))
                     else Some (AuthQC K (b_signer (c_backend c)) qc))) })"

definition genesisNode :: hash where
  "genesisNode = replicate 29 0 @ [0x01, 0x23, 0x45]"

definition buildRoundStartQC :: "crypto \<Rightarrow> Block \<Rightarrow> QuorumCert" where
  "buildRoundStartQC K lastBlock =
    \<lparr>qView = \<lparr>Round = 0, Height = block_Number lastBlock\<rparr>, qCode = MsgTypePrepareVote,
     qProposedBlock = (if NumberU64 lastBlock = 0 then genesisNode else block_Hash K lastBlock),
     qProposer = (if NumberU64 lastBlock = 0 then EmptyAddress else Coinbase (header lastBlock)),
     qBLSSignature = []\<rparr>"

definition checkNode :: "crypto \<Rightarrow> roundState \<Rightarrow> ProposedBlock \<Rightarrow> bool \<Rightarrow> err option option" where
  "checkNode K rs n compare =
    (if Parent n = EmptyHash \<or> pb_Block n = None then Some (Some ErrInvalidNode)
     else if \<not> compare then Some None
     else case node rs of
       None \<Rightarrow> Some (Some (Errorf ''current node is nil''))
     | Some l \<Rightarrow> do {
         lh \<leftarrow> pb_Hash K l; nh \<leftarrow> pb_Hash K n; lb \<leftarrow> pb_Block l; nb \<leftarrow> pb_Block n;
         Some (if lh \<noteq> nh then Some (Errorf ''expect node'')
               else if block_Hash K lb \<noteq> block_Hash K nb then Some (Errorf ''expect block'')
               else None) })"

definition checkBlock :: "crypto \<Rightarrow> roundState \<Rightarrow> Block \<Rightarrow> err option" where
  "checkBlock K rs block =
    (if NumberU64 (lastChainedBlock rs) + 1 \<noteq> NumberU64 block
     then Some (Errorf ''expect block number'')
     else if block_Hash K (lastChainedBlock rs) \<noteq> ParentHash (header block)
     then Some (Errorf ''expect parent hash'')
     else case LockedBlock rs of
       Some lb \<Rightarrow>
         if NumberU64 block \<noteq> NumberU64 lb then Some (Errorf ''expect locked block number'')
         else if block_Hash K block \<noteq> block_Hash K lb then Some (Errorf ''expect locked block hash'')
         else None
     | None \<Rightarrow> None)"

definition checkVote :: "crypto \<Rightarrow> roundState \<Rightarrow> Vote \<Rightarrow> MsgType \<Rightarrow> err option option" where
  "checkVote K rs vote code = do {
     expectedVote \<leftarrow> UnsignedVote K code rs;
     Some (case expectedVote of
             None \<Rightarrow> Some (Errorf ''expect vote'')
           | Some expected \<Rightarrow>
               if expected \<noteq> Unsigned vote then Some (Errorf ''expect vote'')
               else case hs_Encode (vote_item (Unsigned vote)) of
                      Inl _ \<Rightarrow> Some (Errorf ''could not encode vote'')
                    | Inr voteBytes \<Rightarrow>
                        (case hs_Encode (vote_item expected) of
                           Inl _ \<Rightarrow> Some (Errorf ''could not encode expected vote'')
                         | Inr expectedVoteBytes \<Rightarrow>
                             if expectedVoteBytes \<noteq> voteBytes
                             then Some (Errorf ''vote does not match expected vote'')
                             else None)) }"

section \<open>Certificates from votes\<close>

definition GetMessages :: "world \<Rightarrow> MsgType \<Rightarrow> roundState \<Rightarrow> err + Message list" where
  "GetMessages w code rs =
    (if code = MsgTypePrepareVote then Inr (ms_Values w (prepareVotes rs))
     else if code = MsgTypePreCommitVote then Inr (ms_Values w (preCommitVotes rs))
     else if code = MsgTypeCommitVote then Inr (ms_Values w (commitVotes rs))
     else Inl ErrInvalidCode)"

definition GetMessageVotes :: "Message list \<Rightarrow> Vote option list" where
  "GetMessageVotes msgs =
    map (\<lambda>m. case DecodeBytes decodeVote (mMsg m) of Inl _ \<Rightarrow> None | Inr v \<Rightarrow> Some v) msgs"

fun vote_shares :: "Vote option list \<Rightarrow> bytes list option" where
  "vote_shares [] = Some []"
| "vote_shares (None # vs) = None"
| "vote_shares (Some v # vs) = do { ss \<leftarrow> vote_shares vs; Some (vBLSSignature v # ss) }"

definition messagesToQC ::
  "crypto \<Rightarrow> world \<Rightarrow> MsgType \<Rightarrow> Core \<Rightarrow> roundState \<Rightarrow> (err + QuorumCert) option" where
  "messagesToQC K w code c rs =
    (case GetMessages w code rs of
       Inl e \<Rightarrow> Some (Inl e)
     | Inr msgs \<Rightarrow>
         if length msgs = 0 then Some (Inl (Errorf ''assemble qc: not enough message''))
         else do {
           p \<leftarrow> proposer (valSet c);
           expected \<leftarrow> UnsignedVote K code rs;
           expectedVote \<leftarrow> expected;
           case hs_Encode (vote_item expectedVote) of
             Inl _ \<Rightarrow> Some (Inl (Errorf ''could not encode expectedVote''))
           | Inr expectedVoteBytes \<Rightarrow> do {
               sigShares \<leftarrow> vote_shares (GetMessageVotes msgs);
               Some (case BLSRecoverAggSig K (b_signer (c_backend c)) expectedVoteBytes sigShares of
                       Inl e \<Rightarrow> Inl e
                     | Inr aggSig \<Rightarrow>
                         Inr \<lparr>qView = rs_View rs, qCode = code,
                              qProposedBlock = vProposedBlock expectedVote, qProposer = p,
                              qBLSSignature = aggSig\<rparr>) } })"

section \<open>Sending\<close>

definition finalizeMessage :: "crypto \<Rightarrow> Message \<Rightarrow> Core \<Rightarrow> err + bytes" where
  "finalizeMessage K msg c =
    (case PayloadNoSig K msg of
       (Inl e, _) \<Rightarrow> Inl e
     | (Inr _, msg) \<Rightarrow>
         (case message_Hash K msg of
            (r, msg) \<Rightarrow>
              (case Sign K (b_signer (c_backend c)) (case r of Inl _ \<Rightarrow> EmptyHash | Inr h \<Rightarrow> h) of
                 Inl e \<Rightarrow> Inl e
               | Inr sig \<Rightarrow> Payload (msg\<lparr>mSignature := sig\<rparr>))))"

definition broadcast :: "crypto \<Rightarrow> world \<Rightarrow> MsgType \<Rightarrow> bytes \<Rightarrow> Core \<Rightarrow> Core option" where
  "broadcast K w code payload c = do {
     rs \<leftarrow> current c;
     if fst (GetByAddress (valSet c) (core_Address c)) < 0 then Some c
     else case finalizeMessage K (NewCleanMessage (rs_View rs) code payload) c of
       Inl _ \<Rightarrow> Some c
     | Inr payload \<Rightarrow>
         if code = MsgTypeNewView \<or> code = MsgTypePrepareVote \<or> code = MsgTypePreCommitVote \<or>
            code = MsgTypeCommitVote
         then do {
           (b, out) \<leftarrow> Unicast K w (valSet c) payload (c_backend c);
           Some (emit out (c\<lparr>c_backend := b\<rparr>)) }
         else if code = MsgTypePrepare \<or> code = MsgTypePreCommit \<or> code = MsgTypeCommit \<or>
                 code = MsgTypeDecide
         then (case Broadcast K w (valSet c) payload (c_backend c) of
                 (b, out) \<Rightarrow> Some (emit out (c\<lparr>c_backend := b\<rparr>)))
         else Some c }"

definition sendVote :: "crypto \<Rightarrow> world \<Rightarrow> MsgType \<Rightarrow> Core \<Rightarrow> Core option" where
  "sendVote K w code c = do {
     rs \<leftarrow> current c;
     uv \<leftarrow> UnsignedVote K code rs;
     case uv of
       None \<Rightarrow> Some c
     | Some vote \<Rightarrow>
         (case hs_Encode (vote_item vote) of
            Inl _ \<Rightarrow> Some c
          | Inr unsignedVoteBytes \<Rightarrow>
              let c = emit [BLSSigned unsignedVoteBytes] c in
              case BLSSign K (b_signer (c_backend c)) unsignedVoteBytes of
                Inl _ \<Rightarrow> Some c
              | Inr sig \<Rightarrow>
                  (case hs_Encode (vote_item (vote\<lparr>vBLSSignature := sig\<rparr>)) of
                     Inl _ \<Rightarrow> Some c
                   | Inr payload \<Rightarrow> broadcast K w code payload c)) }"

section \<open>Requests of the miner\<close>

definition checkRequestMsg :: "roundState \<Rightarrow> Request \<Rightarrow> err option" where
  "checkRequestMsg rs request =
    (let d = big_Cmp (rs_height rs) (block_Number (req_Block request)) in
     if d > 0 then Some ErrOldMessage else if d < 0 then Some ErrFutureMessage else None)"

definition storeRequestMsg :: "Request \<Rightarrow> Core \<Rightarrow> Core option" where
  "storeRequestMsg request c = do {
     rs \<leftarrow> current c;
     Some (c\<lparr>pendingRequests :=
       prque_Push request (big_Int64 (- big_Int64 (block_Number (req_Block request))))
         (pendingRequests c)\<rparr>) }"

lemma prque_Pop_size: "prque_Pop q = Some (x, q') \<Longrightarrow> prque_Size q' < prque_Size q"
  using heap_down_props [of "length (cont q) - 1" "Swap 0 (length (cont q) - 1) (cont q)"]
  by (auto simp: prque_Pop_def prque_Size_def Let_def split: if_splits)

function pending_loop ::
  "roundState \<Rightarrow> Request prque \<Rightarrow> effect list \<Rightarrow> Request prque \<times> effect list" where
  "pending_loop rs q out =
    (case prque_Pop q of
       None \<Rightarrow> (q, out)
     | Some ((r, pr), q') \<Rightarrow>
         (case checkRequestMsg rs r of
            Some e \<Rightarrow>
              if e = ErrFutureMessage then (prque_Push r pr q', out) else pending_loop rs q' out
          | None \<Rightarrow> pending_loop rs q' (out @ [PostRequest (req_Block r)])))"
  by pat_completeness auto
termination
  by (relation "measure (\<lambda>(_, q, _). prque_Size q)") (auto dest: prque_Pop_size)

declare pending_loop.simps [simp del]

definition processPendingRequests :: "Core \<Rightarrow> Core option" where
  "processPendingRequests c =
    (if prque_Empty (pendingRequests c) then Some c
     else do {
       rs \<leftarrow> current c;
       (case pending_loop rs (pendingRequests c) [] of
          (q, out) \<Rightarrow> Some (emit out (c\<lparr>pendingRequests := q\<rparr>))) })"

section \<open>The backlog of future messages\<close>

definition messagePriority :: "MsgType \<Rightarrow> int" where
  "messagePriority code =
    (if code = MsgTypeNewView then 1
     else if code = MsgTypePrepare then 2
     else if code = MsgTypePrepareVote then 3
     else if code = MsgTypePreCommit then 4
     else if code = MsgTypePreCommitVote then 5
     else if code = MsgTypeCommit then 6
     else if code = MsgTypeCommitVote then 7
     else if code = MsgTypeDecide then 8
     else 0)"

definition toPriority :: "MsgType \<Rightarrow> View \<Rightarrow> int" where
  "toPriority code view =
    big_Int64 (- (big_Int64 (Height view) * 100 + big_Int64 (Round view) * 10 + messagePriority code))"

definition backlog_Push ::
  "Message \<Rightarrow> (address \<times> Message prque) list \<Rightarrow> (address \<times> Message prque) list" where
  "backlog_Push msg bl =
    (if mAddress msg = EmptyAddress \<or> mCode msg > MsgTypeDecide then bl
     else let addr = mAddress msg;
              q = (case map_of bl addr of None \<Rightarrow> prque_New | Some q \<Rightarrow> q)
          in AList.update addr (prque_Push msg (toPriority (mCode msg) (mView msg)) q) bl)"

definition backlog_Pop ::
  "address \<Rightarrow> (address \<times> Message prque) list \<Rightarrow>
     ((Message \<times> int) option \<times> (address \<times> Message prque) list) option" where
  "backlog_Pop addr bl =
    (case map_of bl addr of
       None \<Rightarrow> Some (None, bl)
     | Some q \<Rightarrow> do { (x, q) \<leftarrow> prque_Pop q; Some (Some x, AList.update addr q bl) })"

definition backlog_Size :: "address \<Rightarrow> (address \<times> Message prque) list \<Rightarrow> nat" where
  "backlog_Size addr bl = (case map_of bl addr of None \<Rightarrow> 0 | Some q \<Rightarrow> prque_Size q)"

definition storeBacklog :: "Message \<Rightarrow> Core \<Rightarrow> Core option" where
  "storeBacklog msg c = do {
     rs \<leftarrow> current c;
     if mAddress msg = core_Address c then Some c
     else if snd (GetByAddress (valSet c) (mAddress msg)) = None then Some c
     else Some (c\<lparr>backlogs := backlog_Push msg (backlogs c)\<rparr>) }"

function backlog_loop ::
  "View \<Rightarrow> Message prque \<Rightarrow> effect list \<Rightarrow> Message prque \<times> effect list" where
  "backlog_loop cur q out =
    (case prque_Pop q of
       None \<Rightarrow> (q, out)
     | Some ((msg, pr), q') \<Rightarrow>
         (case checkView cur (mView msg) of
            Some e \<Rightarrow>
              if e = ErrFutureMessage then (prque_Push msg pr q', out)
              else backlog_loop cur q' out
          | None \<Rightarrow> backlog_loop cur q' (out @ [PostBacklog msg])))"
  by pat_completeness auto
termination
  by (relation "measure (\<lambda>(_, q, _). prque_Size q)") (auto dest: prque_Pop_size)

declare backlog_loop.simps [simp del]

definition backlog_visit :: "View \<Rightarrow> address \<Rightarrow> Core \<Rightarrow> Core" where
  "backlog_visit cur addr c =
    (if snd (GetByAddress (valSet c) addr) = None then c
     else case map_of (backlogs c) addr of
       None \<Rightarrow> c
     | Some q \<Rightarrow>
         (case backlog_loop cur q [] of
            (q, out) \<Rightarrow> emit out (c\<lparr>backlogs := AList.update addr q (backlogs c)\<rparr>)))"

definition processBacklog :: "world \<Rightarrow> Core \<Rightarrow> Core option" where
  "processBacklog w c = do {
     rs \<leftarrow> current c;
     Some (fold (backlog_visit (rs_View rs)) (w_range_addrs w (map fst (backlogs c))) c) }"

section \<open>The round timer\<close>

definition roundTimeout :: "world \<Rightarrow> u64 \<Rightarrow> u64 \<Rightarrow> int" where
  "roundTimeout w requestTimeout round =
    (let timeout = big_Int64 (uint requestTimeout * 1000000);
         pow = (if unat round < 63 then 2 ^ unat round else w_floatOverflow w)
     in if round > 0 then big_Int64 (timeout + big_Int64 (pow * 1000000000)) else timeout)"

definition stopTimer :: "Core \<Rightarrow> Core" where
  "stopTimer c = (if roundChangeTimer c then emit [StopTimer] c else c)"

definition newRoundChangeTimer :: "world \<Rightarrow> Core \<Rightarrow> Core option" where
  "newRoundChangeTimer w c = do {
     rs \<leftarrow> current c;
     Some (emit [StartTimer (roundTimeout w (RequestTimeout (b_config (c_backend c))) (rs_RoundU64 rs))]
       ((stopTimer c)\<lparr>roundChangeTimer := True\<rparr>)) }"

section \<open>Entering a state\<close>

definition setCurrentState :: "world \<Rightarrow> State \<Rightarrow> Core \<Rightarrow> Core option" where
  "setCurrentState w s c = do {
     rs \<leftarrow> current c;
     let c = set_current (rs\<lparr>rs_state := s\<rparr>) c;
     c \<leftarrow> (if s = StateAcceptRequest \<or> s = StateHighQC then processPendingRequests c else Some c);
     processBacklog w c }"

end
