(* ===== verification/Core_Handlers.thy ===== *)
theory Core_Handlers
  imports Core_State
begin

text \<open>
  The protocol: the handlers of \<open>core/new_view.go\<close>, \<open>core/prepare.go\<close>, \<open>core/precommit.go\<close>,
  \<open>core/commit.go\<close>, \<open>core/decide.go\<close> and \<open>core/request.go\<close>, the round change of \<open>core/core.go\<close>,
  and the event loop of \<open>core/handler.go\<close>. A handler returns the error of the Go function and
  the core after it, in an option whose \<open>None\<close> is a panic.
\<close>

type_synonym res = "(err option \<times> Core) option"

definition ok :: "Core \<Rightarrow> res" where "ok c = Some (None, c)"
definition fail :: "err \<Rightarrow> Core \<Rightarrow> res" where "fail e c = Some (Some e, c)"

text \<open>\<open>if err := ...; err != nil { return err }\<close>, alone and with an error of the handler's own.\<close>

definition check :: "err option \<Rightarrow> Core \<Rightarrow> res \<Rightarrow> res" where
  "check e c k = (case e of Some x \<Rightarrow> fail x c | None \<Rightarrow> k)"

definition check_as :: "err \<Rightarrow> err option \<Rightarrow> Core \<Rightarrow> res \<Rightarrow> res" where
  "check_as err e c k = (case e of Some _ \<Rightarrow> fail err c | None \<Rightarrow> k)"

text \<open>An operation of the round state that writes to the database.\<close>

definition on_round ::
  "(database \<times> roundState \<Rightarrow> err option \<times> database \<times> roundState) \<Rightarrow> roundState \<Rightarrow> Core
     \<Rightarrow> err option \<times> Core" where
  "on_round f rs c = (case f (c_db c, rs) of (e, db, rs) \<Rightarrow> (e, (set_current rs c)\<lparr>c_db := db\<rparr>))"

section \<open>New view\<close>

definition sendNewView :: "crypto \<Rightarrow> world \<Rightarrow> Core \<Rightarrow> Core option" where
  "sendNewView K w c = do {
     rs \<leftarrow> current c;
     case hs_Encode (case prepareQC rs of None \<Rightarrow> Lst [] | Some qc \<Rightarrow> qc_item qc) of
       Inl _ \<Rightarrow> Some c
     | Inr payload \<Rightarrow> broadcast K w MsgTypeNewView payload c }"

fun getHighQC_loop :: "QuorumCert option \<Rightarrow> Message list \<Rightarrow> err + QuorumCert option" where
  "getHighQC_loop high [] = Inr high"
| "getHighQC_loop high (data # rest) =
     (case DecodeBytes decodeQC (mMsg data) of
        Inl e \<Rightarrow> Inl (ErrRlp e)
      | Inr qc \<Rightarrow>
          getHighQC_loop
            (case high of
               None \<Rightarrow> Some qc
             | Some h \<Rightarrow> if View_Cmp (qView h) (qView qc) < 0 then Some qc else Some h) rest)"

definition getHighQC :: "world \<Rightarrow> roundState \<Rightarrow> err + QuorumCert" where
  "getHighQC w rs =
    (case getHighQC_loop None (ms_Values w (newViews rs)) of
       Inl e \<Rightarrow> Inl e
     | Inr None \<Rightarrow> Inl ErrNilHighQC
     | Inr (Some qc) \<Rightarrow> Inr qc)"

section \<open>Prepare\<close>

definition prepare_block :: "roundState \<Rightarrow> Block option" where
  "prepare_block rs =
    (case LockedBlock rs of
       Some lb \<Rightarrow> if NumberU64 lb \<noteq> rs_HeightU64 rs then None else Some lb
     | None \<Rightarrow>
         (case pendingRequest rs of
            None \<Rightarrow> None
          | Some r \<Rightarrow> if NumberU64 (req_Block r) \<noteq> rs_HeightU64 rs then None else Some (req_Block r)))"

definition sendPrepare :: "crypto \<Rightarrow> world \<Rightarrow> Core \<Rightarrow> Core option" where
  "sendPrepare K w c = do {
     rs \<leftarrow> current c;
     if \<not> core_IsProposer c \<or> rs_state rs \<noteq> StateHighQC then Some c
     else case prepare_block rs of
       None \<Rightarrow> Some c
     | Some block \<Rightarrow>
         let c = (if Time (header block) > w_now w then emit [SleepUntil (Time (header block))] c else c)
         in do {
           qc \<leftarrow> highQC rs;
           let n = NewProposedBlock (qProposedBlock qc) block;
           case hs_Encode (packagedQC_item \<lparr>pk_ProposedBlock = n, pk_QC = qc\<rparr>) of
             Inl _ \<Rightarrow> Some c
           | Inr payload \<Rightarrow>
               (case SetProposedBlock n rs of
                  (Some _, rs) \<Rightarrow> Some (set_current rs c)
                | (None, rs) \<Rightarrow> broadcast K w MsgTypePrepare payload (set_current rs c)) } }"

definition executeBlock :: "world \<Rightarrow> Block \<Rightarrow> roundState \<Rightarrow> Core \<Rightarrow> err option \<times> Core" where
  "executeBlock w block rs c =
    (if core_IsProposer c
     then (None, set_current (rs\<lparr>executed := Some \<lparr>eb_State = None, eb_Block = Some block,
             eb_Receipts = None, eb_Logs = None\<rparr>\<rparr>) c)
     else case backend_ExecuteBlock w block of
       Inl e \<Rightarrow> (Some e, c)
     | Inr ex \<Rightarrow> (None, set_current (rs\<lparr>executed := Some ex\<rparr>) c))"

definition safeNode :: "ProposedBlock \<Rightarrow> QuorumCert \<Rightarrow> roundState \<Rightarrow> err option" where
  "safeNode n high rs =
    (if qProposedBlock high \<noteq> Parent n then Some (Errorf ''expect parent'')
     else case lockQC rs of
       None \<Rightarrow> None
     | Some lqc \<Rightarrow>
         if qProposedBlock lqc = Parent n then None
         else if View_Cmp (qView high) (qView lqc) > 0 then None
         else Some ErrSafeNode)"

text \<open>The last part of \<open>handlePrepare\<close>: the leader votes, a replica takes the node and votes.\<close>

definition acceptPrepare :: "crypto \<Rightarrow> world \<Rightarrow> ProposedBlock \<Rightarrow> Core \<Rightarrow> res" where
  "acceptPrepare K w n c = do {
     rs \<leftarrow> current c;
     c \<leftarrow> (if core_IsProposer c \<and> rs_state rs = StateHighQC
          then sendVote K w MsgTypePrepareVote c else Some c);
     rs \<leftarrow> current c;
     if \<not> core_IsProposer c \<and> rs_state rs < StateHighQC
     then (case SetProposedBlock n rs of
             (Some e, rs) \<Rightarrow> fail e c
           | (None, rs) \<Rightarrow> do {
               c \<leftarrow> setCurrentState w StateHighQC (set_current rs c);
               c \<leftarrow> sendVote K w MsgTypePrepareVote c;
               ok c })
     else ok c }"

definition handlePrepare :: "crypto \<Rightarrow> world \<Rightarrow> Message \<Rightarrow> Core \<Rightarrow> res" where
  "handlePrepare K w data c = do {
     rs \<leftarrow> current c;
     case DecodeBytes (decodePackagedQC K) (mMsg data) of
       Inl _ \<Rightarrow> fail ErrFailedDecodePrepare c
     | Inr subject \<Rightarrow>
         check (checkView (rs_View rs) (mView data)) c (
         check (checkMsgSource c (mAddress data)) c (
         let n = pk_ProposedBlock subject in do {
           e \<leftarrow> checkNode K rs n False;
           check e c (do {
             block \<leftarrow> pb_Block n;
             check (checkBlock K rs block) c (
             case Verify K w block (c_backend c) of (e, b) \<Rightarrow>
               let c = c\<lparr>c_backend := b\<rparr> in
               check_as ErrVerifyUnsealedProposal e c (
               case executeBlock w block rs c of (e, c) \<Rightarrow>
                 check e c (do {
                   rs \<leftarrow> current c;
                   e \<leftarrow> verifyQC K c rs data (pk_QC subject);
                   check e c (
                   check_as ErrSafeNode (safeNode n (pk_QC subject) rs) c (
                   acceptPrepare K w n c)) }))) }) })) }"

definition handleNewView :: "crypto \<Rightarrow> world \<Rightarrow> Message \<Rightarrow> Core \<Rightarrow> res" where
  "handleNewView K w data c = do {
     rs \<leftarrow> current c;
     case DecodeBytes decodeQC (mMsg data) of
       Inl _ \<Rightarrow> fail ErrFailedDecodeNewView c
     | Inr qc \<Rightarrow>
         check (checkView (rs_View rs) (mView data)) c (
         check (checkMsgDest c) c (do {
           e \<leftarrow> verifyQC K c rs data qc;
           check e c (
           case ms_Add data (newViews rs) of (e, ms) \<Rightarrow>
             check_as ErrAddNewViews e c (
             let rs = rs\<lparr>newViews := ms\<rparr>; c = set_current rs c in
             if ms_Size ms \<ge> Q (valSet c) \<and> rs_state rs < StateHighQC
             then (case getHighQC w rs of
                     Inl e \<Rightarrow> fail e c
                   | Inr high \<Rightarrow> do {
                       c \<leftarrow> setCurrentState w StateHighQC (set_current (rs\<lparr>highQC := Some high\<rparr>) c);
                       c \<leftarrow> sendPrepare K w c;
                       ok c })
             else ok c)) })) }"

section \<open>Pre-commit\<close>

definition acceptPrepareQC :: "world \<Rightarrow> QuorumCert \<Rightarrow> Core \<Rightarrow> res" where
  "acceptPrepareQC w qc c = do {
     rs \<leftarrow> current c;
     case on_round (SetPrepareQC w qc) rs c of (e, c) \<Rightarrow>
       check e c (do {
         rs \<leftarrow> current c;
         ok (set_current (rs\<lparr>rs_state := StatePrepared\<rparr>) c) }) }"

definition sendPreCommit :: "crypto \<Rightarrow> world \<Rightarrow> QuorumCert \<Rightarrow> Core \<Rightarrow> Core option" where
  "sendPreCommit K w qc c = do {
     rs \<leftarrow> current c;
     case hs_Encode (qc_item qc) of
       Inl _ \<Rightarrow> Some c
     | Inr payload \<Rightarrow> broadcast K w MsgTypePreCommit payload c }"

definition handlePrepareVote :: "crypto \<Rightarrow> world \<Rightarrow> Message \<Rightarrow> Core \<Rightarrow> res" where
  "handlePrepareVote K w data c = do {
     rs \<leftarrow> current c;
     case DecodeBytes decodeVote (mMsg data) of
       Inl _ \<Rightarrow> fail ErrFailedDecodePrepare c
     | Inr vote \<Rightarrow>
         check (checkView (rs_View rs) (mView data)) c (do {
           e \<leftarrow> checkVote K rs vote MsgTypePrepareVote;
           check e c (
           check (checkMsgDest c) c (
           case ms_Add data (prepareVotes rs) of (e, ms) \<Rightarrow>
             check_as ErrAddPrepareVote e c (
             let rs = rs\<lparr>prepareVotes := ms\<rparr>; c = set_current rs c in
             if ms_Size ms \<ge> Q (valSet c) \<and> rs_state rs = StateHighQC
             then do {
               r \<leftarrow> messagesToQC K w (mCode data) c rs;
               case r of
                 Inl _ \<Rightarrow> fail ErrInvalidQC c
               | Inr qc \<Rightarrow> do {
                   (e, c) \<leftarrow> acceptPrepareQC w qc c;
                   check e c (do { c \<leftarrow> sendPreCommit K w qc c; ok c }) } }
             else ok c))) }) }"

definition handlePreCommit :: "crypto \<Rightarrow> world \<Rightarrow> Message \<Rightarrow> Core \<Rightarrow> res" where
  "handlePreCommit K w data c = do {
     rs \<leftarrow> current c;
     case DecodeBytes decodeQC (mMsg data) of
       Inl _ \<Rightarrow> fail ErrFailedDecodePreCommit c
     | Inr qc \<Rightarrow>
         check (checkView (rs_View rs) (mView data)) c (
         check (checkMsgSource c (mAddress data)) c (do {
           e \<leftarrow> verifyQC K c rs data qc;
           check e c (do {
             c \<leftarrow> (if core_IsProposer c \<and> rs_state rs = StatePrepared
                  then sendVote K w MsgTypePreCommitVote c else Some c);
             rs \<leftarrow> current c;
             if \<not> core_IsProposer c \<and> rs_state rs = StateHighQC
             then do {
               (e, c) \<leftarrow> acceptPrepareQC w qc c;
               check e c (do { c \<leftarrow> sendVote K w MsgTypePreCommitVote c; ok c }) }
             else ok c }) })) }"

section \<open>Commit\<close>

definition acceptLockQC :: "world \<Rightarrow> QuorumCert \<Rightarrow> Core \<Rightarrow> res" where
  "acceptLockQC w qc c = do {
     rs \<leftarrow> current c;
     case on_round (Lock w qc) rs c of (e, c) \<Rightarrow>
       check e c (do {
         rs \<leftarrow> current c;
         ok (set_current (rs\<lparr>rs_state := StatePreCommitted\<rparr>) c) }) }"

definition sendCommit :: "crypto \<Rightarrow> world \<Rightarrow> QuorumCert \<Rightarrow> Core \<Rightarrow> Core option" where
  "sendCommit K w qc c = do {
     rs \<leftarrow> current c;
     case hs_Encode (qc_item qc) of
       Inl _ \<Rightarrow> Some c
     | Inr payload \<Rightarrow> broadcast K w MsgTypeCommit payload c }"

definition handlePreCommitVote :: "crypto \<Rightarrow> world \<Rightarrow> Message \<Rightarrow> Core \<Rightarrow> res" where
  "handlePreCommitVote K w data c = do {
     rs \<leftarrow> current c;
     case DecodeBytes decodeVote (mMsg data) of
       Inl e \<Rightarrow> fail (ErrRlp e) c
     | Inr vote \<Rightarrow>
         check (checkView (rs_View rs) (mView data)) c (do {
           e \<leftarrow> checkVote K rs vote MsgTypePreCommitVote;
           check e c (
           check (checkMsgDest c) c (
           case ms_Add data (preCommitVotes rs) of (e, ms) \<Rightarrow>
             check_as ErrAddPreCommitVote e c (
             let rs = rs\<lparr>preCommitVotes := ms\<rparr>; c = set_current rs c in
             if ms_Size ms \<ge> Q (valSet c) \<and> rs_state rs < StatePreCommitted
             then do {
               r \<leftarrow> messagesToQC K w (mCode data) c rs;
               case r of
                 Inl e \<Rightarrow> fail e c
               | Inr qc \<Rightarrow> do {
                   (e, c) \<leftarrow> acceptLockQC w qc c;
                   check e c (do { c \<leftarrow> sendCommit K w qc c; ok c }) } }
             else ok c))) }) }"

definition handleCommit :: "crypto \<Rightarrow> world \<Rightarrow> Message \<Rightarrow> Core \<Rightarrow> res" where
  "handleCommit K w data c = do {
     rs \<leftarrow> current c;
     case DecodeBytes decodeQC (mMsg data) of
       Inl _ \<Rightarrow> fail ErrFailedDecodeCommit c
     | Inr qc \<Rightarrow>
         check (checkView (rs_View rs) (qView qc)) c (
         check (checkMsgSource c (mAddress data)) c (do {
           e \<leftarrow> verifyQC K c rs data qc;
           check e c (do {
             c \<leftarrow> (if core_IsProposer c \<and> rs_state rs < StateCommitted
                  then sendVote K w MsgTypeCommitVote c else Some c);
             rs \<leftarrow> current c;
             if \<not> core_IsProposer c \<and> rs_state rs < StatePreCommitted
             then do {
               (e, c) \<leftarrow> acceptLockQC w qc c;
               check e c (do { c \<leftarrow> sendVote K w MsgTypeCommitVote c; ok c }) }
             else ok c }) })) }"

section \<open>Round change\<close>

definition updateRoundState :: "crypto \<Rightarrow> world \<Rightarrow> Block \<Rightarrow> View \<Rightarrow> Core \<Rightarrow> err option \<times> Core" where
  "updateRoundState K w lastBlock newView c =
    (let rs = (case current c of
                 None \<Rightarrow> reload K newView (c_db c) (newRoundState K (valSet c) lastBlock newView)
               | Some rs \<Rightarrow> rs_update K (valSet c) lastBlock newView rs);
         c = set_current rs c
     in if prepareQC rs \<noteq> None then (None, c)
        else case on_round (SetPrepareQC w (buildRoundStartQC K lastBlock)) rs c of
          (Some e, c) \<Rightarrow> (Some e, c)
        | (None, c) \<Rightarrow>
            (None, c\<lparr>current := map_option (\<lambda>rs. rs\<lparr>lockQC := None, committedQC := None\<rparr>) (current c)\<rparr>))"

text \<open>The view that \<open>startNewRound\<close> moves to, and whether it is a view change within the height;
  \<open>None\<close> is its early return.\<close>

definition newRoundView :: "Block \<Rightarrow> int \<Rightarrow> Core \<Rightarrow> (bool \<times> View) option" where
  "newRoundView lastBlock round c =
    (let fresh = \<lparr>Round = 0, Height = block_Number lastBlock + 1\<rparr> in
     case current c of
       None \<Rightarrow> Some (False, fresh)
     | Some rs \<Rightarrow>
         if NumberU64 lastBlock \<ge> rs_HeightU64 rs then Some (False, fresh)
         else if NumberU64 lastBlock < rs_HeightU64 rs - 1 then None
         else if big_Sign round = 0 then None
         else if big_Uint64 round < rs_RoundU64 rs then None
         else Some (True, \<lparr>Round = round, Height = rs_height rs\<rparr>))"

definition enterRound :: "crypto \<Rightarrow> world \<Rightarrow> bool \<Rightarrow> Core \<Rightarrow> Core option" where
  "enterRound K w changeView c = do {
     rs \<leftarrow> current c;
     let c = (if changeView then c else set_current (Unlock rs) c);
     c \<leftarrow> newRoundChangeTimer w c;
     c \<leftarrow> setCurrentState w StateAcceptRequest c;
     sendNewView K w c }"

definition startNewRound :: "crypto \<Rightarrow> world \<Rightarrow> int \<Rightarrow> Core \<Rightarrow> Core option" where
  "startNewRound K w round c =
    (if \<not> isRunning c then Some c
     else case LastProposal K w (c_backend c) of
       ((None, _), b) \<Rightarrow> Some (c\<lparr>c_backend := b\<rparr>)
     | ((Some lastBlock, lastProposer), b) \<Rightarrow>
         let c = c\<lparr>c_backend := b\<rparr> in
         case newRoundView lastBlock round c of
           None \<Rightarrow> Some c
         | Some (changeView, newView) \<Rightarrow>
             let c = c\<lparr>valSet := CalcProposer (valSet c) lastProposer (big_Uint64 (Round newView))\<rparr> in
             case updateRoundState K w lastBlock newView c of
               (Some _, c) \<Rightarrow> Some c
             | (None, c) \<Rightarrow> enterRound K w changeView c)"

section \<open>Decide\<close>

definition acceptCommitQC :: "crypto \<Rightarrow> world \<Rightarrow> Block \<Rightarrow> QuorumCert \<Rightarrow> Core \<Rightarrow> res" where
  "acceptCommitQC K w sealed qc c = do {
     rs \<leftarrow> current c;
     case on_round (SetSealedBlock K w sealed) rs c of (e, c) \<Rightarrow>
       check e c (do {
         rs \<leftarrow> current c;
         case on_round (SetCommittedQC w qc) rs c of (e, c) \<Rightarrow>
           check e c (do {
             rs \<leftarrow> current c;
             ok (set_current (rs\<lparr>rs_state := StateCommitted\<rparr>) c) }) }) }"

definition sendDecide :: "crypto \<Rightarrow> world \<Rightarrow> hash \<Rightarrow> QuorumCert \<Rightarrow> Core \<Rightarrow> Core option" where
  "sendDecide K w h qc c = do {
     rs \<leftarrow> current c;
     case hs_Encode (diploma_item \<lparr>CommitQC = qc, BlockHash = h\<rparr>) of
       Inl _ \<Rightarrow> Some c
     | Inr payload \<Rightarrow> broadcast K w MsgTypeDecide payload c }"

definition handleCommitVote :: "crypto \<Rightarrow> world \<Rightarrow> Message \<Rightarrow> Core \<Rightarrow> res" where
  "handleCommitVote K w data c = do {
     rs \<leftarrow> current c;
     case DecodeBytes decodeVote (mMsg data) of
       Inl e \<Rightarrow> fail (ErrRlp e) c
     | Inr vote \<Rightarrow>
         check (checkView (rs_View rs) (mView data)) c (
         check (checkMsgDest c) c (do {
           e \<leftarrow> checkVote K rs vote MsgTypeCommitVote;
           check e c (
           case LockedBlock rs of
             None \<Rightarrow> fail ErrInvalidNode c
           | Some lb \<Rightarrow>
               (case ms_Add data (commitVotes rs) of (e, ms) \<Rightarrow>
                  check_as ErrAddPreCommitVote e c (
                  let rs = rs\<lparr>commitVotes := ms\<rparr>; c = set_current rs c in
                  if ms_Size ms \<ge> Q (valSet c) \<and> rs_state rs = StatePreCommitted
                  then do {
                    r \<leftarrow> messagesToQC K w (mCode data) c rs;
                    case r of
                      Inl e \<Rightarrow> fail e c
                    | Inr qc \<Rightarrow>
                        (case SealBlock lb qc of
                           Inl e \<Rightarrow> fail e c
                         | Inr sealed \<Rightarrow> do {
                             (e, c) \<leftarrow> acceptCommitQC K w sealed qc c;
                             check e c (do { c \<leftarrow> sendDecide K w (block_Hash K sealed) qc c; ok c }) }) }
                  else ok c))) })) }"

text \<open>\<open>commit\<close> first makes sure that the executed block is the sealed one.\<close>

definition executed_for :: "crypto \<Rightarrow> Block \<Rightarrow> ExecutedBlock option \<Rightarrow> bool" where
  "executed_for K sealed ex \<longleftrightarrow>
    (case ex of None \<Rightarrow> False
     | Some e \<Rightarrow> (case eb_Block e of None \<Rightarrow> False | Some b \<Rightarrow> block_Hash K b = block_Hash K sealed))"

definition commit_execute :: "crypto \<Rightarrow> world \<Rightarrow> Block \<Rightarrow> roundState \<Rightarrow> Core \<Rightarrow> err + ExecutedBlock" where
  "commit_execute K w sealed rs c =
    (let fresh =
       (if core_IsProposer c
        then Inr \<lparr>eb_State = None, eb_Block = Some sealed, eb_Receipts = None, eb_Logs = None\<rparr>
        else case backend_ExecuteBlock w sealed of
          Inl _ \<Rightarrow> Inl (Errorf ''failed to execute block'')
        | Inr ex \<Rightarrow> Inr (ex\<lparr>eb_Block := Some sealed\<rparr>))
     in case executed rs of
          None \<Rightarrow> fresh
        | Some ex \<Rightarrow> if executed_for K sealed (Some ex) then Inr ex else fresh)"

definition commit :: "crypto \<Rightarrow> world \<Rightarrow> Block \<Rightarrow> Core \<Rightarrow> res" where
  "commit K w sealed c = do {
     rs \<leftarrow> current c;
     case LockedBlock rs of
       None \<Rightarrow> fail (Errorf ''locked block is nil'') c
     | Some lb \<Rightarrow>
         if block_Hash K lb \<noteq> block_Hash K sealed then fail (Errorf ''expect locked block'') c
         else case commit_execute K w sealed rs c of
           Inl e \<Rightarrow> fail e c
         | Inr ex \<Rightarrow>
             (case backend_Commit K ex (c_backend c) of
                (e, out) \<Rightarrow> Some (e, emit out (set_current (rs\<lparr>executed := Some ex\<rparr>) c))) }"

text \<open>The checks of \<open>handleDecide\<close> on the diploma's block hash and on the node.\<close>

definition checkDiploma :: "crypto \<Rightarrow> Diploma \<Rightarrow> roundState \<Rightarrow> err option option" where
  "checkDiploma K d rs =
    (case LockedBlock rs of
       None \<Rightarrow> Some (Some ErrInvalidBlock)
     | Some lb \<Rightarrow>
         if BlockHash d = EmptyHash \<or> block_Hash K lb \<noteq> BlockHash d then Some (Some ErrInvalidBlock)
         else case node rs of
           None \<Rightarrow> Some (Some ErrInvalidNode)
         | Some n \<Rightarrow>
             (case pb_Block n of
                None \<Rightarrow> Some (Some ErrInvalidNode)
              | Some b \<Rightarrow> do {
                  h \<leftarrow> pb_Hash K n;
                  Some (if h \<noteq> qProposedBlock (CommitQC d) then Some ErrInvalidQC
                        else if block_Hash K b \<noteq> BlockHash d then Some ErrInvalidBlock
                        else None) }))"

definition acceptDecide :: "crypto \<Rightarrow> world \<Rightarrow> QuorumCert \<Rightarrow> Core \<Rightarrow> res" where
  "acceptDecide K w qc c = do {
     rs \<leftarrow> current c;
     lb \<leftarrow> LockedBlock rs;
     (e, c) \<leftarrow> (if core_IsProposer c \<and> rs_state rs = StateCommitted then commit K w lb c else ok c);
     check e c (do {
       rs \<leftarrow> current c;
       if \<not> core_IsProposer c \<and> rs_state rs = StatePreCommitted
       then (case SealBlock lb qc of
               Inl e \<Rightarrow> fail e c
             | Inr sealed \<Rightarrow> do {
                 (e, c) \<leftarrow> acceptCommitQC K w sealed qc c;
                 check e c (commit K w sealed c) })
       else ok c }) }"

definition handleDecide :: "crypto \<Rightarrow> world \<Rightarrow> Message \<Rightarrow> Core \<Rightarrow> res" where
  "handleDecide K w data c = do {
     rs \<leftarrow> current c;
     case DecodeBytes decodeDiploma (mMsg data) of
       Inl _ \<Rightarrow> fail ErrFailedDecodeCommit c
     | Inr d \<Rightarrow>
         check (checkView (rs_View rs) (mView data)) c (
         check (checkMsgSource c (mAddress data)) c (do {
           e \<leftarrow> verifyQC K c rs data (CommitQC d);
           check e c (do {
             e \<leftarrow> checkDiploma K d rs;
             check e c (do {
               (e, c) \<leftarrow> acceptDecide K w (CommitQC d) c;
               check e c (do { c \<leftarrow> startNewRound K w 0 c; ok c }) }) }) })) }"

definition handleFinalCommitted :: "crypto \<Rightarrow> world \<Rightarrow> Header \<Rightarrow> Core \<Rightarrow> Core option" where
  "handleFinalCommitted K w hdr c = do {
     rs \<leftarrow> current c;
     if big_Uint64 (Number hdr) \<ge> rs_HeightU64 rs then startNewRound K w 0 c else Some c }"

section \<open>Requests\<close>

definition handleRequest :: "crypto \<Rightarrow> world \<Rightarrow> Request \<Rightarrow> Core \<Rightarrow> res" where
  "handleRequest K w request c = do {
     rs \<leftarrow> current c;
     case checkRequestMsg rs request of
       Some e \<Rightarrow>
         if e = ErrFutureMessage then do { c \<leftarrow> storeRequestMsg request c; fail e c } else fail e c
     | None \<Rightarrow>
         if rs_state rs = StateAcceptRequest then do { c \<leftarrow> storeRequestMsg request c; ok c }
         else if rs_state rs = StateHighQC then
           (if (case pendingRequest rs of None \<Rightarrow> True
                | Some r \<Rightarrow> NumberU64 (req_Block r) < rs_HeightU64 rs)
            then do { c \<leftarrow> sendPrepare K w (set_current (SetPendingRequest request rs) c); ok c }
            else ok c)
         else if pendingRequest rs = None then ok (set_current (SetPendingRequest request rs) c)
         else ok c }"

section \<open>The event loop\<close>

definition handleCheckedMsg :: "crypto \<Rightarrow> world \<Rightarrow> Message \<Rightarrow> Core \<Rightarrow> res" where
  "handleCheckedMsg K w msg c =
    (if current c = None then ok c
     else do {
       (e, c) \<leftarrow>
         (if mCode msg = MsgTypeNewView then handleNewView K w msg c
          else if mCode msg = MsgTypePrepare then handlePrepare K w msg c
          else if mCode msg = MsgTypePrepareVote then handlePrepareVote K w msg c
          else if mCode msg = MsgTypePreCommit then handlePreCommit K w msg c
          else if mCode msg = MsgTypePreCommitVote then handlePreCommitVote K w msg c
          else if mCode msg = MsgTypeCommit then handleCommit K w msg c
          else if mCode msg = MsgTypeCommitVote then handleCommitVote K w msg c
          else if mCode msg = MsgTypeDecide then handleDecide K w msg c
          else fail ErrInvalidMessage c);
       if e = Some ErrFutureMessage then do { c \<leftarrow> storeBacklog msg c; Some (e, c) }
       else Some (e, c) })"

definition handleMsg :: "crypto \<Rightarrow> world \<Rightarrow> address \<Rightarrow> bytes \<Rightarrow> Core \<Rightarrow> res" where
  "handleMsg K w val payload c =
    (case FromPayload K val payload (Some (CheckSignature K (valSet c))) of
       Inl _ \<Rightarrow> fail ErrFailedDecodeMessage c
     | Inr msg \<Rightarrow>
         if fst (GetByAddress (valSet c) val) < 0 \<or> snd (GetByAddress (valSet c) val) = None
         then fail ErrInvalidSigner c
         else handleCheckedMsg K w msg c)"

definition handleTimeoutMsg :: "crypto \<Rightarrow> world \<Rightarrow> Core \<Rightarrow> Core option" where
  "handleTimeoutMsg K w c = do { rs \<leftarrow> current c; startNewRound K w (rs_round rs + 1) c }"

definition core_Start :: "crypto \<Rightarrow> world \<Rightarrow> Core \<Rightarrow> Core option" where
  "core_Start K w c = startNewRound K w 0 (c\<lparr>isRunning := True, current := None\<rparr>)"

definition core_Stop :: "Core \<Rightarrow> Core" where
  "core_Stop c = (stopTimer c)\<lparr>isRunning := False\<rparr>"

datatype event =
    RequestEvent Block
  | MessageEvent address bytes
  | BacklogEvent Message
  | TimeoutEvent
  | FinalCommittedEvent Header

definition handleEvent :: "crypto \<Rightarrow> world \<Rightarrow> event \<Rightarrow> Core \<Rightarrow> Core option" where
  "handleEvent K w ev c =
    (case ev of
       RequestEvent block \<Rightarrow> map_option snd (handleRequest K w \<lparr>req_Block = block\<rparr> c)
     | MessageEvent src payload \<Rightarrow> map_option snd (handleMsg K w src payload c)
     | BacklogEvent msg \<Rightarrow> map_option snd (handleCheckedMsg K w msg c)
     | TimeoutEvent \<Rightarrow> handleTimeoutMsg K w c
     | FinalCommittedEvent hdr \<Rightarrow> handleFinalCommitted K w hdr c)"

section \<open>Messages of peers\<close>

definition NewBlockMsg :: nat where "NewBlockMsg = 0x07"

definition decodeNewBlock :: "crypto \<Rightarrow> (Block \<times> int) sm" where
  "decodeNewBlock K = decodeStruct (fld (decodeBlock K) (\<lambda>b. fld decodeBigInt (\<lambda>td. sret (b, td))))"

text \<open>\<open>isReader\<close> says that the payload is a \<open>bytes.Reader\<close>, which can be read again by the next
  handler.\<close>

definition HandleMsg ::
  "crypto \<Rightarrow> world \<Rightarrow> address \<Rightarrow> nat \<Rightarrow> bool \<Rightarrow> bytes \<Rightarrow> Core \<Rightarrow> (bool \<times> err option \<times> Core) option" where
  "HandleMsg K w addr code isReader payload c =
    (if code = hotstuffMsg then
       (case HandleMsg_hotstuff K w addr payload (c_backend c) of
          (e, b, out) \<Rightarrow> Some (True, e, emit out (c\<lparr>c_backend := b\<rparr>)))
     else if code = NewBlockMsg \<and> core_IsProposer c \<and> isReader then
       (case msg_Decode (decodeNewBlock K) payload of
          Inl _ \<Rightarrow> Some (False, None, c)
        | Inr (block, td) \<Rightarrow>
            if MixDigest (block_Header block) = HotstuffDigest
            then do {
              p \<leftarrow> IsCurrentProposal K (block_Hash K block) c;
              Some (if p then (True, None, c) else (False, None, c)) }
            else Some (False, None, c))
     else Some (False, None, c))"

end
