(* ===== verification/Replica.thy ===== *)
theory Replica
  imports Hotstuff_Types
begin

text \<open>
  What a replica promises, as an abstract state machine. Its state is the view it is in, the
  node it holds (parent and block hash), the block hash it is locked on, the votes it has
  signed and the messages it has posted to itself. \<open>replica_step\<close> lists what it may do:

  \<^item> take a node, but while it is locked only a node for the locked block;
  \<^item> lock on the block of its node;
  \<^item> sign a vote for its node in its view, a commit vote only while it is locked;
  \<^item> post a message of its view to itself, a commit message only while it is locked;
  \<^item> go to a later round of its height, with its node and its lock;
  \<^item> go to a later height, without them.

  From these rules alone, all commit votes a replica signs at one height are for one block.
  \<open>Core_Refinement\<close> shows that the protocol core implements the machine.
\<close>

record replica =
  r_view :: View
  r_node :: "(hash \<times> hash) option"
  r_lock :: "hash option"
  r_signed :: "bytes set"
  r_sent :: "bytes set"

definition node_vote :: "crypto \<Rightarrow> MsgType \<Rightarrow> View \<Rightarrow> hash \<times> hash \<Rightarrow> Vote" where
  "node_vote K code view n =
    \<lparr>vCode = code, vView = view, vProposedBlock = node_hash K (fst n) (snd n), vBLSSignature = []\<rparr>"

definition msg_of :: "bytes \<Rightarrow> MsgType \<Rightarrow> View \<Rightarrow> bool" where
  "msg_of payload code view \<longleftrightarrow>
    (\<forall>m. DecodeBytes decodeMessage payload = Inr m \<longrightarrow> mCode m = code \<and> mView m = view)"

inductive replica_step :: "crypto \<Rightarrow> replica \<Rightarrow> replica \<Rightarrow> bool" for K where
  take_node: "r_lock s = None \<or> r_lock s = Some (block_Hash K b) \<Longrightarrow>
    replica_step K s (s\<lparr>r_node := Some (p, block_Hash K b)\<rparr>)"
| lock: "r_node s = Some (p, bh) \<Longrightarrow> replica_step K s (s\<lparr>r_lock := Some bh\<rparr>)"
| sign: "r_node s = Some n \<Longrightarrow> hs_Encode (vote_item (node_vote K code (r_view s) n)) = Inr bs \<Longrightarrow>
    code = MsgTypeCommitVote \<longrightarrow> r_lock s \<noteq> None \<Longrightarrow>
    replica_step K s (s\<lparr>r_signed := insert bs (r_signed s)\<rparr>)"
| send: "msg_of payload code (r_view s) \<Longrightarrow> code = MsgTypeCommit \<longrightarrow> r_lock s \<noteq> None \<Longrightarrow>
    replica_step K s (s\<lparr>r_sent := insert payload (r_sent s)\<rparr>)"
| next_round: "Height v = Height (r_view s) \<Longrightarrow> Round (r_view s) < Round v \<Longrightarrow>
    replica_step K s (s\<lparr>r_view := v\<rparr>)"
| next_height: "Height (r_view s) < Height v \<Longrightarrow> wf_view v \<Longrightarrow>
    replica_step K s (s\<lparr>r_view := v, r_node := None, r_lock := None\<rparr>)"

inductive_cases replica_stepE: "replica_step K s t"

abbreviation replica_steps :: "crypto \<Rightarrow> replica \<Rightarrow> replica \<Rightarrow> bool" where
  "replica_steps K \<equiv> (replica_step K)\<^sup>*\<^sup>*"

section \<open>The invariant\<close>

text \<open>\<open>chosen\<close> assigns to every height the block that the commit votes of the height are for.\<close>

definition vote_ok :: "crypto \<Rightarrow> (int \<Rightarrow> hash) \<Rightarrow> replica \<Rightarrow> Vote \<Rightarrow> bool" where
  "vote_ok K chosen s v \<longleftrightarrow> wf_vote v \<and> Height (vView v) \<le> Height (r_view s) \<and>
    (vCode v = MsgTypeCommitVote \<longrightarrow>
       (\<exists>p. vProposedBlock v = node_hash K p (chosen (Height (vView v)))) \<and>
       chosen (Height (vView v)) \<in> range (block_Hash K) \<and>
       (Height (vView v) = Height (r_view s) \<longrightarrow> r_lock s = Some (chosen (Height (vView v)))))"

definition signed_ok :: "crypto \<Rightarrow> (int \<Rightarrow> hash) \<Rightarrow> replica \<Rightarrow> bool" where
  "signed_ok K chosen s \<longleftrightarrow>
    (\<forall>bs \<in> r_signed s. \<exists>v. hs_Encode (vote_item v) = Inr bs \<and> vote_ok K chosen s v)"

definition sent_ok :: "replica \<Rightarrow> bool" where
  "sent_ok s \<longleftrightarrow>
    (\<forall>payload \<in> r_sent s. \<forall>m. DecodeBytes decodeMessage payload = Inr m \<longrightarrow>
       (mView m = r_view s \<or> view_less (mView m) (r_view s)) \<and>
       (mCode m = MsgTypeCommit \<and> mView m = r_view s \<longrightarrow> r_lock s \<noteq> None))"

definition replica_inv :: "crypto \<Rightarrow> replica \<Rightarrow> bool" where
  "replica_inv K s \<longleftrightarrow> wf_view (r_view s) \<and>
    (\<forall>bh. r_lock s = Some bh \<longrightarrow> (\<exists>p. r_node s = Some (p, bh))) \<and>
    (\<forall>n. r_node s = Some n \<longrightarrow> snd n \<in> range (block_Hash K)) \<and> sent_ok s \<and>
    (\<exists>chosen. signed_ok K chosen s)"

lemma vote_ok_mono:
  assumes "vote_ok K chosen s v" "Height (r_view s) \<le> Height (r_view t)"
    and "Height (r_view t) = Height (r_view s) \<Longrightarrow> r_lock s \<noteq> None \<Longrightarrow> r_lock t = r_lock s"
  shows "vote_ok K chosen t v"
  using assms by (auto simp: vote_ok_def)

lemma signed_ok_mono:
  assumes "signed_ok K chosen s" "r_signed t = r_signed s" "Height (r_view s) \<le> Height (r_view t)"
    and "Height (r_view t) = Height (r_view s) \<Longrightarrow> r_lock s \<noteq> None \<Longrightarrow> r_lock t = r_lock s"
  shows "signed_ok K chosen t"
  using assms vote_ok_mono [OF _ assms(3,4)] unfolding signed_ok_def by metis

text \<open>A replica that is not locked has signed no commit vote at its height, so the lock it takes
  decides the block of the height.\<close>

lemma signed_ok_lock:
  assumes "signed_ok K chosen s" "r_lock s = None"
  shows "signed_ok K (chosen(Height (r_view s) := bh)) (s\<lparr>r_lock := Some bh\<rparr>)"
  unfolding signed_ok_def
proof
  fix bs
  assume "bs \<in> r_signed (s\<lparr>r_lock := Some bh\<rparr>)"
  then obtain v where v: "hs_Encode (vote_item v) = Inr bs" "vote_ok K chosen s v"
    using assms(1) by (auto simp: signed_ok_def)
  with assms(2) have "vote_ok K (chosen(Height (r_view s) := bh)) (s\<lparr>r_lock := Some bh\<rparr>) v"
    by (auto simp: vote_ok_def)
  with v(1) show "\<exists>v. hs_Encode (vote_item v) = Inr bs \<and>
      vote_ok K (chosen(Height (r_view s) := bh)) (s\<lparr>r_lock := Some bh\<rparr>) v" by blast
qed

lemma wf_node_hash: "keccak_size K \<Longrightarrow> wf_hash (node_hash K p bh)"
  by (simp add: node_hash_def wf_rlpHash)

lemma signed_ok_sign:
  assumes "signed_ok K chosen s" "wf_view (r_view s)" "keccak_size K"
    and "\<And>bh. r_lock s = Some bh \<Longrightarrow> snd n = bh" "snd n \<in> range (block_Hash K)"
    and "hs_Encode (vote_item (node_vote K code (r_view s) n)) = Inr bs"
    and "code = MsgTypeCommitVote \<Longrightarrow> r_lock s \<noteq> None"
  shows "\<exists>chosen. signed_ok K chosen (s\<lparr>r_signed := insert bs (r_signed s)\<rparr>)"
proof -
  define chosen' where "chosen' =
    (case r_lock s of None \<Rightarrow> chosen | Some bh \<Rightarrow> chosen(Height (r_view s) := bh))"
  let ?t = "s\<lparr>r_signed := insert bs (r_signed s)\<rparr>"
  have "vote_ok K chosen' ?t (node_vote K code (r_view s) n)"
    using assms(2-5,7) by (auto simp: vote_ok_def node_vote_def wf_vote_def wf_node_hash
        chosen'_def) (rule exI, rule refl)
  moreover have "vote_ok K chosen' ?t v" if "vote_ok K chosen s v" for v
    using that by (auto simp: vote_ok_def chosen'_def split: option.split)
  ultimately have "signed_ok K chosen' ?t"
    using assms(1,6) unfolding signed_ok_def by auto metis
  then show ?thesis by blast
qed

lemma sent_ok_advance:
  assumes "sent_ok s" "view_less (r_view s) v" "r_sent t = r_sent s" "r_view t = v"
  shows "sent_ok t"
  using assms view_less_trans view_less_irrefl unfolding sent_ok_def by metis

theorem replica_step_inv:
  assumes "replica_step K s t" "replica_inv K s" "keccak_size K"
  shows "replica_inv K t"
proof -
  obtain chosen where inv: "wf_view (r_view s)" "sent_ok s" "signed_ok K chosen s"
    and lk: "\<And>bh. r_lock s = Some bh \<Longrightarrow> \<exists>p. r_node s = Some (p, bh)"
    and nd: "\<And>n. r_node s = Some n \<Longrightarrow> snd n \<in> range (block_Hash K)"
    using assms(2) by (auto simp: replica_inv_def)
  show ?thesis
    using assms(1)
  proof cases
    case (take_node b p)
    then show ?thesis
      using inv signed_ok_mono [OF inv(3), of t] by (auto simp: replica_inv_def sent_ok_def)
  next
    case (lock p bh)
    have "\<exists>chosen. signed_ok K chosen t"
    proof (cases "r_lock s")
      case None
      then show ?thesis using signed_ok_lock [OF inv(3)] lock by blast
    next
      case (Some bh')
      with lk [of bh'] lock have "t = s" by auto
      with inv show ?thesis by blast
    qed
    with lock inv nd show ?thesis by (auto simp: replica_inv_def sent_ok_def)
  next
    case (sign n code bs)
    have "\<exists>chosen. signed_ok K chosen t"
      unfolding sign(1)
    proof (rule signed_ok_sign [OF inv(3,1) assms(3) _ nd [OF sign(2)] sign(3)])
      show "snd n = bh" if "r_lock s = Some bh" for bh using lk [OF that] sign(2) by auto
      show "r_lock s \<noteq> None" if "code = MsgTypeCommitVote" using sign(4) that by simp
    qed
    with sign inv lk nd show ?thesis by (auto simp: replica_inv_def sent_ok_def)
  next
    case (send payload code)
    with inv lk nd signed_ok_mono [OF inv(3), of t] show ?thesis
      by (auto simp: replica_inv_def sent_ok_def msg_of_def)
  next
    case (next_round v)
    then have "sent_ok t" by (intro sent_ok_advance [OF inv(2), of v]) (auto simp: view_less_def)
    with next_round inv lk nd signed_ok_mono [OF inv(3), of t] show ?thesis
      by (auto simp: replica_inv_def wf_view_def)
  next
    case (next_height v)
    then have "sent_ok t" by (intro sent_ok_advance [OF inv(2), of v]) (auto simp: view_less_def)
    with next_height signed_ok_mono [OF inv(3), of t] show ?thesis
      by (auto simp: replica_inv_def)
  qed
qed

lemma replica_steps_inv:
  "replica_steps K s t \<Longrightarrow> replica_inv K s \<Longrightarrow> keccak_size K \<Longrightarrow> replica_inv K t"
  by (induction rule: rtranclp_induct) (auto intro: replica_step_inv)

text \<open>The view of a replica never goes back.\<close>

lemma replica_steps_view:
  "replica_steps K s t \<Longrightarrow> r_view t = r_view s \<or> view_less (r_view s) (r_view t)"
proof (induction rule: rtranclp_induct)
  case (step t u)
  have "r_view u = r_view t \<or> view_less (r_view t) (r_view u)"
    using step(2) by (cases rule: replica_stepE) (auto simp: view_less_def)
  with step.IH show ?case by (metis view_less_trans)
qed simp

section \<open>Commit votes of one height\<close>

lemma signed_commit_vote:
  assumes "signed_ok K chosen s" "bs \<in> r_signed s" "length bs < 2 ^ 64"
    and "wf_vote v" "hs_Encode (vote_item v) = Inr bs" "vCode v = MsgTypeCommitVote"
  shows "vote_ok K chosen s v"
proof -
  obtain u where u: "hs_Encode (vote_item u) = Inr bs" "vote_ok K chosen s u"
    using assms(1,2) by (auto simp: signed_ok_def)
  have "u = v"
    by (rule vote.encode_inj [of u bs v])
      (use u assms in \<open>auto simp: hs_Encode_def vote_ok_def split: option.splits\<close>)
  with u(2) show ?thesis by simp
qed

text \<open>All the commit votes a replica signs at one height are for one block.\<close>

lemma one_commit_per_height:
  assumes "replica_inv K s" "bs \<in> r_signed s" "bs' \<in> r_signed s" "length bs < 2 ^ 64" "length bs' < 2 ^ 64"
    and "wf_vote v" "hs_Encode (vote_item v) = Inr bs" "vCode v = MsgTypeCommitVote"
    and "wf_vote v'" "hs_Encode (vote_item v') = Inr bs'" "vCode v' = MsgTypeCommitVote"
    and "Height (vView v) = Height (vView v')"
  obtains p p' b where "vProposedBlock v = node_hash K p (block_Hash K b)"
    "vProposedBlock v' = node_hash K p' (block_Hash K b)" "Height (vView v) \<le> Height (r_view s)"
proof -
  obtain chosen where c: "signed_ok K chosen s" using assms(1) by (auto simp: replica_inv_def)
  have "vote_ok K chosen s v" "vote_ok K chosen s v'"
    using signed_commit_vote [OF c assms(2,4,6,7,8)] signed_commit_vote [OF c assms(3,5,9,10,11)] by auto
  with assms(8,11,12) that show ?thesis by (auto simp: vote_ok_def)
qed

end
