(* ===== verification/Core_Frame.thy ===== *)
theory Core_Frame
  imports Core_Handlers Replica
begin

text \<open>
  A calculus for the operations of the core, and what the operations below the handlers leave
  alone. \<open>returns m P\<close> says that \<open>m\<close> does not panic and that its result satisfies \<open>P\<close>.
\<close>

section \<open>Operations that do not panic\<close>

definition returns :: "'a option \<Rightarrow> ('a \<Rightarrow> bool) \<Rightarrow> bool" where
  "returns m P \<longleftrightarrow> (case m of None \<Rightarrow> False | Some x \<Rightarrow> P x)"

lemma returns_simps [simp]:
  "returns (Some x) P \<longleftrightarrow> P x"
  "\<not> returns None P"
  "returns (m \<bind> f) P \<longleftrightarrow> returns m (\<lambda>x. returns (f x) P)"
  "returns (ok c) R \<longleftrightarrow> R (None, c)"
  "returns (fail e c) R \<longleftrightarrow> R (Some e, c)"
  by (cases m; simp add: returns_def ok_def fail_def)+

lemma returns_check [simp]:
  "returns (check e c k) R \<longleftrightarrow> (case e of None \<Rightarrow> returns k R | Some x \<Rightarrow> R (Some x, c))"
  "returns (check_as err e c k) R \<longleftrightarrow> (case e of None \<Rightarrow> returns k R | Some x \<Rightarrow> R (Some err, c))"
  by (simp_all add: check_def check_as_def split: option.split)

lemma returns_mono: "returns m P \<Longrightarrow> (\<And>x. P x \<Longrightarrow> R x) \<Longrightarrow> returns m R"
  by (simp add: returns_def split: option.splits)

lemma returnsI: "m = Some x \<Longrightarrow> P x \<Longrightarrow> returns m P"
  by simp

lemma returnsD: "returns m P \<Longrightarrow> \<exists>x. m = Some x \<and> P x"
  by (simp add: returns_def split: option.splits)

section \<open>Frames\<close>

text \<open>The keys of the signer; the rest of it is the cache of recovered addresses.\<close>

definition signer_keeps :: "signer \<Rightarrow> signer \<Rightarrow> bool" where
  "signer_keeps s s' \<longleftrightarrow> s_address s' = s_address s \<and> s_privateKey s' = s_privateKey s \<and>
    s_blsPubPoly s' = s_blsPubPoly s \<and> s_blsPrivKey s' = s_blsPrivKey s \<and> s_t s' = s_t s \<and>
    s_n s' = s_n s"

definition backend_keeps :: "backend \<Rightarrow> backend \<Rightarrow> bool" where
  "backend_keeps b b' \<longleftrightarrow> signer_keeps (b_signer b) (b_signer b') \<and> b_config b' = b_config b"

lemma signer_keeps_refl [simp]: "signer_keeps s s"
  by (simp add: signer_keeps_def)

lemma signer_keeps_trans: "signer_keeps a b \<Longrightarrow> signer_keeps b c \<Longrightarrow> signer_keeps a c"
  by (simp add: signer_keeps_def)

lemma backend_keeps_refl [simp]: "backend_keeps b b"
  by (simp add: backend_keeps_def)

lemma backend_keeps_trans: "backend_keeps a b \<Longrightarrow> backend_keeps b c \<Longrightarrow> backend_keeps a c"
  by (auto simp: backend_keeps_def intro: signer_keeps_trans)

lemma backend_keeps_Address: "backend_keeps b b' \<Longrightarrow> backend_Address b' = backend_Address b"
  by (simp add: backend_keeps_def signer_keeps_def backend_Address_def)

lemma backend_keeps_upd [simp]:
  "backend_keeps b (b'\<lparr>b_knownMessages := k\<rparr>) = backend_keeps b b'"
  "backend_keeps b (b'\<lparr>b_recentMessages := r\<rparr>) = backend_keeps b b'"
  "backend_keeps b (b'\<lparr>b_proposedBlockHash := h\<rparr>) = backend_keeps b b'"
  "backend_keeps (b\<lparr>b_knownMessages := k\<rparr>) b' = backend_keeps b b'"
  "backend_keeps b (b\<lparr>b_signer := s\<rparr>) = signer_keeps (b_signer b) s"
  by (simp_all add: backend_keeps_def)

lemma RecoverSigner_keeps: "RecoverSigner K w h s = (r, s') \<Longrightarrow> signer_keeps s s'"
  by (auto simp: RecoverSigner_def Let_def signer_keeps_def split: option.splits sum.splits)

lemma signer_VerifyHeader_keeps:
  "signer_VerifyHeader K w h vs seal s = (r, s') \<Longrightarrow> signer_keeps s s'"
  by (auto simp: signer_VerifyHeader_def dest: RecoverSigner_keeps
      split: if_splits prod.splits sum.splits)

lemma verifyHeader_keeps: "verifyHeader K w h ps seal b = (e, b') \<Longrightarrow> backend_keeps b b'"
  unfolding verifyHeader_def Let_def
  by (auto split: if_splits option.splits prod.splits sum.splits
      dest!: RecoverSigner_keeps signer_VerifyHeader_keeps intro: signer_keeps_trans)

lemma Verify_keeps: "Verify K w block b = (e, b') \<Longrightarrow> backend_keeps b b'"
  by (auto simp: Verify_def backend_VerifyHeader_def dest: verifyHeader_keeps split: if_splits)

lemma LastProposal_keeps: "LastProposal K w b = (r, b') \<Longrightarrow> backend_keeps b b'"
  by (auto simp: LastProposal_def Author_def Let_def dest!: RecoverSigner_keeps
      split: if_splits prod.splits sum.splits)

text \<open>Effects that are neither a signature, nor a message to the node itself, nor a commit.\<close>

fun silent :: "address \<Rightarrow> effect \<Rightarrow> bool" where
  "silent a (BLSSigned bs) = False"
| "silent a (PostMessage b p) = (b \<noteq> a)"
| "silent a (FeedExecuted ex) = False"
| "silent a _ = True"

definition to_peer :: "effect \<Rightarrow> bool" where
  "to_peer e \<longleftrightarrow> (\<exists>a p. e = SendConsensus a p)"

lemma to_peer_silent: "list_all to_peer out \<Longrightarrow> list_all (silent a) out"
  by (auto simp: list_all_iff to_peer_def)

lemma gossip_peer_keeps:
  "gossip_peer w h p a (b, out) = (b', out') \<Longrightarrow>
     backend_keeps b b' \<and> (\<exists>o1. out' = out @ o1 \<and> list_all to_peer o1)"
  by (auto simp: gossip_peer_def to_peer_def split: option.splits if_splits)

lemma fold_gossip_keeps:
  "fold (gossip_peer w h p) as (b, out) = (b', out') \<Longrightarrow>
     backend_keeps b b' \<and> (\<exists>o1. out' = out @ o1 \<and> list_all to_peer o1)"
proof (induction as arbitrary: b out)
  case (Cons a as)
  obtain b1 out1 where 1: "gossip_peer w h p a (b, out) = (b1, out1)" by fastforce
  with gossip_peer_keeps [OF 1] Cons.IH [of b1 out1] Cons.prems show ?case
    by (auto intro: backend_keeps_trans)
qed simp

lemma Gossip_keeps:
  "Gossip K w vs p b = (b', out) \<Longrightarrow> backend_keeps b b' \<and> list_all to_peer out"
  by (auto simp: Gossip_def Let_def dest!: fold_gossip_keeps split: if_splits)

lemma Broadcast_keeps:
  assumes "Broadcast K w vs p b = (b', out)"
  shows "backend_keeps b b'"
    "\<exists>out'. out = out' @ [PostMessage (backend_Address b) p] \<and> list_all to_peer out'"
  using assms Gossip_keeps [of K w vs p b]
  by (auto simp: Broadcast_def backend_keeps_Address split: prod.splits)

lemma Unicast_returns:
  assumes "proposer vs \<noteq> None"
  shows "returns (Unicast K w vs p b) (\<lambda>(b', out). backend_keeps b b' \<and>
    (list_all to_peer out \<or> out = [PostMessage (backend_Address b) p]))"
  using assms
  by (auto simp: Unicast_def Let_def backend_Address_def split: option.split
      dest!: gossip_peer_keeps)

section \<open>Steps of the core\<close>

text \<open>\<open>extends c out c'\<close>: from \<open>c\<close> to \<open>c'\<close> the effects \<open>out\<close> were sent, and the validator set, the
  keys and the configuration are the same. The round state is not part of the frame.\<close>

definition extends :: "Core \<Rightarrow> effect list \<Rightarrow> Core \<Rightarrow> bool" where
  "extends c out c' \<longleftrightarrow> valSet c' = valSet c \<and> backend_keeps (c_backend c) (c_backend c') \<and>
    isRunning c' = isRunning c \<and> outbox c' = outbox c @ out"

definition quiet :: "Core \<Rightarrow> Core \<Rightarrow> bool" where
  "quiet c c' \<longleftrightarrow> (\<exists>out. extends c out c' \<and> list_all (silent (core_Address c)) out)"

lemma extends_Address: "extends c out c' \<Longrightarrow> core_Address c' = core_Address c"
  by (simp add: extends_def core_Address_def backend_keeps_Address)

lemma extends_trans: "extends a x b \<Longrightarrow> extends b y c \<Longrightarrow> extends a (x @ y) c"
  by (auto simp: extends_def intro: backend_keeps_trans)

lemma quiet_refl [simp]: "quiet c c"
  by (auto simp: quiet_def extends_def)

lemma quiet_trans: "quiet a b \<Longrightarrow> quiet b c \<Longrightarrow> quiet a c"
  unfolding quiet_def by (metis extends_Address extends_trans list_all_append)

lemma quiet_keeps:
  assumes "quiet c c'"
  shows "valSet c' = valSet c" "core_Address c' = core_Address c" "isRunning c' = isRunning c"
    "backend_keeps (c_backend c) (c_backend c')" "core_IsProposer c' = core_IsProposer c"
  using assms by (auto simp: quiet_def core_IsProposer_def extends_def core_Address_def backend_keeps_Address)

lemma quiet_upd [simp]:
  "quiet c (set_current rs c') = quiet c c'"
  "quiet c (c'\<lparr>c_db := db\<rparr>) = quiet c c'"
  "quiet c (c'\<lparr>current := x\<rparr>) = quiet c c'"
  "quiet c (c'\<lparr>backlogs := bl\<rparr>) = quiet c c'"
  "quiet c (c'\<lparr>pendingRequests := q\<rparr>) = quiet c c'"
  "quiet c (c'\<lparr>roundChangeTimer := t\<rparr>) = quiet c c'"
  by (simp_all add: quiet_def extends_def set_current_def)

lemma quiet_from [simp]:
  "quiet (set_current rs c) c' = quiet c c'" "quiet (c\<lparr>current := x\<rparr>) c' = quiet c c'"
  "quiet (c\<lparr>c_db := db\<rparr>) c' = quiet c c'"
  by (simp_all add: quiet_def extends_def set_current_def core_Address_def)

lemma set_current_simps [simp]:
  "current (set_current rs c) = Some rs" "valSet (set_current rs c) = valSet c"
  "c_backend (set_current rs c) = c_backend c" "outbox (set_current rs c) = outbox c"
  "backlogs (set_current rs c) = backlogs c" "core_Address (set_current rs c) = core_Address c"
  "core_IsProposer (set_current rs c) = core_IsProposer c"
  "isRunning (set_current rs c) = isRunning c" "c_db (set_current rs c) = c_db c"
  by (simp_all add: set_current_def core_Address_def core_IsProposer_def)

lemma emit_simps [simp]:
  "current (emit out c) = current c" "valSet (emit out c) = valSet c"
  "c_backend (emit out c) = c_backend c" "outbox (emit out c) = outbox c @ out"
  "backlogs (emit out c) = backlogs c" "core_Address (emit out c) = core_Address c"
  "core_IsProposer (emit out c) = core_IsProposer c"
  "isRunning (emit out c) = isRunning c" "c_db (emit out c) = c_db c"
  by (simp_all add: emit_def core_Address_def core_IsProposer_def)

lemma quiet_emit: "list_all (silent (core_Address c)) out \<Longrightarrow> quiet c (emit out c)"
  by (auto simp: quiet_def extends_def)

subsection \<open>Pending requests and the timer\<close>

lemma pending_loop_out: "set (snd (pending_loop rs q out)) \<subseteq> set out \<union> range PostRequest"
proof (induction rs q out rule: pending_loop.induct)
  case (1 rs q out)
  show ?case
  proof (cases "prque_Pop q")
    case None
    then show ?thesis by (simp add: pending_loop.simps [of rs q out])
  next
    case (Some x)
    obtain r pr q' where x: "x = ((r, pr), q')" by (metis prod.exhaust)
    note IH = "1.IH" [OF Some, unfolded x, OF refl refl]
    show ?thesis
      using IH unfolding pending_loop.simps [of rs q out] Some x
      by (auto split: option.split)
  qed
qed

lemma processPendingRequests_returns:
  assumes "current c = Some rs"
  shows "returns (processPendingRequests c)
    (\<lambda>c'. current c' = current c \<and> backlogs c' = backlogs c \<and> quiet c c' \<and>
       (\<forall>m. PostBacklog m \<in> set (outbox c') \<longrightarrow> PostBacklog m \<in> set (outbox c)))"
proof -
  obtain q out where l: "pending_loop rs (pendingRequests c) [] = (q, out)" by fastforce
  with pending_loop_out [of rs "pendingRequests c" "[]"]
  have "set out \<subseteq> range PostRequest" by simp
  then have "list_all (silent (core_Address c)) out" "\<forall>m. PostBacklog m \<notin> set out"
    by (auto simp: list_all_iff)
  with assms l show ?thesis
    by (auto simp: processPendingRequests_def quiet_def extends_def core_Address_def)
qed

subsection \<open>The backlog\<close>

text \<open>The backlog holds messages of other validators only.\<close>

definition foreign :: "defaultSet \<Rightarrow> address \<Rightarrow> Message \<Rightarrow> bool" where
  "foreign vs a m \<longleftrightarrow> mAddress m \<noteq> a \<and> mAddress m \<in> set (validators vs)"

definition queues_ok :: "defaultSet \<Rightarrow> address \<Rightarrow> (address \<times> Message prque) list \<Rightarrow> bool" where
  "queues_ok vs a bl \<longleftrightarrow> (\<forall>q \<in> snd ` set bl. \<forall>m \<in> fst ` set (cont q). foreign vs a m)"

definition backlog_ok :: "Core \<Rightarrow> bool" where
  "backlog_ok c \<longleftrightarrow> queues_ok (valSet c) (core_Address c) (backlogs c) \<and>
    (\<forall>m. PostBacklog m \<in> set (outbox c) \<longrightarrow> foreign (valSet c) (core_Address c) m)"

lemma prque_Pop_set:
  assumes "prque_Pop q = Some (x, q')"
  shows "x \<in> set (cont q)" "set (cont q') \<subseteq> set (cont q)"
proof -
  let ?n = "length (cont q) - 1" and ?ys = "Swap 0 (length (cont q) - 1) (cont q)"
  let ?xs = "heap_down (wrapAround q) ?ys 0 ?n"
  have ne: "cont q \<noteq> []" and x: "x = ?xs ! ?n" and q': "cont q' = take ?n ?xs"
    using assms by (auto simp: prque_Pop_def Let_def split: if_splits)
  have "mset ?xs = mset (cont q)" "length ?xs = length (cont q)"
    using heap_down_props [of ?n ?ys "wrapAround q" 0] ne by (auto simp: mset_Swap)
  then have "set ?xs = set (cont q)" "length ?xs = length (cont q)"
    by (metis mset_eq_setD)+
  with x q' ne show "x \<in> set (cont q)" "set (cont q') \<subseteq> set (cont q)"
    using nth_mem [of ?n ?xs] by (auto dest: in_set_takeD)
qed

lemma prque_Push_set: "set (cont (prque_Push v p q)) = insert (v, p) (set (cont q))"
  using prque_Push_items [of v p q] by (metis prque_items_def set_mset_add_mset_insert set_mset_mset)

lemma backlog_loop_out:
  "set (cont (fst (backlog_loop cur q out))) \<subseteq> set (cont q) \<and>
   set (snd (backlog_loop cur q out)) \<subseteq> set out \<union> PostBacklog ` fst ` set (cont q)"
proof (induction cur q out rule: backlog_loop.induct)
  case (1 cur q out)
  show ?case
  proof (cases "prque_Pop q")
    case None
    then show ?thesis by (simp add: backlog_loop.simps [of cur q out])
  next
    case (Some x)
    obtain m pr q' where x: "x = ((m, pr), q')" by (metis prod.exhaust)
    note IH = "1.IH" [OF Some, unfolded x, OF refl refl]
    have "(m, pr) \<in> set (cont q)" "set (cont q') \<subseteq> set (cont q)"
      using prque_Pop_set [of q "(m, pr)" q'] Some x by simp_all
    then show ?thesis
      using IH unfolding backlog_loop.simps [of cur q out] Some x
      by (auto split: option.split simp: prque_Push_set) force+
  qed
qed

lemma queues_ok_update:
  assumes "queues_ok vs a bl" "\<And>m. m \<in> fst ` set (cont q) \<Longrightarrow> foreign vs a m"
  shows "queues_ok vs a (AList.update addr q bl)"
  using assms set_update_subset [of addr q bl] unfolding queues_ok_def by fastforce

lemma backlog_visit_ok:
  assumes "backlog_ok c"
  shows "backlog_ok (backlog_visit cur addr c)" "quiet c (backlog_visit cur addr c)"
    "current (backlog_visit cur addr c) = current c"
proof -
  have "backlog_ok (backlog_visit cur addr c) \<and> quiet c (backlog_visit cur addr c) \<and>
      current (backlog_visit cur addr c) = current c"
  proof (cases "addr \<in> set (validators (valSet c)) \<and> map_of (backlogs c) addr \<noteq> None")
    case False
    then show ?thesis using assms by (auto simp: backlog_visit_def)
  next
    case True
    then obtain q where q: "map_of (backlogs c) addr = Some q" by blast
    obtain q' out where l: "backlog_loop cur q [] = (q', out)" by fastforce
    have fq: "foreign (valSet c) (core_Address c) m" if "m \<in> fst ` set (cont q)" for m
      using assms that map_of_SomeD [OF q] by (fastforce simp: backlog_ok_def queues_ok_def)
    have o: "set (cont q') \<subseteq> set (cont q)" "set out \<subseteq> PostBacklog ` fst ` set (cont q)"
      using backlog_loop_out [of cur q "[]"] l by simp_all
    have v: "backlog_visit cur addr c =
        emit out (c\<lparr>backlogs := AList.update addr q' (backlogs c)\<rparr>)"
      using True q l by (simp add: backlog_visit_def)
    have "queues_ok (valSet c) (core_Address c) (AList.update addr q' (backlogs c))"
      using assms fq o(1) by (intro queues_ok_update) (auto simp: backlog_ok_def)
    moreover have "list_all (silent (core_Address c)) out"
      using o(2) by (auto simp: list_all_iff)
    moreover have "foreign (valSet c) (core_Address c) m" if "PostBacklog m \<in> set out" for m
      using o(2) that by (intro fq) auto
    ultimately show ?thesis
      using assms unfolding v
      by (auto simp: backlog_ok_def core_Address_def quiet_def extends_def)
  qed
  then show "backlog_ok (backlog_visit cur addr c)" "quiet c (backlog_visit cur addr c)"
    "current (backlog_visit cur addr c) = current c" by simp_all
qed

lemma fold_backlog_visit_ok:
  "backlog_ok c \<Longrightarrow> backlog_ok (fold (backlog_visit cur) as c) \<and>
     quiet c (fold (backlog_visit cur) as c) \<and> current (fold (backlog_visit cur) as c) = current c"
proof (induction as arbitrary: c)
  case (Cons a as)
  note v = backlog_visit_ok [OF Cons.prems, of cur a]
  from Cons.IH [OF v(1)] v show ?case by (auto intro: quiet_trans)
qed simp

lemma processBacklog_returns:
  assumes "current c = Some rs" "backlog_ok c"
  shows "returns (processBacklog w c) (\<lambda>c'. current c' = current c \<and> quiet c c' \<and> backlog_ok c')"
  using assms fold_backlog_visit_ok [OF assms(2)] by (simp add: processBacklog_def)

lemma backlog_ok_quiet:
  assumes "backlog_ok c" "quiet c c'" "backlogs c' = backlogs c"
    and "\<And>m. PostBacklog m \<in> set (outbox c') \<Longrightarrow> PostBacklog m \<in> set (outbox c)"
  shows "backlog_ok c'"
  using assms quiet_keeps [OF assms(2)] by (simp add: backlog_ok_def)

lemma setCurrentState_returns:
  assumes "current c = Some rs" "backlog_ok c"
  shows "returns (setCurrentState w s c)
    (\<lambda>c'. current c' = Some (rs\<lparr>rs_state := s\<rparr>) \<and> quiet c c' \<and> backlog_ok c')"
proof -
  let ?c = "set_current (rs\<lparr>rs_state := s\<rparr>) c"
  have ok: "backlog_ok ?c" using assms(2) by (simp add: backlog_ok_def)
  have "returns (if s = StateAcceptRequest \<or> s = StateHighQC then processPendingRequests ?c else Some ?c)
      (\<lambda>c'. current c' = current ?c \<and> quiet c c' \<and> backlog_ok c')"
  proof (cases "s = StateAcceptRequest \<or> s = StateHighQC")
    case True
    with processPendingRequests_returns [of ?c "rs\<lparr>rs_state := s\<rparr>"] show ?thesis
      by (auto elim!: returns_mono intro: backlog_ok_quiet [OF ok])
  qed (use ok in simp)
  then show ?thesis
    using assms(1) unfolding setCurrentState_def
    by (auto elim!: returns_mono simp: Let_def intro: quiet_trans
        intro!: returns_mono [OF processBacklog_returns])
qed

lemma storeBacklog_returns:
  assumes "current c = Some rs" "backlog_ok c"
  shows "returns (storeBacklog m c) (\<lambda>c'. current c' = current c \<and> quiet c c' \<and> backlog_ok c')"
proof -
  have "queues_ok (valSet c) (core_Address c) (backlog_Push m (backlogs c))"
    if "foreign (valSet c) (core_Address c) m"
  proof -
    have "foreign (valSet c) (core_Address c) m'"
      if "map_of (backlogs c) (mAddress m) = Some q" "(m', pr) \<in> set (cont q)" for q m' pr
      using assms(2) that map_of_SomeD [OF that(1)] by (fastforce simp: backlog_ok_def queues_ok_def)
    with that assms(2) show ?thesis
      by (auto simp: backlog_Push_def Let_def prque_Push_set backlog_ok_def prque_New_def
          intro!: queues_ok_update split: option.split)
  qed
  with assms show ?thesis
    by (auto simp: storeBacklog_def backlog_ok_def core_Address_def foreign_def)
qed

end
