(* ===== verification/Core_Invariant.thy ===== *)
theory Core_Invariant
  imports Core_Frame
begin

text \<open>
  The invariant of the running core, its abstraction to a \<open>replica\<close>, and the operations the
  handlers are made of: each of them returns, keeps the invariant and is a sequence of steps of
  the replica.
\<close>

section \<open>The abstraction\<close>

definition abs_node :: "crypto \<Rightarrow> roundState \<Rightarrow> (hash \<times> hash) option" where
  "abs_node K rs =
    (case node rs of None \<Rightarrow> None
     | Some n \<Rightarrow> (case pb_Block n of None \<Rightarrow> None | Some b \<Rightarrow> Some (Parent n, block_Hash K b)))"

text \<open>A Go slice is shorter than \<open>2 ^ 63\<close>; longer payloads are not messages.\<close>

definition abs :: "crypto \<Rightarrow> address \<Rightarrow> roundState \<Rightarrow> effect list \<Rightarrow> replica" where
  "abs K a rs out =
    \<lparr>r_view = rs_View rs, r_node = abs_node K rs,
     r_lock = map_option (block_Hash K) (LockedBlock rs),
     r_signed = {bs. BLSSigned bs \<in> set out},
     r_sent = {p. PostMessage a p \<in> set out \<and> length p < 2 ^ 63}\<rparr>"

definition core_abs :: "crypto \<Rightarrow> Core \<Rightarrow> replica" where
  "core_abs K c = abs K (core_Address c) (the (current c)) (outbox c)"

lemma abs_silent: "list_all (silent a) out \<Longrightarrow> abs K a rs (pre @ out) = abs K a rs pre"
  by (auto simp: abs_def list_all_iff)

section \<open>The invariant\<close>

definition vs_ok :: "defaultSet \<Rightarrow> bool" where
  "vs_ok vs \<longleftrightarrow> wf_valset vs \<and> validators vs \<noteq> [] \<and> policy vs \<noteq> VRF \<and>
    (\<exists>p \<in> set (validators vs). proposer vs = Some p)"

definition votes_decode :: "MessageSet \<Rightarrow> bool" where
  "votes_decode ms \<longleftrightarrow> (\<forall>m \<in> snd ` set (ms_msgs ms). \<exists>v. DecodeBytes decodeVote (mMsg m) = Inr v)"

definition view_ok :: "roundState \<Rightarrow> bool" where
  "view_ok rs \<longleftrightarrow> 0 < rs_height rs \<and> rs_height rs < 2 ^ 63 \<and> 0 \<le> rs_round rs \<and> rs_round rs < 2 ^ 63 \<and>
    NumberU64 (lastChainedBlock rs) + 1 = rs_HeightU64 rs"

definition node_ok :: "roundState \<Rightarrow> bool" where
  "node_ok rs \<longleftrightarrow>
    (\<forall>n. node rs = Some n \<longrightarrow> (\<exists>b. pb_Block n = Some b \<and> NumberU64 b = rs_HeightU64 rs))"

definition lock_ok :: "crypto \<Rightarrow> roundState \<Rightarrow> bool" where
  "lock_ok K rs \<longleftrightarrow>
    (\<forall>lb. LockedBlock rs = Some lb \<longrightarrow> NumberU64 lb = rs_HeightU64 rs \<and>
       (\<exists>n b. node rs = Some n \<and> pb_Block n = Some b \<and> block_Hash K b = block_Hash K lb))"

definition executed_ok :: "roundState \<Rightarrow> bool" where
  "executed_ok rs \<longleftrightarrow>
    (\<forall>ex b. executed rs = Some ex \<longrightarrow> eb_Block ex = Some b \<longrightarrow> NumberU64 b = rs_HeightU64 rs)"

definition rs_inv :: "crypto \<Rightarrow> roundState \<Rightarrow> bool" where
  "rs_inv K rs \<longleftrightarrow> view_ok rs \<and> node_ok rs \<and> lock_ok K rs \<and> executed_ok rs \<and>
    votes_decode (prepareVotes rs) \<and> votes_decode (preCommitVotes rs) \<and>
    votes_decode (commitVotes rs) \<and> prepareQC rs \<noteq> None"

definition core_inv :: "crypto \<Rightarrow> Core \<Rightarrow> bool" where
  "core_inv K c \<longleftrightarrow> vs_ok (valSet c) \<and> backlog_ok c \<and> isRunning c \<and>
    (\<exists>rs. current c = Some rs \<and> rs_inv K rs \<and>
       (core_IsProposer c \<and> rs_state rs = StateHighQC \<longrightarrow> highQC rs \<noteq> None))"

text \<open>What every handler keeps: it only adds effects, and changes of the validator set no more than
  the proposer.\<close>

definition grows :: "Core \<Rightarrow> effect list \<Rightarrow> Core \<Rightarrow> bool" where
  "grows c out c' \<longleftrightarrow> (\<exists>p. valSet c' = (valSet c)\<lparr>proposer := p\<rparr>) \<and>
    backend_keeps (c_backend c) (c_backend c') \<and> isRunning c' = isRunning c \<and>
    outbox c' = outbox c @ out"

definition calm :: "effect list \<Rightarrow> bool" where
  "calm out \<longleftrightarrow> (\<forall>ex. FeedExecuted ex \<notin> set out)"

definition good :: "crypto \<Rightarrow> Core \<Rightarrow> Core \<Rightarrow> bool" where
  "good K c c' \<longleftrightarrow> core_inv K c' \<and> replica_steps K (core_abs K c) (core_abs K c') \<and>
    (\<exists>out. grows c out c' \<and> calm out)"

lemma grows_trans: "grows a x b \<Longrightarrow> grows b y c \<Longrightarrow> grows a (x @ y) c"
  by (auto simp: grows_def intro: backend_keeps_trans)

lemma extends_grows: "extends c out c' \<Longrightarrow> grows c out c'"
proof -
  assume "extends c out c'"
  moreover have "valSet c = (valSet c)\<lparr>proposer := proposer (valSet c)\<rparr>" by simp
  ultimately show ?thesis unfolding extends_def grows_def by metis
qed

lemma calm_simps [simp]: "calm []" "calm (x @ y) \<longleftrightarrow> calm x \<and> calm y"
  by (auto simp: calm_def)

lemma silent_calm: "list_all (silent a) out \<Longrightarrow> calm out"
  by (auto simp: calm_def list_all_iff)

lemma good_refl: "core_inv K c \<Longrightarrow> good K c c"
  unfolding good_def using extends_grows [of c "[]" c]
  by (auto simp: extends_def intro!: exI [of _ "[]"])

lemma good_trans: "good K a b \<Longrightarrow> good K b c \<Longrightarrow> good K a c"
  unfolding good_def using grows_trans calm_simps(2) by (meson rtranclp_trans)

lemma good_inv: "good K a b \<Longrightarrow> core_inv K b"
  by (simp add: good_def)

lemma good_returns:
  "good K a b \<Longrightarrow> returns m (good K b) \<Longrightarrow> returns m (good K a)"
  by (auto elim: returns_mono intro: good_trans)

section \<open>Steps that stay in the round\<close>

lemma core_inv_current:
  assumes "core_inv K c"
  obtains rs p where "current c = Some rs" "rs_inv K rs" "vs_ok (valSet c)" "backlog_ok c"
    "proposer (valSet c) = Some p" "p \<in> set (validators (valSet c))"
    "core_IsProposer c \<Longrightarrow> rs_state rs = StateHighQC \<Longrightarrow> highQC rs \<noteq> None"
  using assms by (auto simp: core_inv_def vs_ok_def)

text \<open>The main rule: a new round state with the invariant, reached by replica steps, and effects
  that the replica does not see.\<close>

lemma good_quiet:
  assumes "core_inv K c" "current c = Some rs" "quiet c c'" "backlog_ok c'"
    and "current c' = Some rs'" "rs_inv K rs'"
    and "core_IsProposer c \<Longrightarrow> rs_state rs' = StateHighQC \<Longrightarrow> highQC rs' \<noteq> None"
    and "replica_steps K (abs K (core_Address c) rs (outbox c)) (abs K (core_Address c) rs' (outbox c))"
  shows "good K c c'"
proof -
  obtain out where o: "extends c out c'" "list_all (silent (core_Address c)) out"
    using assms(3) by (auto simp: quiet_def)
  have "core_abs K c' = abs K (core_Address c) rs' (outbox c)"
    using o assms(5) by (simp add: core_abs_def extends_Address abs_silent) (simp add: extends_def abs_silent)
  then have "replica_steps K (core_abs K c) (core_abs K c')"
    using assms(2,8) by (simp add: core_abs_def)
  moreover have "core_inv K c'"
    using assms quiet_keeps [OF assms(3)] by (auto simp: core_inv_def)
  ultimately show ?thesis
    unfolding good_def using o extends_grows silent_calm by blast
qed

lemma good_set_current:
  assumes "core_inv K c" "current c = Some rs" "rs_inv K rs'"
    and "core_IsProposer c \<Longrightarrow> rs_state rs' = StateHighQC \<Longrightarrow> highQC rs' \<noteq> None"
    and "abs K (core_Address c) rs' (outbox c) = abs K (core_Address c) rs (outbox c) \<or>
      replica_step K (abs K (core_Address c) rs (outbox c)) (abs K (core_Address c) rs' (outbox c))"
  shows "good K c (set_current rs' c)" "good K c ((set_current rs' c)\<lparr>c_db := db\<rparr>)"
proof -
  have b: "backlog_ok c" using assms(1) by (simp add: core_inv_def)
  then have b2: "backlog_ok (set_current rs' c)" "backlog_ok ((set_current rs' c)\<lparr>c_db := db\<rparr>)"
    by (simp_all add: backlog_ok_def core_Address_def)
  have s: "replica_steps K (abs K (core_Address c) rs (outbox c)) (abs K (core_Address c) rs' (outbox c))"
    using assms(5) by auto
  show "good K c (set_current rs' c)"
    by (rule good_quiet [OF assms(1,2) _ b2(1) _ assms(3,4) s]) auto
  show "good K c ((set_current rs' c)\<lparr>c_db := db\<rparr>)"
    by (rule good_quiet [OF assms(1,2) _ b2(2) _ assms(3,4) s]) auto
qed

section \<open>Sending\<close>

definition keeps :: "Core \<Rightarrow> Core \<Rightarrow> bool" where
  "keeps c c' \<longleftrightarrow> (\<exists>out. extends c out c')"

lemma keeps_refl [simp]: "keeps c c"
  by (auto simp: keeps_def extends_def)

lemma keeps_trans: "keeps a b \<Longrightarrow> keeps b c \<Longrightarrow> keeps a c"
  unfolding keeps_def using extends_trans by blast

lemma quiet_keeps_core: "quiet c c' \<Longrightarrow> keeps c c'"
  by (auto simp: quiet_def keeps_def)

lemma keeps_same:
  assumes "keeps c c'"
  shows "valSet c' = valSet c" "core_Address c' = core_Address c"
    "core_IsProposer c' = core_IsProposer c" "signer_keeps (b_signer (c_backend c)) (b_signer (c_backend c'))"
  using assms extends_Address [of c _ c']
  by (auto simp: keeps_def core_IsProposer_def extends_def backend_keeps_def)

lemma finalizeMessage_msg_of:
  assumes "finalizeMessage K (NewCleanMessage v code pl) c = Inr p" "wf_view v" "length p < 2 ^ 63"
  shows "msg_of p code v"
proof -
  obtain sig where "hs_Encode (message_item ((NewCleanMessage v code pl)\<lparr>mSignature := sig\<rparr>)) = Inr p"
    using assms(1)
    by (auto simp: finalizeMessage_def Payload_def message_item_def NewCleanMessage_def PayloadNoSig_def
        message_Hash_def split: sum.splits prod.splits if_splits)
  then have "EncodeToBytes (message_item ((NewCleanMessage v code pl)\<lparr>mSignature := sig\<rparr>)) = Some p"
    by (auto simp: hs_Encode_def split: option.splits)
  with assms(2,3) have "DecodeBytes decodeMessage p = Inr ((NewCleanMessage v code pl)\<lparr>mSignature := sig\<rparr>)"
    by (intro message.decode_encode) (auto simp: wf_message_def NewCleanMessage_def EmptyAddress_def
        wf_lengths)
  then show ?thesis by (simp add: msg_of_def NewCleanMessage_def)
qed

lemma good_send:
  assumes "core_inv K c" "current c = Some rs" "current c' = Some rs" "backlogs c' = backlogs c"
    and "extends c (o1 @ o2) c'" "list_all to_peer o1"
    and "o2 = [] \<or> (\<exists>p. o2 = [PostMessage (core_Address c) p] \<and>
      (length p < 2 ^ 63 \<longrightarrow> msg_of p code (rs_View rs)))"
    and "code = MsgTypeCommit \<Longrightarrow> LockedBlock rs \<noteq> None"
  shows "good K c c'"
proof -
  let ?a = "core_Address c"
  have e: "valSet c' = valSet c" "core_Address c' = ?a" "isRunning c' = isRunning c"
      "core_IsProposer c' = core_IsProposer c" "outbox c' = outbox c @ o1 @ o2"
    using assms(5) extends_Address [OF assms(5)] by (auto simp: extends_def core_IsProposer_def)
  have "PostBacklog m \<notin> set (o1 @ o2)" for m
    using assms(6,7) by (auto simp: list_all_iff to_peer_def)
  then have "core_inv K c'"
    using assms(1-4) e by (auto simp: core_inv_def backlog_ok_def)
  moreover have "calm (o1 @ o2)"
    using assms(6,7) by (auto simp: calm_def list_all_iff to_peer_def)
  moreover have "replica_steps K (core_abs K c) (core_abs K c')"
  proof (cases "\<exists>p. o2 = [PostMessage ?a p] \<and> length p < 2 ^ 63")
    case True
    then obtain p where p: "o2 = [PostMessage ?a p]" "length p < 2 ^ 63" by blast
    have "abs K ?a rs (outbox c @ o1 @ o2) =
        (abs K ?a rs (outbox c))\<lparr>r_sent := insert p (r_sent (abs K ?a rs (outbox c)))\<rparr>"
      using assms(6) p by (auto simp: abs_def list_all_iff to_peer_def)
    moreover have "replica_step K (abs K ?a rs (outbox c)) \<dots>"
      using assms(7,8) p by (intro replica_step.send [of _ code]) (auto simp: abs_def)
    ultimately show ?thesis
      using e assms(2,3) by (simp add: core_abs_def r_into_rtranclp)
  next
    case False
    then have "abs K ?a rs (outbox c @ o1 @ o2) = abs K ?a rs (outbox c)"
      using assms(6,7) by (auto simp: abs_def list_all_iff to_peer_def)
    then show ?thesis using e assms(2,3) by (simp add: core_abs_def)
  qed
  ultimately show ?thesis
    unfolding good_def using extends_grows [OF assms(5)] by blast
qed

lemma rs_inv_view: "rs_inv K rs \<Longrightarrow> wf_view (rs_View rs)"
  by (simp add: rs_inv_def view_ok_def wf_view_def rs_View_def)

lemma broadcast_good:
  assumes "core_inv K c" "current c = Some rs"
    and "code = MsgTypeCommit \<Longrightarrow> LockedBlock rs \<noteq> None"
  shows "returns (broadcast K w code pl c) (\<lambda>c'. good K c c' \<and> current c' = Some rs \<and> keeps c c')"
proof -
  obtain p' where inv: "rs_inv K rs" "proposer (valSet c) = Some p'"
    using assms(1,2) by (auto elim: core_inv_current)
  have same: "good K c c \<and> keeps c c"
    using assms(1) by (simp add: good_refl)
  have fin: "length p < 2 ^ 63 \<longrightarrow> msg_of p code (rs_View rs)"
    if "finalizeMessage K (NewCleanMessage (rs_View rs) code pl) c = Inr p" for p
    using finalizeMessage_msg_of [OF that rs_inv_view [OF inv(1)]] by blast
  have post: "good K c (emit out (c\<lparr>c_backend := b\<rparr>)) \<and> keeps c (emit out (c\<lparr>c_backend := b\<rparr>))"
    if "finalizeMessage K (NewCleanMessage (rs_View rs) code pl) c = Inr p"
      "backend_keeps (c_backend c) b" "out = o1 @ o2" "list_all to_peer o1"
      "o2 = [] \<or> o2 = [PostMessage (core_Address c) p]" for p out b o1 o2
  proof -
    have ext: "extends c (o1 @ o2) (emit out (c\<lparr>c_backend := b\<rparr>))"
      using that by (simp add: extends_def)
    then have "good K c (emit out (c\<lparr>c_backend := b\<rparr>))"
      using that fin [OF that(1)] assms
      by (intro good_send [OF assms(1,2) _ _ ext, of code]) auto
    with ext that show ?thesis by (auto simp: keeps_def)
  qed
  let ?P = "\<lambda>c'. good K c c' \<and> current c' = Some rs \<and> keeps c c'"
  have uni: "returns (Unicast K w (valSet c) p (c_backend c))
      (\<lambda>(b, out). ?P (emit out (c\<lparr>c_backend := b\<rparr>)))"
    if "finalizeMessage K (NewCleanMessage (rs_View rs) code pl) c = Inr p" for p
  proof (rule returns_mono [OF Unicast_returns], use inv(2) in simp, clarify)
    fix b out
    assume "backend_keeps (c_backend c) b"
      "list_all to_peer out \<or> out = [PostMessage (backend_Address (c_backend c)) p]"
    then show "?P (emit out (c\<lparr>c_backend := b\<rparr>))"
      using post [OF that, of b out out "[]"] post [OF that, of b out "[]" out] assms(2)
      by (auto simp: core_Address_def)
  qed
  have bro: "?P (emit out (c\<lparr>c_backend := b\<rparr>))"
    if "finalizeMessage K (NewCleanMessage (rs_View rs) code pl) c = Inr p"
      "Broadcast K w (valSet c) p (c_backend c) = (b, out)" for p b out
    using Broadcast_keeps [OF that(2)] post [OF that(1)] assms(2)
    by (auto simp: core_Address_def)
  show ?thesis
    using assms(2) same uni bro unfolding broadcast_def
    by (auto split: sum.split prod.split elim!: returns_mono)
qed

lemma UnsignedVote_node:
  assumes "rs_inv K rs"
  shows "UnsignedVote K code rs = Some None \<or>
    (\<exists>n. abs_node K rs = Some n \<and> UnsignedVote K code rs = Some (Some (node_vote K code (rs_View rs) n)))"
  using assms
  by (auto simp: UnsignedVote_def rs_inv_def node_ok_def abs_node_def pb_Hash_def node_vote_def
      split: option.split)

lemma good_sign:
  assumes "core_inv K c" "current c = Some rs" "abs_node K rs = Some n"
    and "hs_Encode (vote_item (node_vote K code (rs_View rs) n)) = Inr bs"
    and "code = MsgTypeCommitVote \<Longrightarrow> LockedBlock rs \<noteq> None"
  shows "good K c (emit [BLSSigned bs] c)" "keeps c (emit [BLSSigned bs] c)"
proof -
  let ?a = "core_Address c" and ?c = "emit [BLSSigned bs] c"
  have ext: "extends c [BLSSigned bs] ?c" by (simp add: extends_def)
  then show "keeps c ?c" by (auto simp: keeps_def)
  have "replica_step K (abs K ?a rs (outbox c))
      ((abs K ?a rs (outbox c))\<lparr>r_signed := insert bs (r_signed (abs K ?a rs (outbox c)))\<rparr>)"
    using assms(3-5) by (intro replica_step.sign [of _ n]) (auto simp: abs_def)
  moreover have "(abs K ?a rs (outbox c))\<lparr>r_signed := insert bs (r_signed (abs K ?a rs (outbox c)))\<rparr>
      = abs K ?a rs (outbox c @ [BLSSigned bs])"
    by (auto simp: abs_def)
  ultimately have "replica_steps K (core_abs K c) (core_abs K ?c)"
    using assms(2) by (simp add: core_abs_def r_into_rtranclp)
  moreover have "core_inv K ?c"
    using assms(1) by (auto simp: core_inv_def backlog_ok_def)
  ultimately show "good K c ?c"
    unfolding good_def using extends_grows [OF ext] by (auto simp: calm_def)
qed

lemma sendVote_good:
  assumes "core_inv K c" "current c = Some rs" "code \<noteq> MsgTypeCommit"
    and "code = MsgTypeCommitVote \<Longrightarrow> LockedBlock rs \<noteq> None"
  shows "returns (sendVote K w code c) (\<lambda>c'. good K c c' \<and> current c' = Some rs \<and> keeps c c')"
proof -
  let ?P = "\<lambda>c'. good K c c' \<and> current c' = Some rs \<and> keeps c c'"
  have inv: "rs_inv K rs" using assms(1,2) by (auto elim: core_inv_current)
  have "?P c" using assms by (simp add: good_refl)
  moreover have "?P (emit [BLSSigned bs] c) \<and>
      returns (broadcast K w code pl (emit [BLSSigned bs] c)) ?P"
    if "abs_node K rs = Some n" "hs_Encode (vote_item (node_vote K code (rs_View rs) n)) = Inr bs"
    for n bs pl
  proof -
    note g = good_sign [OF assms(1,2) that assms(4)]
    have "returns (broadcast K w code pl (emit [BLSSigned bs] c)) ?P"
      using assms(2,3) g(2)
      by (intro returns_mono [OF broadcast_good [OF good_inv [OF g(1)], of rs code]])
        (auto intro: good_trans [OF g(1)] keeps_trans)
    with g assms(2) show ?thesis by simp
  qed
  ultimately show ?thesis
    using UnsignedVote_node [OF inv, of code] assms(2) unfolding sendVote_def
    by (auto simp: Let_def split: sum.split)
qed

end
