(* ===== verification/Core_Refinement.thy ===== *)
theory Core_Refinement
  imports Core_Invariant
begin

text \<open>
  Every handler of the core returns, keeps the invariant and refines the replica. The handlers
  are taken one by one, in the order of the protocol, on the operations of \<open>Core_Invariant\<close>.
\<close>

section \<open>Checks\<close>

definition certified :: "crypto \<Rightarrow> Core \<Rightarrow> QuorumCert \<Rightarrow> bool" where
  "certified K c qc \<longleftrightarrow> AuthQC K (b_signer (c_backend c)) qc = None"

definition for_node :: "crypto \<Rightarrow> roundState \<Rightarrow> QuorumCert \<Rightarrow> bool" where
  "for_node K rs qc \<longleftrightarrow>
    (\<exists>n. abs_node K rs = Some n \<and> qProposedBlock qc = node_hash K (fst n) (snd n))"

definition verified :: "crypto \<Rightarrow> Core \<Rightarrow> roundState \<Rightarrow> Message \<Rightarrow> QuorumCert \<Rightarrow> bool" where
  "verified K c rs data qc \<longleftrightarrow> qc_HeightU64 qc = 0 \<or>
    (certified K c qc \<and> qc_code_matches (mCode data) (qCode qc) \<and>
     (mCode data \<in> {MsgTypePreCommit, MsgTypeCommit, MsgTypeDecide} \<longrightarrow>
        qView qc = mView data \<and> for_node K rs qc))"

lemma abs_node_inv:
  "node_ok rs \<Longrightarrow> node rs = Some n \<Longrightarrow>
     \<exists>b. pb_Block n = Some b \<and> abs_node K rs = Some (Parent n, block_Hash K b) \<and>
       pb_Hash K n = Some (node_hash K (Parent n) (block_Hash K b)) \<and> NumberU64 b = rs_HeightU64 rs"
  by (auto simp: node_ok_def abs_node_def pb_Hash_def)

lemma verifyQC_current_returns:
  assumes "node_ok rs" "proposer (valSet c) = Some p"
  shows "returns (verifyQC_current K c rs data qc)
    (\<lambda>e. e = None \<longrightarrow> qView qc = mView data \<and> for_node K rs qc)"
  using assms(2) abs_node_inv [OF assms(1), where K = K]
  by (fastforce simp: verifyQC_current_def for_node_def split: option.split)

lemma verifyQC_returns:
  assumes "core_inv K c" "node_ok rs"
  shows "returns (verifyQC K c rs data qc) (\<lambda>e. e = None \<longrightarrow> verified K c rs data qc)"
proof -
  obtain p where p: "proposer (valSet c) = Some p" using assms(1) by (auto elim: core_inv_current)
  let ?cur = "mCode data = MsgTypePreCommit \<or> mCode data = MsgTypeCommit \<or> mCode data = MsgTypeDecide"
  have "returns (if ?cur then verifyQC_current K c rs data qc else Some None)
      (\<lambda>e. e = None \<longrightarrow> ?cur \<longrightarrow> qView qc = mView data \<and> for_node K rs qc)"
    using verifyQC_current_returns [OF assms(2) p, of K data qc] by (auto elim: returns_mono)
  then show ?thesis
    unfolding verifyQC_def verified_def certified_def
    by (auto elim!: returns_mono split: option.splits sum.splits prod.splits)
qed

lemma checkVote_returns:
  assumes "rs_inv K rs"
  shows "returns (checkVote K rs vote code) (\<lambda>e. e = None \<longrightarrow>
    (\<exists>n. abs_node K rs = Some n \<and> UnsignedVote K code rs = Some (Some (node_vote K code (rs_View rs) n))))"
  using UnsignedVote_node [OF assms, of code] unfolding checkVote_def
  by (auto split: sum.split)

lemma vote_shares_returns:
  "\<forall>m \<in> set ms. \<exists>v. DecodeBytes decodeVote (mMsg m) = Inr v \<Longrightarrow>
     returns (vote_shares (GetMessageVotes ms)) (\<lambda>_. True)"
  unfolding GetMessageVotes_def by (induction ms) (auto elim: returns_mono)

lemma GetMessages_decode:
  assumes "world_ok w" "rs_inv K rs" "GetMessages w code rs = Inr ms"
  shows "\<forall>m \<in> set ms. \<exists>v. DecodeBytes decodeVote (mMsg m) = Inr v"
proof -
  have "set (w_range_msgs w xs) = set xs" for xs
    using assms(1) by (metis mset_eq_setD world_ok_def)
  with assms(2,3) show ?thesis
    by (auto simp: GetMessages_def ms_Values_def rs_inv_def votes_decode_def split: if_splits)
qed

lemma messagesToQC_returns:
  assumes "core_inv K c" "world_ok w" "rs_inv K rs"
    and "UnsignedVote K code rs = Some (Some v)"
  shows "returns (messagesToQC K w code c rs) (\<lambda>_. True)"
proof -
  obtain p where p: "proposer (valSet c) = Some p" using assms(1) by (auto elim: core_inv_current)
  have "returns (vote_shares (GetMessageVotes ms)) (\<lambda>_. True)"
    if "GetMessages w code rs = Inr ms" for ms
    using GetMessages_decode [OF assms(2,3) that] by (rule vote_shares_returns)
  with p assms(4) show ?thesis
    unfolding messagesToQC_def by (auto split: sum.split)
qed

lemma votes_decode_Add:
  assumes "votes_decode ms" "DecodeBytes decodeVote (mMsg m) = Inr v" "ms_Add m ms = (e, ms')"
  shows "votes_decode ms'"
  using assms set_update_subset [of "mAddress m" m "ms_msgs ms"]
  by (fastforce simp: votes_decode_def ms_Add_eq split: if_splits)

section \<open>Changes of the round state\<close>

text \<open>The fields of the round state that neither the invariant nor the replica depends on.\<close>

lemma rs_inv_upd [simp]:
  "rs_inv K (rs\<lparr>newViews := x1\<rparr>) = rs_inv K rs"
  "rs_inv K (rs\<lparr>highQC := x2\<rparr>) = rs_inv K rs"
  "rs_inv K (rs\<lparr>rs_state := x3\<rparr>) = rs_inv K rs"
  "rs_inv K (rs\<lparr>pendingRequest := x4\<rparr>) = rs_inv K rs"
  "rs_inv K (rs\<lparr>lockQC := x5\<rparr>) = rs_inv K rs"
  "rs_inv K (rs\<lparr>committedQC := x6\<rparr>) = rs_inv K rs"
  by (simp_all add: rs_inv_def view_ok_def node_ok_def lock_ok_def executed_ok_def LockedBlock_def
      rs_HeightU64_def)

lemma abs_upd [simp]:
  "abs K a (rs\<lparr>newViews := x1\<rparr>) out = abs K a rs out"
  "abs K a (rs\<lparr>highQC := x2\<rparr>) out = abs K a rs out"
  "abs K a (rs\<lparr>rs_state := x3\<rparr>) out = abs K a rs out"
  "abs K a (rs\<lparr>pendingRequest := x4\<rparr>) out = abs K a rs out"
  "abs K a (rs\<lparr>lockQC := x5\<rparr>) out = abs K a rs out"
  "abs K a (rs\<lparr>committedQC := x6\<rparr>) out = abs K a rs out"
  "abs K a (rs\<lparr>prepareQC := x7\<rparr>) out = abs K a rs out"
  "abs K a (rs\<lparr>executed := x8\<rparr>) out = abs K a rs out"
  "abs K a (rs\<lparr>prepareVotes := x9\<rparr>) out = abs K a rs out"
  "abs K a (rs\<lparr>preCommitVotes := y1\<rparr>) out = abs K a rs out"
  "abs K a (rs\<lparr>commitVotes := y2\<rparr>) out = abs K a rs out"
  by (simp_all add: abs_def rs_View_def abs_node_def LockedBlock_def)

lemma lock_upd [simp]:
  "LockedBlock (rs\<lparr>executed := x\<rparr>) = LockedBlock rs" "rs_HeightU64 (rs\<lparr>executed := x\<rparr>) = rs_HeightU64 rs"
  "LockedBlock (rs\<lparr>rs_state := s\<rparr>) = LockedBlock rs" "rs_HeightU64 (rs\<lparr>rs_state := s\<rparr>) = rs_HeightU64 rs"
  by (simp_all add: LockedBlock_def rs_HeightU64_def)

lemma rs_inv_sets:
  assumes "rs_inv K rs"
  shows "votes_decode ms \<Longrightarrow> rs_inv K (rs\<lparr>prepareVotes := ms\<rparr>)"
    "votes_decode ms \<Longrightarrow> rs_inv K (rs\<lparr>preCommitVotes := ms\<rparr>)"
    "votes_decode ms \<Longrightarrow> rs_inv K (rs\<lparr>commitVotes := ms\<rparr>)"
    "rs_inv K (rs\<lparr>prepareQC := Some q\<rparr>)"
    "(\<And>b. eb_Block ex = Some b \<Longrightarrow> NumberU64 b = rs_HeightU64 rs) \<Longrightarrow> rs_inv K (rs\<lparr>executed := Some ex\<rparr>)"
  using assms
  by (simp_all add: rs_inv_def view_ok_def node_ok_def lock_ok_def executed_ok_def LockedBlock_def
      rs_HeightU64_def)

lemma good_state:
  assumes "core_inv K c" "current c = Some rs" "rs_inv K rs'"
    and "core_IsProposer c \<Longrightarrow> rs_state rs' = StateHighQC \<Longrightarrow> highQC rs' \<noteq> None"
    and "abs K (core_Address c) rs' (outbox c) = abs K (core_Address c) rs (outbox c)"
  shows "good K c (set_current rs' c)"
  using assms by (intro good_set_current(1)) auto

lemma take_node_good:
  assumes "core_inv K c" "current c = Some rs" "pb_Block n = Some b" "NumberU64 b = rs_HeightU64 rs"
    and "\<And>lb. LockedBlock rs = Some lb \<Longrightarrow> block_Hash K b = block_Hash K lb"
  shows "good K c (set_current (rs\<lparr>node := Some n\<rparr>) c)"
proof (rule good_set_current(1) [OF assms(1,2)])
  have inv: "rs_inv K rs" using assms(1,2) by (auto elim: core_inv_current)
  with assms(3-5) show "rs_inv K (rs\<lparr>node := Some n\<rparr>)"
    by (auto simp: rs_inv_def view_ok_def node_ok_def lock_ok_def executed_ok_def LockedBlock_def
        rs_HeightU64_def)
  show "highQC (rs\<lparr>node := Some n\<rparr>) \<noteq> None"
    if "core_IsProposer c" "rs_state (rs\<lparr>node := Some n\<rparr>) = StateHighQC"
    using assms(1,2) that by (auto elim: core_inv_current)
  let ?s = "abs K (core_Address c) rs (outbox c)"
  have "abs K (core_Address c) (rs\<lparr>node := Some n\<rparr>) (outbox c) =
      ?s\<lparr>r_node := Some (Parent n, block_Hash K b)\<rparr>"
    using assms(3) by (simp add: abs_def abs_node_def rs_View_def LockedBlock_def)
  moreover have "replica_step K ?s (?s\<lparr>r_node := Some (Parent n, block_Hash K b)\<rparr>)"
    using assms(5) by (intro replica_step.take_node) (cases "LockedBlock rs", auto simp: abs_def)
  ultimately show "abs K (core_Address c) (rs\<lparr>node := Some n\<rparr>) (outbox c) = ?s \<or>
      replica_step K ?s (abs K (core_Address c) (rs\<lparr>node := Some n\<rparr>) (outbox c))" by simp
qed

section \<open>New view\<close>

text \<open>The postcondition of a handler that returns an error.\<close>

abbreviation good_res :: "crypto \<Rightarrow> Core \<Rightarrow> err option \<times> Core \<Rightarrow> bool" where
  "good_res K c r \<equiv> good K c (snd r)"

lemma good_emit_SleepUntil:
  assumes "core_inv K c" "current c = Some rs"
  shows "good K c (emit [SleepUntil t] c)"
proof (rule good_quiet [OF assms])
  show "quiet c (emit [SleepUntil t] c)" by (rule quiet_emit) simp
  show "backlog_ok (emit [SleepUntil t] c)" using assms(1) by (simp add: core_inv_def backlog_ok_def)
qed (use assms in \<open>auto elim: core_inv_current\<close>)

lemma prepare_block_ok:
  assumes "prepare_block rs = Some b" "lock_ok K rs"
  shows "NumberU64 b = rs_HeightU64 rs" "LockedBlock rs = Some lb \<Longrightarrow> block_Hash K b = block_Hash K lb"
  using assms by (auto simp: prepare_block_def split: option.splits if_splits)

lemma sendPrepare_good:
  assumes "core_inv K c"
  shows "returns (sendPrepare K w c) (good K c)"
proof -
  obtain rs where rs: "current c = Some rs" "rs_inv K rs"
      "core_IsProposer c \<Longrightarrow> rs_state rs = StateHighQC \<Longrightarrow> highQC rs \<noteq> None"
    using assms by (auto elim: core_inv_current)
  have main: "good K c c1 \<and> returns (broadcast K w MsgTypePrepare pl
      (set_current (rs\<lparr>node := Some (NewProposedBlock q b)\<rparr>) c1)) (good K c)"
    if "prepare_block rs = Some b" "c1 = c \<or> c1 = emit [SleepUntil t] c" for b c1 t pl q
  proof -
    have g: "good K c c1" "current c1 = Some rs"
      using that(2) good_emit_SleepUntil [OF assms rs(1)] good_refl [OF assms] rs(1) by auto
    note pb = prepare_block_ok [OF that(1), of K]
    have "good K c1 (set_current (rs\<lparr>node := Some (NewProposedBlock q b)\<rparr>) c1)"
      using pb rs(2) by (intro take_node_good [OF good_inv [OF g(1)] g(2), of _ b])
        (auto simp: NewProposedBlock_def rs_inv_def)
    then have g2: "good K c (set_current (rs\<lparr>node := Some (NewProposedBlock q b)\<rparr>) c1)"
      by (rule good_trans [OF g(1)])
    with g(1) show ?thesis
      by (auto intro!: returns_mono [OF broadcast_good [OF good_inv [OF g2]]] intro: good_trans)
  qed
  show ?thesis
    using rs(1,3) good_refl [OF assms] main [OF _ disjI1 [OF refl]] main [OF _ disjI2 [OF refl]]
    unfolding sendPrepare_def
    by (auto simp: Let_def SetProposedBlock_def NewProposedBlock_def split: option.split sum.split)
qed

lemma setCurrentState_good:
  assumes "core_inv K c" "current c = Some rs" "s = StateHighQC \<Longrightarrow> core_IsProposer c \<Longrightarrow> highQC rs \<noteq> None"
  shows "returns (setCurrentState w s c)
    (\<lambda>c'. good K c c' \<and> current c' = Some (rs\<lparr>rs_state := s\<rparr>) \<and> keeps c c')"
proof -
  have b: "backlog_ok c" "rs_inv K rs" using assms(1,2) by (auto elim: core_inv_current)
  show ?thesis
  proof (rule returns_mono [OF setCurrentState_returns [OF assms(2) b(1)]], elim conjE)
    fix c'
    assume c': "current c' = Some (rs\<lparr>rs_state := s\<rparr>)" "quiet c c'" "backlog_ok c'"
    have "good K c c'"
      by (rule good_quiet [OF assms(1,2) c'(2,3,1)]) (use b assms(3) in auto)
    with c' show "good K c c' \<and> current c' = Some (rs\<lparr>rs_state := s\<rparr>) \<and> keeps c c'"
      by (auto intro: quiet_keeps_core)
  qed
qed

lemma handleNewView_good:
  assumes "core_inv K c"
  shows "returns (handleNewView K w data c) (good_res K c)"
proof -
  obtain rs where rs: "current c = Some rs" "rs_inv K rs"
      "core_IsProposer c \<Longrightarrow> rs_state rs = StateHighQC \<Longrightarrow> highQC rs \<noteq> None"
    using assms by (auto elim: core_inv_current)
  have nv: "good K c (set_current (rs\<lparr>newViews := ms\<rparr>) c)" for ms
    using rs by (intro good_state [OF assms rs(1)]) auto
  have high: "returns (setCurrentState w StateHighQC (set_current (rs\<lparr>newViews := ms, highQC := Some q\<rparr>)
        (set_current (rs\<lparr>newViews := ms\<rparr>) c)))
      (\<lambda>c'. returns (sendPrepare K w c') (good K c))" for ms q
  proof -
    let ?c = "set_current (rs\<lparr>newViews := ms, highQC := Some q\<rparr>) c"
    have eq: "set_current (rs\<lparr>newViews := ms, highQC := Some q\<rparr>) (set_current (rs\<lparr>newViews := ms\<rparr>) c) = ?c"
      by (simp add: set_current_def)
    have g: "good K c ?c" using rs by (intro good_state [OF assms rs(1)]) auto
    have "returns (setCurrentState w StateHighQC ?c) (\<lambda>c'. good K ?c c')"
      using good_inv [OF g] by (auto intro!: returns_mono [OF setCurrentState_good])
    then show ?thesis unfolding eq
    proof (rule returns_mono)
      fix c' assume "good K ?c c'"
      then have g': "good K c c'" using g good_trans by blast
      show "returns (sendPrepare K w c') (good K c)"
        by (rule good_returns [OF g' sendPrepare_good [OF good_inv [OF g']]])
    qed
  qed
  have v: "returns (verifyQC K c rs data q) (\<lambda>_. True)" for q
    using verifyQC_returns [OF assms, of rs data q] rs(2) by (auto simp: rs_inv_def elim: returns_mono)
  show ?thesis
    using rs(1) good_refl [OF assms] nv high unfolding handleNewView_def
    by (auto simp: Let_def split: sum.split option.split prod.split intro!: returns_mono [OF v]
        elim!: returns_mono)
qed

section \<open>Prepare\<close>

lemma good_backend:
  assumes "core_inv K c" "backend_keeps (c_backend c) b"
  shows "good K c (c\<lparr>c_backend := b\<rparr>)" "keeps c (c\<lparr>c_backend := b\<rparr>)"
proof -
  obtain rs where rs: "current c = Some rs" "rs_inv K rs" "backlog_ok c"
      "core_IsProposer c \<Longrightarrow> rs_state rs = StateHighQC \<Longrightarrow> highQC rs \<noteq> None"
    using assms(1) by (auto elim: core_inv_current)
  have q: "quiet c (c\<lparr>c_backend := b\<rparr>)"
    using assms(2) by (auto simp: quiet_def extends_def intro!: exI [of _ "[]"])
  have "backlog_ok (c\<lparr>c_backend := b\<rparr>)"
    using rs(3) quiet_keeps(2) [OF q] by (simp add: backlog_ok_def)
  with rs q show "good K c (c\<lparr>c_backend := b\<rparr>)"
    by (intro good_quiet [OF assms(1) rs(1) q]) auto
  show "keeps c (c\<lparr>c_backend := b\<rparr>)" by (rule quiet_keeps_core [OF q])
qed

lemma checkBlock_ok:
  assumes "checkBlock K rs b = None" "view_ok rs"
  shows "NumberU64 b = rs_HeightU64 rs" "LockedBlock rs = Some lb \<Longrightarrow> block_Hash K b = block_Hash K lb"
  using assms by (auto simp: checkBlock_def view_ok_def split: if_splits option.splits)

lemma executeBlock_good:
  assumes "core_inv K c" "current c = Some rs" "NumberU64 b = rs_HeightU64 rs"
    and "executeBlock w b rs c = (e, c')"
  shows "good K c c'" "e = None \<Longrightarrow> \<exists>ex. current c' = Some (rs\<lparr>executed := ex\<rparr>)"
proof -
  have rs: "rs_inv K rs" "core_IsProposer c \<Longrightarrow> rs_state rs = StateHighQC \<Longrightarrow> highQC rs \<noteq> None"
    using assms(1,2) by (auto elim: core_inv_current)
  have ex: "good K c (set_current (rs\<lparr>executed := Some x\<rparr>) c)" if "eb_Block x = Some b" for x
    using rs assms(3) that by (intro good_state [OF assms(1,2)] rs_inv_sets) auto
  show "good K c c'" "e = None \<Longrightarrow> \<exists>ex. current c' = Some (rs\<lparr>executed := ex\<rparr>)"
    using assms(4) ex good_refl [OF assms(1)]
    by (auto simp: executeBlock_def backend_ExecuteBlock_def split: if_splits sum.splits prod.splits)
qed

lemma acceptPrepare_good:
  assumes "core_inv K c" "current c = Some rs" "pb_Block n = Some b" "NumberU64 b = rs_HeightU64 rs"
    and "\<And>lb. LockedBlock rs = Some lb \<Longrightarrow> block_Hash K b = block_Hash K lb"
  shows "returns (acceptPrepare K w n c) (good_res K c)"
proof -
  have replica: "returns (setCurrentState w StateHighQC (set_current (rs\<lparr>node := Some n\<rparr>) c1))
      (\<lambda>c'. returns (sendVote K w MsgTypePrepareVote c') (good K c1))"
    if c1: "core_inv K c1" "current c1 = Some rs" "\<not> core_IsProposer c1" for c1
  proof -
    let ?c = "set_current (rs\<lparr>node := Some n\<rparr>) c1"
    have g: "good K c1 ?c" by (rule take_node_good [OF c1(1,2) assms(3-5)])
    show ?thesis
    proof (rule returns_mono [OF setCurrentState_good [OF good_inv [OF g]]])
      fix c'
      assume "good K ?c c' \<and> current c' = Some (rs\<lparr>node := Some n, rs_state := StateHighQC\<rparr>) \<and> keeps ?c c'"
      then have g': "good K c1 c'" and cur: "current c' = Some (rs\<lparr>node := Some n, rs_state := StateHighQC\<rparr>)"
        using g good_trans by blast+
      show "returns (sendVote K w MsgTypePrepareVote c') (good K c1)"
        by (rule returns_mono [OF sendVote_good [OF good_inv [OF g'] cur]])
          (auto intro: good_trans [OF g'])
    qed (use c1 in auto)
  qed
  have leader: "returns (sendVote K w MsgTypePrepareVote c)
      (\<lambda>c'. good K c c' \<and> current c' = Some rs \<and> core_IsProposer c' = core_IsProposer c)"
    using assms(1,2) by (auto intro!: returns_mono [OF sendVote_good] simp: keeps_same)
  show ?thesis
    using assms(2,3) leader replica [OF assms(1,2)] good_refl [OF assms(1)]
    unfolding acceptPrepare_def
    by (auto simp: SetProposedBlock_def elim!: returns_mono)
qed

lemma handlePrepare_good:
  assumes "core_inv K c"
  shows "returns (handlePrepare K w data c) (good_res K c)"
proof -
  obtain rs where rs: "current c = Some rs" "rs_inv K rs" using assms by (auto elim: core_inv_current)
  have ver: "good K c (c\<lparr>c_backend := bk\<rparr>)" if "Verify K w b (c_backend c) = (e, bk)" for b e bk
    by (rule good_backend(1) [OF assms Verify_keeps [OF that]])
  have exe: "good K c c1" "e' = None \<Longrightarrow> returns (current c1) (\<lambda>rs'.
        returns (verifyQC K c1 rs' data q) (\<lambda>_. True) \<and> returns (acceptPrepare K w n c1) (good_res K c))"
    if "pb_Block n = Some b" "checkBlock K rs b = None" "Verify K w b (c_backend c) = (e, bk)"
      "executeBlock w b rs (c\<lparr>c_backend := bk\<rparr>) = (e', c1)" for n b q e bk e' c1
  proof -
    note g = ver [OF that(3)]
    have vw: "view_ok rs" using rs(2) by (simp add: rs_inv_def)
    note cb = checkBlock_ok [OF that(2) vw]
    have x: "good K (c\<lparr>c_backend := bk\<rparr>) c1" "e' = None \<Longrightarrow> \<exists>ex. current c1 = Some (rs\<lparr>executed := ex\<rparr>)"
      using executeBlock_good [OF good_inv [OF g] _ cb(1) that(4)] rs(1) by auto
    then show g1: "good K c c1" using good_trans [OF g] by blast
    assume "e' = None"
    then obtain ex where cur: "current c1 = Some (rs\<lparr>executed := ex\<rparr>)" using x(2) by blast
    have "node_ok (rs\<lparr>executed := ex\<rparr>)" using rs(2) by (simp add: rs_inv_def node_ok_def)
    then have "returns (verifyQC K c1 (rs\<lparr>executed := ex\<rparr>) data q) (\<lambda>_. True)"
      by (auto intro: returns_mono [OF verifyQC_returns [OF good_inv [OF g1]]])
    moreover have "returns (acceptPrepare K w n c1) (good_res K c1)"
      using cb by (intro acceptPrepare_good [OF good_inv [OF g1] cur that(1)]) auto
    ultimately show "returns (current c1) (\<lambda>rs'.
        returns (verifyQC K c1 rs' data q) (\<lambda>_. True) \<and> returns (acceptPrepare K w n c1) (good_res K c))"
      using cur good_trans [OF g1] by (auto elim: returns_mono)
  qed
  have rest: "returns (do { rs \<leftarrow> current c1; e \<leftarrow> verifyQC K c1 rs data q;
        check e c1 (check_as ErrSafeNode (safeNode n q rs) c1 (acceptPrepare K w n c1)) }) (good_res K c)"
    if "pb_Block n = Some b" "checkBlock K rs b = None" "Verify K w b (c_backend c) = (e, bk)"
      "executeBlock w b rs (c\<lparr>c_backend := bk\<rparr>) = (None, c1)" for n b q e bk c1
    using exe(1) [OF that] exe(2) [OF that refl, of q]
    by (auto elim!: returns_mono split: option.split)
  show ?thesis
    using rs(1) good_refl [OF assms] unfolding handlePrepare_def checkNode_def
    by (auto simp: Let_def simp del: returns_simps(3) split: sum.split option.split prod.splits
        intro: ver exe(1) rest) 
qed

section \<open>Pre-commit\<close>

lemma keeps_upd [simp]:
  "keeps c (set_current rs c') = keeps c c'" "keeps c (c'\<lparr>c_db := db\<rparr>) = keeps c c'"
  by (simp_all add: keeps_def extends_def set_current_def)

lemma good_on_round:
  assumes "core_inv K c" "current c = Some rs" "on_round f rs c = (e, c')" "f (c_db c, rs) = (e, db, rs')"
    and "rs_inv K rs'" "rs_state rs' = rs_state rs" "highQC rs' = highQC rs"
    and "abs K (core_Address c) rs' (outbox c) = abs K (core_Address c) rs (outbox c) \<or>
      replica_step K (abs K (core_Address c) rs (outbox c)) (abs K (core_Address c) rs' (outbox c))"
  shows "good K c c'" "keeps c c'" "current c' = Some rs'"
proof -
  have c': "c' = (set_current rs' c)\<lparr>c_db := db\<rparr>" using assms(3,4) by (simp add: on_round_def)
  have "core_IsProposer c \<Longrightarrow> rs_state rs = StateHighQC \<Longrightarrow> highQC rs \<noteq> None"
    using assms(1,2) by (auto elim: core_inv_current)
  then show "good K c c'"
    unfolding c' using assms(5-8) by (intro good_set_current(2) [OF assms(1,2)]) auto
  show "keeps c c'" "current c' = Some rs'" by (simp_all add: c')
qed

lemma good_new_state:
  assumes "core_inv K c" "current c = Some rs" "s \<noteq> StateHighQC"
  shows "good K c (set_current (rs\<lparr>rs_state := s\<rparr>) c)"
  using assms by (intro good_state [OF assms(1,2)]) (auto elim: core_inv_current)

lemma SetPrepareQC_cases:
  obtains (ok) db' where "SetPrepareQC w qc (db, rs) = (None, db', rs\<lparr>prepareQC := Some qc\<rparr>)"
  | (err) e db' where "SetPrepareQC w qc (db, rs) = (Some e, db', rs)"
  by (cases "storePrepareQC w qc db"; cases "fst (storePrepareQC w qc db)")
    (auto simp: SetPrepareQC_def)

lemma acceptPrepareQC_good:
  assumes "core_inv K c" "current c = Some rs"
  shows "returns (acceptPrepareQC w qc c) (\<lambda>(e, c'). good K c c' \<and> keeps c c' \<and>
    (e = None \<longrightarrow> current c' = Some (rs\<lparr>prepareQC := Some qc, rs_state := StatePrepared\<rparr>)))"
proof -
  have inv: "rs_inv K rs" using assms by (auto elim: core_inv_current)
  obtain e c1 where c1: "on_round (SetPrepareQC w qc) rs c = (e, c1)" by fastforce
  show ?thesis
  proof (cases rule: SetPrepareQC_cases [of w qc "c_db c" rs])
    case (ok db')
    with c1 have "e = None" by (simp add: on_round_def)
    note r = good_on_round [OF assms c1 ok [folded \<open>e = None\<close>] rs_inv_sets(4) [OF inv]]
    then have g: "good K c c1" "keeps c c1" "current c1 = Some (rs\<lparr>prepareQC := Some qc\<rparr>)" by simp_all
    then show ?thesis
      using assms(2) c1 \<open>e = None\<close> good_trans [OF g(1) good_new_state [OF good_inv [OF g(1)] g(3)]]
      by (simp add: acceptPrepareQC_def)
  next
    case (err x db')
    with c1 have "e = Some x" by (simp add: on_round_def)
    note r = good_on_round [OF assms c1 err [folded \<open>e = Some x\<close>] inv]
    then show ?thesis using assms(2) c1 \<open>e = Some x\<close> by (simp add: acceptPrepareQC_def)
  qed
qed

lemma sendQC_good:
  assumes "core_inv K c" "current c = Some rs"
  shows "returns (sendPreCommit K w qc c) (good K c)"
    "LockedBlock rs \<noteq> None \<Longrightarrow> returns (sendCommit K w qc c) (good K c)"
    "returns (sendDecide K w h qc c) (good K c)"
    "returns (sendNewView K w c) (good K c)"
proof -
  have b: "returns (broadcast K w code pl c) (good K c)"
    if "code = MsgTypeCommit \<Longrightarrow> LockedBlock rs \<noteq> None" for code pl
    by (rule returns_mono [OF broadcast_good [OF assms that]]) auto
  show "returns (sendPreCommit K w qc c) (good K c)"
    "LockedBlock rs \<noteq> None \<Longrightarrow> returns (sendCommit K w qc c) (good K c)"
    "returns (sendDecide K w h qc c) (good K c)" "returns (sendNewView K w c) (good K c)"
    using assms(2) good_refl [OF assms(1)] b [of MsgTypePreCommit] b [of MsgTypeCommit]
      b [of MsgTypeDecide] b [of MsgTypeNewView]
    by (auto simp: sendPreCommit_def sendCommit_def sendDecide_def sendNewView_def split: sum.split)
qed

text \<open>The three handlers of votes have one shape: the vote is added to a set, and when the set is large
  enough a certificate is made of it and accepted.\<close>

lemma UnsignedVote_sets:
  "UnsignedVote K code (rs\<lparr>prepareVotes := ms\<rparr>) = UnsignedVote K code rs"
  "UnsignedVote K code (rs\<lparr>preCommitVotes := ms\<rparr>) = UnsignedVote K code rs"
  "UnsignedVote K code (rs\<lparr>commitVotes := ms\<rparr>) = UnsignedVote K code rs"
  by (simp_all add: UnsignedVote_def rs_View_def cong: option.case_cong if_cong)

lemma vote_checked:
  assumes "core_inv K c" "current c = Some rs" "world_ok w"
    and "UnsignedVote K code rs = Some (Some v)" "rs' = rs\<lparr>prepareVotes := ms\<rparr> \<or>
      rs' = rs\<lparr>preCommitVotes := ms\<rparr> \<or> rs' = rs\<lparr>commitVotes := ms\<rparr>" "votes_decode ms"
  shows "good K c (set_current rs' c)" "returns (messagesToQC K w code (set_current rs' c) rs') (\<lambda>_. True)"
proof -
  have inv: "rs_inv K rs" "core_IsProposer c \<Longrightarrow> rs_state rs = StateHighQC \<Longrightarrow> highQC rs \<noteq> None"
    using assms(1,2) by (auto elim: core_inv_current)
  have inv': "rs_inv K rs'" using assms(5) rs_inv_sets(1-3) [OF inv(1) assms(6)] by blast
  show g: "good K c (set_current rs' c)"
    using assms(5) inv(2) inv' by (intro good_state [OF assms(1,2)]) auto
  have "UnsignedVote K code rs' = Some (Some v)"
    using assms(4,5) by (auto simp: UnsignedVote_sets)
  then show "returns (messagesToQC K w code (set_current rs' c) rs') (\<lambda>_. True)"
    by (rule messagesToQC_returns [OF good_inv [OF g] assms(3) inv'])
qed

lemma handlePrepareVote_good:
  assumes "core_inv K c" "world_ok w" "mCode data = MsgTypePrepareVote"
  shows "returns (handlePrepareVote K w data c) (good_res K c)"
proof -
  obtain rs where rs: "current c = Some rs" "rs_inv K rs" using assms(1) by (auto elim: core_inv_current)
  have vc: "good K c (set_current (rs\<lparr>prepareVotes := ms\<rparr>) c)"
      "returns (messagesToQC K w (mCode data) (set_current (rs\<lparr>prepareVotes := ms\<rparr>) c) (rs\<lparr>prepareVotes := ms\<rparr>)) (\<lambda>_. True)"
    if "DecodeBytes decodeVote (mMsg data) = Inr v" "UnsignedVote K MsgTypePrepareVote rs = Some (Some u)"
      "ms_Add data (prepareVotes rs) = (e, ms)" for v u e ms
    using vote_checked [OF assms(1) rs(1) assms(2) that(2) disjI1 [OF refl]
        votes_decode_Add [OF _ that(1,3)]] rs(2) assms(3)
    by (simp_all add: rs_inv_def)
  have acc: "returns (acceptPrepareQC w qc c1) (\<lambda>(e, c'). good K c c' \<and>
        (e = None \<longrightarrow> returns (sendPreCommit K w qc c') (good K c)))"
    if "good K c c1" "current c1 = Some rs1" for c1 rs1 qc
    by (rule returns_mono [OF acceptPrepareQC_good [OF good_inv [OF that(1)] that(2)]])
      (auto intro: good_trans [OF that(1)] good_returns sendQC_good good_inv)
  show ?thesis
    using rs(1) good_refl [OF assms(1)] unfolding handlePrepareVote_def
    by (auto simp: Let_def split: sum.split option.split prod.split
        intro!: returns_mono [OF checkVote_returns [OF rs(2)]] returns_mono [OF vc(2)]
          returns_mono [OF acc [OF vc(1) set_current_simps(1)]] intro: vc(1))
qed

lemma verifyQC_any:
  assumes "core_inv K c" "rs_inv K rs"
  shows "returns (verifyQC K c rs data q) (\<lambda>e. e = None \<longrightarrow> verified K c rs data q)"
  using verifyQC_returns [OF assms(1), of rs data q] assms(2) by (simp add: rs_inv_def)

lemma sendVote_ok:
  assumes "good K c c'" "current c' = Some rs" "code \<noteq> MsgTypeCommit"
    and "code = MsgTypeCommitVote \<Longrightarrow> LockedBlock rs \<noteq> None"
  shows "returns (sendVote K w code c') (good K c)"
  by (rule returns_mono [OF sendVote_good [OF good_inv [OF assms(1)] assms(2-4)]])
    (auto intro: good_trans [OF assms(1)])

lemma handlePreCommit_good:
  assumes "core_inv K c"
  shows "returns (handlePreCommit K w data c) (good_res K c)"
proof -
  obtain rs where rs: "current c = Some rs" "rs_inv K rs" using assms by (auto elim: core_inv_current)
  have leader: "returns (sendVote K w MsgTypePreCommitVote c)
      (\<lambda>c'. good K c c' \<and> current c' = Some rs \<and> core_IsProposer c' = core_IsProposer c)"
    using assms rs(1) by (auto intro!: returns_mono [OF sendVote_good] simp: keeps_same)
  have acc: "returns (acceptPrepareQC w qc c) (\<lambda>(e, c'). good K c c' \<and>
        (e = None \<longrightarrow> returns (sendVote K w MsgTypePreCommitVote c') (good K c)))" for qc
    by (rule returns_mono [OF acceptPrepareQC_good [OF assms rs(1)]]) (auto intro: sendVote_ok)
  show ?thesis
    using rs(1) good_refl [OF assms] unfolding handlePreCommit_def
    by (auto split: sum.split option.split intro!: returns_mono [OF verifyQC_any [OF assms rs(2)]]
        returns_mono [OF leader] returns_mono [OF acc])
qed

section \<open>Commit\<close>

lemma Lock_result:
  "(\<exists>n db'. node rs = Some n \<and> Lock w qc (db, rs) =
      (None, db', rs\<lparr>lockQC := Some qc, lockedBlock := pb_Block n, proposalLocked := True\<rparr>)) \<or>
   (\<exists>e db'. Lock w qc (db, rs) = (Some e, db', rs))"
  by (auto simp: Lock_def split: option.split prod.split)

lemma Lock_cases:
  obtains (ok) n db' where "node rs = Some n" "Lock w qc (db, rs) =
      (None, db', rs\<lparr>lockQC := Some qc, lockedBlock := pb_Block n, proposalLocked := True\<rparr>)"
  | (err) e db' where "Lock w qc (db, rs) = (Some e, db', rs)"
  using Lock_result [of rs w qc db] by blast

lemma acceptLockQC_good:
  assumes "core_inv K c" "current c = Some rs"
  shows "returns (acceptLockQC w qc c) (\<lambda>(e, c'). good K c c' \<and> keeps c c' \<and>
    (e = None \<longrightarrow> (\<exists>rs'. current c' = Some rs' \<and> LockedBlock rs' \<noteq> None)))"
proof -
  have inv: "rs_inv K rs" using assms by (auto elim: core_inv_current)
  obtain e c1 where c1: "on_round (Lock w qc) rs c = (e, c1)" by fastforce
  show ?thesis
  proof (cases rule: Lock_cases [of rs w qc "c_db c"])
    case (ok n db')
    let ?rs = "rs\<lparr>lockQC := Some qc, lockedBlock := pb_Block n, proposalLocked := True\<rparr>"
    have e: "e = None" using c1 ok by (simp add: on_round_def)
    obtain b where b: "pb_Block n = Some b" "NumberU64 b = rs_HeightU64 rs"
      using inv ok(1) by (auto simp: rs_inv_def node_ok_def)
    have inv': "rs_inv K ?rs"
      using inv ok(1) b by (auto simp: rs_inv_def view_ok_def node_ok_def lock_ok_def executed_ok_def
          LockedBlock_def rs_HeightU64_def)
    let ?s = "abs K (core_Address c) rs (outbox c)"
    have "abs K (core_Address c) ?rs (outbox c) = ?s\<lparr>r_lock := Some (block_Hash K b)\<rparr>"
      using b by (simp add: abs_def abs_node_def rs_View_def LockedBlock_def)
    moreover have "replica_step K ?s (?s\<lparr>r_lock := Some (block_Hash K b)\<rparr>)"
      using b ok(1) by (intro replica_step.lock) (simp add: abs_def abs_node_def)
    ultimately have g: "good K c c1" "keeps c c1" "current c1 = Some ?rs"
      using good_on_round [OF assms c1 ok(2) [folded e] inv'] by simp_all
    then show ?thesis
      using assms(2) c1 e b(1) good_trans [OF g(1) good_new_state [OF good_inv [OF g(1)] g(3)]]
      by (simp add: acceptLockQC_def) (simp add: LockedBlock_def)
  next
    case (err x db')
    with c1 have "e = Some x" by (simp add: on_round_def)
    note r = good_on_round [OF assms c1 err [folded \<open>e = Some x\<close>] inv]
    then show ?thesis using assms(2) c1 \<open>e = Some x\<close> by (simp add: acceptLockQC_def)
  qed
qed

lemma handlePreCommitVote_good:
  assumes "core_inv K c" "world_ok w" "mCode data = MsgTypePreCommitVote"
  shows "returns (handlePreCommitVote K w data c) (good_res K c)"
proof -
  obtain rs where rs: "current c = Some rs" "rs_inv K rs" using assms(1) by (auto elim: core_inv_current)
  have vc: "good K c (set_current (rs\<lparr>preCommitVotes := ms\<rparr>) c)"
      "returns (messagesToQC K w (mCode data) (set_current (rs\<lparr>preCommitVotes := ms\<rparr>) c) (rs\<lparr>preCommitVotes := ms\<rparr>)) (\<lambda>_. True)"
    if "DecodeBytes decodeVote (mMsg data) = Inr v" "UnsignedVote K MsgTypePreCommitVote rs = Some (Some u)"
      "ms_Add data (preCommitVotes rs) = (e, ms)" for v u e ms
    using vote_checked [OF assms(1) rs(1) assms(2) that(2) disjI2 [OF disjI1 [OF refl]]
        votes_decode_Add [OF _ that(1,3)]] rs(2) assms(3)
    by (simp_all add: rs_inv_def)
  have acc: "returns (acceptLockQC w qc c1) (\<lambda>(e, c'). good K c c' \<and>
        (e = None \<longrightarrow> returns (sendCommit K w qc c') (good K c)))"
    if "good K c c1" "current c1 = Some rs1" for c1 rs1 qc
    by (rule returns_mono [OF acceptLockQC_good [OF good_inv [OF that(1)] that(2)]])
      (auto intro: good_trans [OF that(1)] good_returns sendQC_good(2) good_inv)
  show ?thesis
    using rs(1) good_refl [OF assms(1)] unfolding handlePreCommitVote_def
    by (auto simp: Let_def split: sum.split option.split prod.split
        intro!: returns_mono [OF checkVote_returns [OF rs(2)]] returns_mono [OF vc(2)]
          returns_mono [OF acc [OF vc(1) set_current_simps(1)]] intro: vc(1))
qed

text \<open>A leader answers its own commit message with a commit vote without locking again: it must
  be locked already.\<close>

lemma handleCommit_good:
  assumes "core_inv K c" "current c = Some rs"
    and "\<And>qc. DecodeBytes decodeQC (mMsg data) = Inr qc \<Longrightarrow> core_IsProposer c \<Longrightarrow>
      checkMsgSource c (mAddress data) = None \<Longrightarrow> checkView (rs_View rs) (qView qc) = None \<Longrightarrow>
      verified K c rs data qc \<Longrightarrow> LockedBlock rs \<noteq> None"
  shows "returns (handleCommit K w data c) (good_res K c)"
proof -
  have inv: "rs_inv K rs" using assms(1,2) by (auto elim: core_inv_current)
  have leader: "returns (sendVote K w MsgTypeCommitVote c)
      (\<lambda>c'. good K c c' \<and> current c' = Some rs \<and> core_IsProposer c' = core_IsProposer c)"
    if "LockedBlock rs \<noteq> None"
    using assms(1,2) that by (auto intro!: returns_mono [OF sendVote_good] simp: keeps_same)
  have acc: "returns (acceptLockQC w qc c) (\<lambda>(e, c'). good K c c' \<and>
        (e = None \<longrightarrow> returns (sendVote K w MsgTypeCommitVote c') (good K c)))" for qc
    by (rule returns_mono [OF acceptLockQC_good [OF assms(1,2)]]) (auto intro: sendVote_ok)
  show ?thesis
    using assms(2) good_refl [OF assms(1)] unfolding handleCommit_def
    by (auto split: sum.split option.split intro!: returns_mono [OF verifyQC_any [OF assms(1) inv]]
        returns_mono [OF leader [OF assms(3)]] returns_mono [OF acc])
qed

end
