(* ===== verification/Core_Rounds.thy ===== *)
theory Core_Rounds
  imports Core_Refinement
begin

text \<open>
  The round change and the commit: \<open>startNewRound\<close> moves the replica to a later view, and
  \<open>handleDecide\<close> hands a block to the chain. The number of the chain's head fits in 63 bits
  (\<open>chain_ok\<close>), so the 64-bit comparisons of the code are those of the numbers.
\<close>

definition chain_ok :: "world \<Rightarrow> bool" where
  "chain_ok w \<longleftrightarrow> 0 \<le> block_Number (w_currentBlock w) \<and> block_Number (w_currentBlock w) < 2 ^ 63 - 1"

section \<open>Round change\<close>

lemma big_Uint64_le:
  assumes "0 \<le> x" "x < 2 ^ 64" "0 \<le> y" "y < 2 ^ 64"
  shows "big_Uint64 x \<le> big_Uint64 y \<longleftrightarrow> x \<le> y" "big_Uint64 x < big_Uint64 y \<longleftrightarrow> x < y"
  using assms by (auto simp: word_le_nat_alt word_less_nat_alt unat_big_Uint64)

lemma big_Uint64_Suc: "0 \<le> x \<Longrightarrow> big_Uint64 (x + 1) = big_Uint64 x + 1"
  by (simp add: big_Uint64_def)

lemma NumberU64_Number: "NumberU64 b = big_Uint64 (block_Number b)"
  by (simp add: NumberU64_def block_Number_def)

lemma LastProposal_block:
  "LastProposal K w b = ((Some blk, a), b') \<Longrightarrow> blk = w_currentBlock w"
  by (auto simp: LastProposal_def Author_def Let_def split: if_splits prod.splits sum.splits)

lemma newRoundView_cases:
  assumes "newRoundView blk round c = Some (cv, v)" "current c = Some rs" "view_ok rs"
    and "0 \<le> block_Number blk" "block_Number blk < 2 ^ 63 - 1"
    and "round = 0 \<or> (rs_round rs < round \<and> round < 2 ^ 63)"
  obtains (height) "\<not> cv" "v = \<lparr>Round = 0, Height = block_Number blk + 1\<rparr>" "rs_height rs < Height v"
    | (round) "cv" "v = \<lparr>Round = round, Height = rs_height rs\<rparr>" "rs_round rs < round" "round < 2 ^ 63"
      "NumberU64 blk + 1 = rs_HeightU64 rs"
proof -
  let ?n = "block_Number blk" and ?h = "rs_height rs"
  have h: "0 < ?h" "?h < 2 ^ 63" using assms(3) by (simp_all add: view_ok_def)
  have H: "rs_HeightU64 rs = big_Uint64 (?h - 1) + 1"
    using big_Uint64_Suc [of "?h - 1"] h by (simp add: rs_HeightU64_def)
  have ge: "NumberU64 blk \<ge> rs_HeightU64 rs \<longleftrightarrow> ?n \<ge> ?h"
    using assms(4,5) h by (simp add: NumberU64_Number rs_HeightU64_def big_Uint64_le)
  have lt: "NumberU64 blk < rs_HeightU64 rs - 1 \<longleftrightarrow> ?n < ?h - 1"
    using assms(4,5) h by (simp add: NumberU64_Number H big_Uint64_le)
  show ?thesis
  proof (cases "?n \<ge> ?h")
    case True
    then show ?thesis using assms(1,2) ge by (intro height) (auto simp: newRoundView_def Let_def)
  next
    case False
    then have n: "?n = ?h - 1" "big_Sign round \<noteq> 0" "cv" "v = \<lparr>Round = round, Height = ?h\<rparr>"
      using assms(1,2) ge lt by (auto simp: newRoundView_def Let_def split: if_splits)
    then have "rs_round rs < round" "round < 2 ^ 63" using assms(6) by (auto simp: big_Sign_def)
    with n H show ?thesis by (intro round) (auto simp: NumberU64_Number)
  qed
qed

lemma vs_ok_CalcProposer: "vs_ok vs \<Longrightarrow> vs_ok (CalcProposer vs a r)"
  using selector_member [of vs a r] by (auto simp: vs_ok_def CalcProposer_def wf_valset_def)

lemma votes_decode_new [simp]: "votes_decode (NewMessageSet vs)"
  by (simp add: votes_decode_def NewMessageSet_def)

lemma rs_update_round:
  assumes "rs_inv K rs" "rs_round rs < round" "round < 2 ^ 63" "NumberU64 blk + 1 = rs_HeightU64 rs"
    and "rs' = rs_update K vs blk \<lparr>Round = round, Height = rs_height rs\<rparr> rs"
  shows "rs_inv K rs'" "replica_step K (abs K a rs out) (abs K a rs' out)"
proof -
  have h: "rs_HeightU64 rs' = rs_HeightU64 rs" "LockedBlock rs' = LockedBlock rs" "node rs' = node rs"
      "abs_node K rs' = abs_node K rs"
    by (simp_all add: assms(5) rs_update_def rs_HeightU64_def LockedBlock_def abs_node_def)
  show "rs_inv K rs'"
    using assms(1-4) h unfolding rs_inv_def view_ok_def node_ok_def lock_ok_def executed_ok_def
    by (simp add: assms(5) rs_update_def)
  have "abs K a rs' out = (abs K a rs out)\<lparr>r_view := \<lparr>Round = round, Height = rs_height rs\<rparr>\<rparr>"
    using h by (simp add: abs_def) (simp add: assms(5) rs_update_def rs_View_def)
  moreover have "replica_step K (abs K a rs out)
      ((abs K a rs out)\<lparr>r_view := \<lparr>Round = round, Height = rs_height rs\<rparr>\<rparr>)"
    using assms(2) by (intro replica_step.next_round) (simp_all add: abs_def rs_View_def)
  ultimately show "replica_step K (abs K a rs out) (abs K a rs' out)" by simp
qed

lemma rs_update_height:
  assumes "rs_inv K rs" "0 \<le> block_Number blk" "block_Number blk < 2 ^ 63 - 1"
    and "rs_height rs < block_Number blk + 1"
    and "rs' = Unlock (rs_update K vs blk \<lparr>Round = 0, Height = block_Number blk + 1\<rparr> rs)"
  shows "rs_inv K rs'" "replica_step K (abs K a rs out) (abs K a rs' out)"
proof -
  have n: "node rs' = None" "LockedBlock rs' = None" "executed rs' = None" "abs_node K rs' = None"
    by (simp_all add: assms(5) Unlock_def LockedBlock_def abs_node_def)
  show "rs_inv K rs'"
    using assms(1-4) n big_Uint64_Suc [OF assms(2)]
    unfolding rs_inv_def view_ok_def node_ok_def lock_ok_def executed_ok_def
    by (simp add: assms(5) rs_update_def Unlock_def rs_HeightU64_def NumberU64_Number)
  have "abs K a rs' out = (abs K a rs out)\<lparr>r_view := \<lparr>Round = 0, Height = block_Number blk + 1\<rparr>,
      r_node := None, r_lock := None\<rparr>"
    using n by (simp add: abs_def) (simp add: assms(5) rs_update_def Unlock_def rs_View_def)
  moreover have "replica_step K (abs K a rs out)
      ((abs K a rs out)\<lparr>r_view := \<lparr>Round = 0, Height = block_Number blk + 1\<rparr>,
        r_node := None, r_lock := None\<rparr>)"
    using assms(2,4) by (intro replica_step.next_height) (simp_all add: abs_def rs_View_def wf_view_def)
  ultimately show "replica_step K (abs K a rs out) (abs K a rs' out)" by simp
qed

lemma newRoundChangeTimer_returns:
  assumes "current c = Some rs" "backlog_ok c"
  shows "returns (newRoundChangeTimer w c) (\<lambda>c'. current c' = Some rs \<and> quiet c c' \<and> backlog_ok c')"
  using assms
  by (auto simp: newRoundChangeTimer_def stopTimer_def quiet_def extends_def backlog_ok_def core_Address_def
      emit_def)

text \<open>The core that has moved to another view, whatever the proposer of the view is.\<close>

lemma enter_good:
  assumes "core_inv K c" "current c = Some rs" "grows c [] c1" "vs_ok (valSet c1)" "backlog_ok c1"
    and "current c1 = Some rs1" "rs_inv K rs1"
    and "replica_step K (abs K (core_Address c) rs (outbox c)) (abs K (core_Address c) rs1 (outbox c))"
  shows "returns (do { c \<leftarrow> newRoundChangeTimer w c1; c \<leftarrow> setCurrentState w StateAcceptRequest c;
      sendNewView K w c }) (good K c)"
proof -
  have c1: "core_Address c1 = core_Address c" "outbox c1 = outbox c" "isRunning c1 = isRunning c"
    using assms(3) by (auto simp: grows_def core_Address_def backend_keeps_Address)
  have fin: "returns (sendNewView K w c3) (good K c)"
    if c3: "quiet c1 c3" "backlog_ok c3" "current c3 = Some (rs1\<lparr>rs_state := StateAcceptRequest\<rparr>)" for c3
  proof -
    obtain out where o: "extends c1 out c3" "list_all (silent (core_Address c)) out"
      using c3(1) c1 by (auto simp: quiet_def)
    note q = quiet_keeps [OF c3(1)]
    have "core_abs K c3 = abs K (core_Address c) rs1 (outbox c)"
      using o c1 q c3(3) by (simp add: core_abs_def) (simp add: extends_def abs_silent)
    with assms(2,8) have "replica_steps K (core_abs K c) (core_abs K c3)"
      by (auto simp: core_abs_def)
    moreover have "core_inv K c3"
      using assms(1,4,7) c3 q c1 by (auto simp: core_inv_def)
    moreover have "grows c out c3"
      using grows_trans [OF assms(3) extends_grows [OF o(1)]] by simp
    ultimately have g: "good K c c3"
      using silent_calm [OF o(2)] by (auto simp: good_def)
    show ?thesis by (rule good_returns [OF g sendQC_good(4) [OF good_inv [OF g] c3(3)]])
  qed
  show ?thesis
    using assms(5,6)
    by (auto intro!: returns_mono [OF newRoundChangeTimer_returns] returns_mono [OF setCurrentState_returns]
        fin intro: quiet_trans)
qed

lemma startNewRound_good:
  assumes "core_inv K c" "current c = Some rs" "chain_ok w"
    and "round = 0 \<or> (rs_round rs < round \<and> round < 2 ^ 63)"
  shows "returns (startNewRound K w round c) (good K c)"
proof -
  have inv: "rs_inv K rs" "vs_ok (valSet c)" "backlog_ok c"
    using assms(1,2) by (auto elim: core_inv_current)
  have same: "good K c (c\<lparr>c_backend := b\<rparr>)" if "LastProposal K w (c_backend c) = (r, b)" for r b
    by (rule good_backend(1) [OF assms(1) LastProposal_keeps [OF that]])
  have main: "returns (enterRound K w cv c2) (good K c)" "e = None"
    if lp: "LastProposal K w (c_backend c) = ((Some blk, a), b)"
      and nv: "newRoundView blk round (c\<lparr>c_backend := b\<rparr>) = Some (cv, v)"
      and up: "updateRoundState K w blk v
        (c\<lparr>c_backend := b, valSet := CalcProposer (valSet c) a r\<rparr>) = (e, c2)" for blk a b cv v r e c2
  proof -
    let ?c = "c\<lparr>c_backend := b, valSet := CalcProposer (valSet c) a r\<rparr>"
    let ?rs = "rs_update K (CalcProposer (valSet c) a r) blk v rs"
    have blk: "0 \<le> block_Number blk" "block_Number blk < 2 ^ 63 - 1"
      using assms(3) LastProposal_block [OF lp] by (simp_all add: chain_ok_def)
    have e: "e = None" "c2 = set_current ?rs ?c"
      using up assms(2) inv(1) by (auto simp: updateRoundState_def rs_inv_def rs_update_def Let_def)
    show "e = None" by (rule e)
    have k: "backend_keeps (c_backend c) b" by (rule LastProposal_keeps [OF lp])
    have g: "grows c [] (set_current rs1 ?c)" "vs_ok (valSet (set_current rs1 ?c))"
        "backlog_ok (set_current rs1 ?c)" for rs1
      using k inv(2,3) vs_ok_CalcProposer [OF inv(2), of a r]
      by (auto simp: grows_def set_current_def backlog_ok_def core_Address_def backend_keeps_Address
          CalcProposer_def queues_ok_def foreign_def)
    have view: "view_ok rs" "current (c\<lparr>c_backend := b\<rparr>) = Some rs"
      using inv(1) assms(2) by (simp_all add: rs_inv_def)
    obtain rs1 where rs1: "rs_inv K rs1" "(if cv then c2 else set_current (Unlock ?rs) c2) = set_current rs1 ?c"
      "replica_step K (abs K (core_Address c) rs (outbox c)) (abs K (core_Address c) rs1 (outbox c))"
    proof (cases rule: newRoundView_cases [OF nv view(2,1) blk assms(4)])
      case 1
      then show ?thesis
        using that [of "Unlock ?rs"] rs_update_height [OF inv(1) blk] e by (simp add: set_current_def)
    next
      case 2
      then show ?thesis using that [of ?rs] rs_update_round [OF inv(1)] e by simp
    qed
    have "returns (do { c \<leftarrow> newRoundChangeTimer w (set_current rs1 ?c);
        c \<leftarrow> setCurrentState w StateAcceptRequest c; sendNewView K w c }) (good K c)"
      by (rule enter_good [OF assms(1,2) g _ rs1(1,3)]) simp
    then show "returns (enterRound K w cv c2) (good K c)"
      using rs1(2) e(2) by (simp add: enterRound_def Let_def split: if_splits)
  qed
  show ?thesis
    using good_refl [OF assms(1)] unfolding startNewRound_def
    by (auto simp: Let_def split: prod.split option.split intro!: same main(1) dest: main(2))
qed

section \<open>Commit votes\<close>

lemma SealBlock_Number: "SealBlock lb qc = Inr s \<Longrightarrow> NumberU64 s = NumberU64 lb"
  by (auto simp: SealBlock_def SetEncodedQC_def WithSeal_def NumberU64_def block_Header_def CopyHeader_def
      split: sum.splits option.splits)

lemma reseal_executed_ok:
  assumes "executed_ok rs" "NumberU64 s = rs_HeightU64 rs" "reseal_executed K s (executed rs) = Some ex"
    "eb_Block ex = Some b"
  shows "NumberU64 b = rs_HeightU64 rs"
  using assms by (auto simp: reseal_executed_def executed_ok_def split: option.splits if_splits)

lemma SetSealedBlock_result:
  assumes "SetSealedBlock K w s (db, rs) = (e, db', rs')"
  shows "rs' = rs \<and> e \<noteq> None \<or>
    (\<exists>n nb. node rs = Some n \<and> pb_Block n = Some nb \<and> block_Hash K nb = block_Hash K s \<and>
       (e \<noteq> None \<and> rs' = rs\<lparr>node := Some (n\<lparr>pb_Block := Some s\<rparr>)\<rparr> \<or>
        e = None \<and> rs' = rs\<lparr>node := Some (n\<lparr>pb_Block := Some s\<rparr>), lockedBlock := Some s,
          executed := reseal_executed K s (executed rs)\<rparr>))"
  using assms by (auto simp: SetSealedBlock_def Let_def split: option.splits prod.splits if_splits)

lemma SetSealedBlock_inv:
  assumes "rs_inv K rs" "LockedBlock rs = Some lb" "NumberU64 s = NumberU64 lb"
    and "SetSealedBlock K w s (db, rs) = (e, db', rs')"
  shows "rs_inv K rs' \<and> abs K a rs' out = abs K a rs out \<and> rs_state rs' = rs_state rs \<and>
    highQC rs' = highQC rs \<and> (e = None \<longrightarrow> LockedBlock rs' = Some s \<and> block_Hash K s = block_Hash K lb \<and>
      rs_HeightU64 rs' = rs_HeightU64 rs)"
proof -
  have lk: "proposalLocked rs" "lockedBlock rs = Some lb"
    using assms(2) by (auto simp: LockedBlock_def split: if_splits)
  have inv: "executed_ok rs" "lock_ok K rs" using assms(1) by (simp_all add: rs_inv_def)
  have num: "NumberU64 s = rs_HeightU64 rs" using inv(2) assms(2,3) by (simp add: lock_ok_def)
  consider (same) "rs' = rs" "e \<noteq> None"
    | (part) n nb where "node rs = Some n" "pb_Block n = Some nb" "block_Hash K nb = block_Hash K s"
        "rs' = rs\<lparr>node := Some (n\<lparr>pb_Block := Some s\<rparr>)\<rparr>" "e \<noteq> None"
    | (all) n nb where "node rs = Some n" "pb_Block n = Some nb" "block_Hash K nb = block_Hash K s"
        "rs' = rs\<lparr>node := Some (n\<lparr>pb_Block := Some s\<rparr>), lockedBlock := Some s,
          executed := reseal_executed K s (executed rs)\<rparr>"
    using SetSealedBlock_result [OF assms(4)] by blast
  then show ?thesis
  proof cases
    case same
    then show ?thesis using assms(1) by auto
  next
    case part
    then have "block_Hash K s = block_Hash K lb" using inv(2) assms(2) by (auto simp: lock_ok_def)
    with part show ?thesis
      using assms(1) lk num unfolding rs_inv_def view_ok_def node_ok_def lock_ok_def executed_ok_def
      by (auto simp: rs_HeightU64_def LockedBlock_def abs_def abs_node_def rs_View_def)
  next
    case all
    then have h: "block_Hash K s = block_Hash K lb" using inv(2) assms(2) by (auto simp: lock_ok_def)
    have "executed_ok rs'"
      using all reseal_executed_ok [OF inv(1) num, of K] by (auto simp: executed_ok_def rs_HeightU64_def)
    moreover have "abs K a rs' out = abs K a rs out"
      using all lk h by (simp add: rs_HeightU64_def LockedBlock_def abs_def abs_node_def rs_View_def)
    moreover have "view_ok rs'" "node_ok rs'" "lock_ok K rs'"
      using all lk h num assms(1) unfolding rs_inv_def view_ok_def node_ok_def lock_ok_def
      by (simp_all add: rs_HeightU64_def LockedBlock_def)
    ultimately show ?thesis
      using all lk h assms(1) by (simp add: rs_inv_def LockedBlock_def rs_HeightU64_def)
  qed
qed

lemma SetCommittedQC_result:
  "\<exists>e db'. SetCommittedQC w qc (db, rs) = (e, db', if e = None then rs\<lparr>committedQC := Some qc\<rparr> else rs)"
  by (auto simp: SetCommittedQC_def split: option.split prod.split)

lemma acceptCommitQC_good:
  assumes "core_inv K c" "current c = Some rs" "LockedBlock rs = Some lb" "NumberU64 s = NumberU64 lb"
  shows "returns (acceptCommitQC K w s qc c) (\<lambda>(e, c'). good K c c' \<and> keeps c c' \<and>
    (e = None \<longrightarrow> block_Hash K s = block_Hash K lb \<and> (\<exists>rs'. current c' = Some rs' \<and>
       LockedBlock rs' = Some s \<and> rs_HeightU64 rs' = rs_HeightU64 rs)))"
proof -
  have inv: "rs_inv K rs" using assms(1,2) by (auto elim: core_inv_current)
  obtain e db' rs' where f: "SetSealedBlock K w s (c_db c, rs) = (e, db', rs')" by (metis prod.exhaust)
  obtain c1 where c1: "on_round (SetSealedBlock K w s) rs c = (e, c1)" using f by (simp add: on_round_def)
  note p = SetSealedBlock_inv [OF inv assms(3,4) f]
  have g: "good K c c1" "keeps c c1" "current c1 = Some rs'"
    using good_on_round [OF assms(1,2) c1 f] p [of "core_Address c" "outbox c"] by auto
  show ?thesis
  proof (cases e)
    case (Some x)
    then show ?thesis using assms(2) c1 g by (simp add: acceptCommitQC_def)
  next
    case None
    have inv': "rs_inv K rs'" using p [of undefined "[]"] by simp
    obtain e2 db2 where f2: "SetCommittedQC w qc (c_db c1, rs') =
        (e2, db2, if e2 = None then rs'\<lparr>committedQC := Some qc\<rparr> else rs')"
      using SetCommittedQC_result by metis
    obtain c2 where c2: "on_round (SetCommittedQC w qc) rs' c1 = (e2, c2)" using f2 by (simp add: on_round_def)
    have g2: "good K c1 c2" "keeps c1 c2" "current c2 = Some (if e2 = None then rs'\<lparr>committedQC := Some qc\<rparr> else rs')"
      using good_on_round [OF good_inv [OF g(1)] g(3) c2 f2] inv' by (simp_all split: if_splits)
    have g3: "good K c (set_current (rs2\<lparr>rs_state := StateCommitted\<rparr>) c2)" if "current c2 = Some rs2" for rs2
      using good_new_state [OF good_inv [OF g2(1)] that] good_trans g(1) g2(1) by blast
    show ?thesis
      using None c1 c2 g g2 g3 assms(2) p [of undefined "[]"] good_trans [OF g(1) g2(1)] keeps_trans [OF g(2) g2(2)]
      by (auto simp: acceptCommitQC_def LockedBlock_def rs_HeightU64_def split: option.split if_splits)
  qed
qed

lemma handleCommitVote_good:
  assumes "core_inv K c" "world_ok w" "mCode data = MsgTypeCommitVote"
  shows "returns (handleCommitVote K w data c) (good_res K c)"
proof -
  obtain rs where rs: "current c = Some rs" "rs_inv K rs" using assms(1) by (auto elim: core_inv_current)
  have vc: "good K c (set_current (rs\<lparr>commitVotes := ms\<rparr>) c)"
      "returns (messagesToQC K w (mCode data) (set_current (rs\<lparr>commitVotes := ms\<rparr>) c) (rs\<lparr>commitVotes := ms\<rparr>)) (\<lambda>_. True)"
    if "DecodeBytes decodeVote (mMsg data) = Inr v" "UnsignedVote K MsgTypeCommitVote rs = Some (Some u)"
      "ms_Add data (commitVotes rs) = (e, ms)" for v u e ms
    using vote_checked [OF assms(1) rs(1) assms(2) that(2) disjI2 [OF disjI2 [OF refl]]
        votes_decode_Add [OF _ that(1,3)]] rs(2) assms(3)
    by (simp_all add: rs_inv_def)
  have acc: "returns (acceptCommitQC K w s qc (set_current (rs\<lparr>commitVotes := ms\<rparr>) c)) (\<lambda>(e, c'). good K c c' \<and>
        (e = None \<longrightarrow> returns (sendDecide K w h qc c') (good K c)))"
    if "good K c (set_current (rs\<lparr>commitVotes := ms\<rparr>) c)" "LockedBlock rs = Some lb" "SealBlock lb qc' = Inr s"
    for s qc qc' ms lb h
  proof (rule returns_mono [OF acceptCommitQC_good [OF good_inv [OF that(1)] set_current_simps(1)]])
    show "LockedBlock (rs\<lparr>commitVotes := ms\<rparr>) = Some lb" using that(2) by (simp add: LockedBlock_def split: if_splits)
    show "NumberU64 s = NumberU64 lb" by (rule SealBlock_Number [OF that(3)])
  qed (auto intro: good_trans [OF that(1)] good_returns sendQC_good(3) good_inv)
  show ?thesis
    using rs(1) good_refl [OF assms(1)] unfolding handleCommitVote_def
    by (auto simp: Let_def split: sum.split option.split prod.split
        intro!: returns_mono [OF checkVote_returns [OF rs(2)]] returns_mono [OF vc(2)]
          returns_mono [OF acc [OF vc(1)]] intro: vc(1))
qed

end
