(* ===== verification/Core_Commit.thy ===== *)
theory Core_Commit
  imports Core_Rounds
begin

text \<open>
  The decide phase and the event loop. \<open>commits K P c c'\<close> extends \<open>good\<close> to operations that may hand
  a block to the chain: every block they hand over satisfies \<open>P\<close>.
\<close>

section \<open>Committing a block\<close>

definition commits :: "crypto \<Rightarrow> (ExecutedBlock \<Rightarrow> bool) \<Rightarrow> Core \<Rightarrow> Core \<Rightarrow> bool" where
  "commits K P c c' \<longleftrightarrow> core_inv K c' \<and> replica_steps K (core_abs K c) (core_abs K c') \<and>
    (\<exists>out. grows c out c' \<and> (\<forall>ex. FeedExecuted ex \<in> set out \<longrightarrow> P ex))"

abbreviation commits_res :: "crypto \<Rightarrow> (ExecutedBlock \<Rightarrow> bool) \<Rightarrow> Core \<Rightarrow> err option \<times> Core \<Rightarrow> bool" where
  "commits_res K P c r \<equiv> commits K P c (snd r)"

lemma good_commits: "good K c c' \<Longrightarrow> commits K P c c'"
  by (auto simp: good_def commits_def calm_def)

lemma commits_trans: "commits K P a b \<Longrightarrow> commits K P b c \<Longrightarrow> commits K P a c"
  unfolding commits_def using grows_trans by (metis (no_types, lifting) Un_iff rtranclp_trans set_append)

lemma commits_inv: "commits K P a b \<Longrightarrow> core_inv K b"
  by (simp add: commits_def)

lemma commits_current: "commits K P a b \<Longrightarrow> returns (current b) (\<lambda>_. True)"
  by (auto simp: commits_def core_inv_def)

lemma commits_mono: "commits K P a b \<Longrightarrow> (\<And>ex. P ex \<Longrightarrow> R ex) \<Longrightarrow> commits K R a b"
  by (auto simp: commits_def)

lemma startNewRound_commits:
  assumes "commits K P a b" "chain_ok w"
  shows "returns (startNewRound K w 0 b) (commits K P a)"
proof -
  obtain rs where "current b = Some rs" using commits_inv [OF assms(1)] by (auto elim: core_inv_current)
  then show ?thesis
    using assms commits_trans [OF assms(1) good_commits]
    by (auto intro!: returns_mono [OF startNewRound_good] intro: commits_inv)
qed

definition commits_block :: "crypto \<Rightarrow> roundState \<Rightarrow> hash \<Rightarrow> ExecutedBlock \<Rightarrow> bool" where
  "commits_block K rs h ex \<longleftrightarrow>
    (\<exists>b. eb_Block ex = Some b \<and> block_Hash K b = h \<and> NumberU64 b = rs_HeightU64 rs)"

lemma commits_block_height: "rs_HeightU64 rs' = rs_HeightU64 rs \<Longrightarrow> commits_block K rs' = commits_block K rs"
  by (simp add: commits_block_def fun_eq_iff)

lemma commit_execute_block:
  assumes "executed_ok rs" "NumberU64 s = rs_HeightU64 rs" "commit_execute K w s rs c = Inr ex"
  shows "commits_block K rs (block_Hash K s) ex"
  using assms
  by (auto simp: commit_execute_def commits_block_def executed_for_def executed_ok_def Let_def
      split: option.splits if_splits sum.splits)

lemma backend_Commit_out:
  assumes "backend_Commit K ex b = (e, out)"
  shows "FeedExecuted ex' \<in> set out \<Longrightarrow> ex' = ex"
    "PostBacklog m \<notin> set out" "PostMessage a p \<notin> set out" "BLSSigned bs \<notin> set out"
  using assms by (auto simp: backend_Commit_def split: option.splits if_splits)

lemma commit_returns:
  assumes "core_inv K c" "current c = Some rs" "NumberU64 s = rs_HeightU64 rs"
  shows "returns (commit K w s c) (\<lambda>(e, c'). commits K (commits_block K rs (block_Hash K s)) c c' \<and>
    core_IsProposer c' = core_IsProposer c)"
proof -
  have inv: "rs_inv K rs" "executed_ok rs" using assms(1,2) by (auto elim: core_inv_current simp: rs_inv_def)
  have main: "commits K (commits_block K rs (block_Hash K s)) c
      (emit out (set_current (rs\<lparr>executed := Some ex\<rparr>) c))"
    if ex: "commit_execute K w s rs c = Inr ex" and out: "backend_Commit K ex (c_backend c) = (e, out)"
    for ex e out
  proof -
    have b: "commits_block K rs (block_Hash K s) ex"
      by (rule commit_execute_block [OF inv(2) assms(3) ex])
    then have g: "good K c (set_current (rs\<lparr>executed := Some ex\<rparr>) c)" (is "good K c ?c")
      using assms(1) by (intro good_state [OF assms(1,2)] rs_inv_sets(5) inv(1))
        (auto simp: commits_block_def assms(2) elim: core_inv_current)
    have "commits K (commits_block K rs (block_Hash K s)) ?c (emit out ?c)"
      unfolding commits_def
    proof (intro conjI exI)
      show "core_inv K (emit out ?c)"
        using good_inv [OF g] backend_Commit_out(2) [OF out]
        by (auto simp: core_inv_def backlog_ok_def)
      have "core_abs K (emit out ?c) = core_abs K ?c"
        using backend_Commit_out(3,4) [OF out] by (simp add: core_abs_def abs_def)
      then show "replica_steps K (core_abs K ?c) (core_abs K (emit out ?c))" by simp
      show "grows ?c out (emit out ?c)" by (rule extends_grows) (simp add: extends_def)
      show "\<forall>ex. FeedExecuted ex \<in> set out \<longrightarrow> commits_block K rs (block_Hash K s) ex"
        using b backend_Commit_out(1) [OF out] by blast
    qed
    with good_commits [OF g] show ?thesis by (rule commits_trans)
  qed
  show ?thesis
    using assms(2) good_commits [OF good_refl [OF assms(1)]] main unfolding commit_def
    by (auto split: option.split sum.split prod.split)
qed

section \<open>Decide\<close>

text \<open>What a replica has checked before it hands a block to the chain.\<close>

definition decided_by :: "crypto \<Rightarrow> Core \<Rightarrow> Message \<Rightarrow> Diploma \<Rightarrow> ExecutedBlock \<Rightarrow> bool" where
  "decided_by K c data d ex \<longleftrightarrow>
    (\<exists>rs. current c = Some rs \<and> mCode data = MsgTypeDecide \<and>
       DecodeBytes decodeDiploma (mMsg data) = Inr d \<and>
       checkView (rs_View rs) (mView data) = None \<and> IsProposer (valSet c) (mAddress data) \<and>
       verified K c rs data (CommitQC d) \<and> for_node K rs (CommitQC d) \<and>
       map_option (block_Hash K) (LockedBlock rs) = Some (BlockHash d) \<and>
       commits_block K rs (BlockHash d) ex)"

definition decided :: "crypto \<Rightarrow> Core \<Rightarrow> Message \<Rightarrow> ExecutedBlock \<Rightarrow> bool" where
  "decided K c data ex \<longleftrightarrow> (\<exists>d. decided_by K c data d ex)"

lemma checkDiploma_returns:
  assumes "rs_inv K rs"
  shows "returns (checkDiploma K d rs) (\<lambda>e. e = None \<longrightarrow> for_node K rs (CommitQC d) \<and>
    (\<exists>lb. LockedBlock rs = Some lb \<and> block_Hash K lb = BlockHash d \<and> NumberU64 lb = rs_HeightU64 rs))"
proof -
  have "node_ok rs" "lock_ok K rs" using assms by (simp_all add: rs_inv_def)
  then show ?thesis
    using abs_node_inv [of rs _ K] unfolding checkDiploma_def
    by (fastforce simp: for_node_def lock_ok_def split: option.split)
qed

lemma acceptDecide_returns:
  assumes "core_inv K c" "current c = Some rs" "LockedBlock rs = Some lb"
  shows "returns (acceptDecide K w qc c) (commits_res K (commits_block K rs (block_Hash K lb)) c)"
proof -
  let ?P = "commits_block K rs (block_Hash K lb)"
  have "rs_inv K rs" using assms(1,2) by (auto elim: core_inv_current)
  then have n: "NumberU64 lb = rs_HeightU64 rs" using assms(3) by (simp add: rs_inv_def lock_ok_def)
  have refl: "commits K ?P c c" by (rule good_commits [OF good_refl [OF assms(1)]])
  have fin: "returns (commit K w s c1) (commits_res K ?P c)"
    if "good K c c1" "current c1 = Some rs1" "rs_HeightU64 rs1 = rs_HeightU64 rs"
      "NumberU64 s = NumberU64 lb" "block_Hash K s = block_Hash K lb" for s c1 rs1
    using that n commits_trans [OF good_commits [OF that(1)]] commits_block_height [OF that(3)]
    by (auto intro!: returns_mono [OF commit_returns [OF good_inv [OF that(1)] that(2)]])
  have acc: "returns (acceptCommitQC K w s qc c) (\<lambda>(e, c'). commits K ?P c c' \<and>
      (e = None \<longrightarrow> returns (commit K w s c') (commits_res K ?P c)))" if "SealBlock lb qc = Inr s" for s
    using SealBlock_Number [OF that] n
    by (auto intro!: returns_mono [OF acceptCommitQC_good [OF assms]] fin good_commits)
  show ?thesis
  proof (cases "core_IsProposer c")
    case True
    then show ?thesis
      using assms(2,3) refl unfolding acceptDecide_def
      by (auto split: option.split intro!: returns_mono [OF commit_returns [OF assms(1,2) n]] commits_current)
  next
    case False
    then show ?thesis
      using assms(2,3) refl unfolding acceptDecide_def
      by (auto split: sum.split option.split intro!: returns_mono [OF acc])
  qed
qed

lemma handleDecide_returns:
  assumes "core_inv K c" "chain_ok w" "mCode data = MsgTypeDecide"
  shows "returns (handleDecide K w data c) (commits_res K (decided K c data) c)"
proof -
  obtain rs where rs: "current c = Some rs" "rs_inv K rs" using assms(1) by (auto elim: core_inv_current)
  have refl: "commits K P c c" for P by (rule good_commits [OF good_refl [OF assms(1)]])
  have acc: "returns (acceptDecide K w (CommitQC d) c) (\<lambda>(e, c'). commits K (decided K c data) c c' \<and>
      (e = None \<longrightarrow> returns (startNewRound K w 0 c') (commits K (decided K c data) c)))"
    if "DecodeBytes decodeDiploma (mMsg data) = Inr d" "checkView (rs_View rs) (mView data) = None"
      "checkMsgSource c (mAddress data) = None" "verified K c rs data (CommitQC d)"
      "for_node K rs (CommitQC d)" "LockedBlock rs = Some lb" "block_Hash K lb = BlockHash d" for d lb
  proof -
    have "commits_block K rs (BlockHash d) ex \<Longrightarrow> decided K c data ex" for ex
      using that rs(1) assms(3) by (auto simp: decided_def decided_by_def checkMsgSource_def split: if_splits)
    then show ?thesis
      using that(7) assms(2)
      by (auto intro!: returns_mono [OF acceptDecide_returns [OF assms(1) rs(1) that(6)]]
          startNewRound_commits intro: commits_mono)
  qed
  have ver: "returns (verifyQC K c rs data qc) (\<lambda>e. e = None \<longrightarrow> verified K c rs data qc)" for qc
    using rs(2) by (intro verifyQC_returns [OF assms(1)]) (simp add: rs_inv_def)
  show ?thesis
    using rs(1) refl unfolding handleDecide_def
    by (auto split: sum.split option.split intro!: returns_mono [OF ver]
        returns_mono [OF checkDiploma_returns [OF rs(2)]] returns_mono [OF acc])
qed

lemma handleFinalCommitted_good:
  assumes "core_inv K c" "chain_ok w"
  shows "returns (handleFinalCommitted K w hdr c) (good K c)"
proof -
  obtain rs where "current c = Some rs" using assms(1) by (auto elim: core_inv_current)
  then show ?thesis
    using assms good_refl [OF assms(1)] by (auto simp: handleFinalCommitted_def intro: startNewRound_good)
qed

section \<open>Requests and timeouts\<close>

lemma storeRequestMsg_good:
  assumes "core_inv K c"
  shows "returns (storeRequestMsg r c) (good K c)"
proof -
  obtain rs where rs: "current c = Some rs" "rs_inv K rs" "backlog_ok c"
      "core_IsProposer c \<Longrightarrow> rs_state rs = StateHighQC \<Longrightarrow> highQC rs \<noteq> None"
    using assms by (auto elim: core_inv_current)
  have "good K c (c\<lparr>pendingRequests := q\<rparr>)" for q
    using rs by (intro good_quiet [OF assms rs(1) _ _ _ rs(2)]) (auto simp: backlog_ok_def core_Address_def)
  with rs(1) show ?thesis by (simp add: storeRequestMsg_def)
qed

lemma SetPendingRequest_good:
  assumes "core_inv K c" "current c = Some rs"
  shows "good K c (set_current (SetPendingRequest r rs) c)"
  using assms
  by (intro good_state [OF assms]) (auto simp: SetPendingRequest_def elim: core_inv_current split: option.split)

lemma handleRequest_good:
  assumes "core_inv K c"
  shows "returns (handleRequest K w r c) (good_res K c)"
proof -
  obtain rs where rs: "current c = Some rs" using assms by (auto elim: core_inv_current)
  have p: "returns (sendPrepare K w (set_current (SetPendingRequest r rs) c)) (good K c)"
    by (rule good_returns [OF SetPendingRequest_good [OF assms rs] sendPrepare_good])
      (rule good_inv [OF SetPendingRequest_good [OF assms rs]])
  show ?thesis
    using rs good_refl [OF assms] SetPendingRequest_good [OF assms rs] unfolding handleRequest_def
    by (auto split: option.split intro!: returns_mono [OF storeRequestMsg_good [OF assms]] returns_mono [OF p])
qed

lemma handleTimeoutMsg_good:
  assumes "core_inv K c" "current c = Some rs" "chain_ok w" "rs_round rs + 1 < 2 ^ 63"
  shows "returns (handleTimeoutMsg K w c) (good K c)"
  using assms startNewRound_good [OF assms(1-3), of "rs_round rs + 1"] by (simp add: handleTimeoutMsg_def)

section \<open>Messages\<close>

text \<open>A commit message the core has sent to itself in its view: it is locked.\<close>

definition own_commit_ok :: "Core \<Rightarrow> Message \<Rightarrow> bool" where
  "own_commit_ok c m \<longleftrightarrow>
    (\<forall>rs. current c = Some rs \<longrightarrow> mAddress m = core_Address c \<longrightarrow> mCode m = MsgTypeCommit \<longrightarrow>
       checkView (rs_View rs) (mView m) = None \<longrightarrow> LockedBlock rs \<noteq> None)"

lemma checkView_height_0:
  assumes "view_ok rs" "HeightU64 v = 0"
  shows "checkView (rs_View rs) v \<noteq> None"
proof -
  have w: "word_of_int (Height v) = (0 :: u64)"
    using assms(2) by (simp add: HeightU64_def big_Uint64_def abs_if split: if_splits)
  have "big_Int64 (Height v - rs_height rs) = big_Int64 (- rs_height rs)"
    by (simp add: big_Int64_def w)
  then have "big_Int64 (Height v - rs_height rs) < 0"
    using assms(1) by (simp add: big_Int64_id view_ok_def)
  then show ?thesis by (simp add: checkView_def View_Sub_def rs_View_def)
qed

lemma handleCommit_returns:
  assumes "core_inv K c" "own_commit_ok c data" "mCode data = MsgTypeCommit"
  shows "returns (handleCommit K w data c) (good_res K c)"
proof -
  obtain rs p where rs: "current c = Some rs" "rs_inv K rs" "proposer (valSet c) = Some p"
      "p \<in> set (validators (valSet c))"
    using assms(1) by (auto elim: core_inv_current)
  have v: "view_ok rs" using rs(2) by (simp add: rs_inv_def)
  show ?thesis
  proof (rule handleCommit_good [OF assms(1) rs(1)])
    fix qc
    assume a: "core_IsProposer c" "checkMsgSource c (mAddress data) = None"
      "checkView (rs_View rs) (qView qc) = None" "verified K c rs data qc"
    have "mAddress data = core_Address c"
      using a(1,2) IsProposer_iff [OF rs(3,4)]
      by (simp add: core_IsProposer_def checkMsgSource_def split: if_splits)
    moreover have "qc_HeightU64 qc \<noteq> 0"
      using checkView_height_0 [OF v, of "qView qc"] a(3) by (auto simp: qc_HeightU64_def HeightU64_def)
    then have "qView qc = mView data" using a(4) assms(3) by (simp add: verified_def)
    ultimately show "LockedBlock rs \<noteq> None"
      using assms(2,3) a(3) rs(1) by (simp add: own_commit_ok_def)
  qed
qed

lemma storeBacklog_good:
  assumes "core_inv K c"
  shows "returns (storeBacklog m c) (good K c)"
proof -
  obtain rs where rs: "current c = Some rs" "rs_inv K rs" "backlog_ok c"
      "core_IsProposer c \<Longrightarrow> rs_state rs = StateHighQC \<Longrightarrow> highQC rs \<noteq> None"
    using assms by (auto elim: core_inv_current)
  show ?thesis
    using rs by (auto intro!: returns_mono [OF storeBacklog_returns [OF rs(1,3)]]
        good_quiet [OF assms rs(1) _ _ _ rs(2)])
qed

lemma returns_good_commits: "returns m (good_res K c) \<Longrightarrow> returns m (commits_res K P c)"
  by (auto elim: returns_mono intro: good_commits)

lemmas handlers_commits =
  handleNewView_good [THEN returns_good_commits] handlePrepare_good [THEN returns_good_commits]
  handlePrepareVote_good [THEN returns_good_commits] handlePreCommit_good [THEN returns_good_commits]
  handlePreCommitVote_good [THEN returns_good_commits] handleCommit_returns [THEN returns_good_commits]
  handleCommitVote_good [THEN returns_good_commits]

lemma handleCheckedMsg_returns:
  assumes "core_inv K c" "world_ok w" "chain_ok w" "own_commit_ok c msg"
  shows "returns (handleCheckedMsg K w msg c) (commits_res K (decided K c msg) c)"
proof -
  have st: "returns (storeBacklog msg c') (commits K (decided K c msg) c)" if "commits K (decided K c msg) c c'" for c'
    by (rule returns_mono [OF storeBacklog_good [OF commits_inv [OF that]]])
      (rule commits_trans [OF that good_commits])
  have defers: "returns (do { (e, c) \<leftarrow> m; if e = Some ErrFutureMessage
        then do { c \<leftarrow> storeBacklog msg c; Some (e, c) } else Some (e, c) }) (commits_res K (decided K c msg) c)"
    if "returns m (commits_res K (decided K c msg) c)" for m
    by (simp, rule returns_mono [OF that], auto intro!: returns_mono [OF st])
  have cur: "current c \<noteq> None" using assms(1) by (auto elim: core_inv_current)
  show ?thesis
    unfolding handleCheckedMsg_def if_not_P [OF cur]
    using good_commits [OF good_refl [OF assms(1)]] assms
    by (intro defers) (auto intro!: handlers_commits handleDecide_returns)
qed

text \<open>A message of the core itself that it has posted is in order.\<close>

lemma own_commit_okI:
  assumes "core_inv K c" "replica_inv K (core_abs K c)" "FromPayload K src payload (Some f) = Inr m"
    and "src = core_Address c \<Longrightarrow> PostMessage src payload \<in> set (outbox c) \<and> length payload < 2 ^ 63"
  shows "own_commit_ok c m"
  unfolding own_commit_ok_def
proof (intro allI impI)
  fix rs
  assume rs: "current c = Some rs" "mAddress m = core_Address c" "mCode m = MsgTypeCommit"
    "checkView (rs_View rs) (mView m) = None"
  have v: "view_ok rs" using assms(1) rs(1) by (auto elim: core_inv_current simp: rs_inv_def)
  obtain m0 where m0: "DecodeBytes decodeMessage payload = Inr m0" "mView m = mView m0" "mCode m = mCode m0"
    using assms(3) by (auto simp: FromPayload_def PayloadNoSig_def split: sum.splits prod.splits if_splits)
  have wf: "wf_view (mView m)" "mAddress m = src" using FromPayload_sender [OF assms(3)] by auto
  have "payload \<in> r_sent (core_abs K c)"
    using assms(4) wf(2) rs(2) by (auto simp: core_abs_def abs_def)
  moreover have "sent_ok (core_abs K c)" using assms(2) by (simp add: replica_inv_def)
  ultimately have s: "mView m = r_view (core_abs K c) \<or> view_less (mView m) (r_view (core_abs K c))"
      "mView m = r_view (core_abs K c) \<Longrightarrow> r_lock (core_abs K c) \<noteq> None"
    using m0 rs(3) by (auto simp: sent_ok_def)
  have "\<not> view_less (mView m) (rs_View rs)"
  proof
    assume "view_less (mView m) (rs_View rs)"
    with v wf(1) rs(4) show False
      by (auto simp: view_less_def checkView_def View_Sub_def rs_View_def view_ok_def wf_view_def
          big_Int64_id split: if_splits)
  qed
  with s rs(1) show "LockedBlock rs \<noteq> None" by (simp add: core_abs_def abs_def)
qed

lemma foreign_own_commit_ok: "foreign (valSet c) (core_Address c) m \<Longrightarrow> own_commit_ok c m"
  by (simp add: own_commit_ok_def foreign_def)

end
