(* ===== verification/Core_Run.thy ===== *)
theory Core_Run
  imports Core_Commit
begin

text \<open>
  Runs of a node. A run starts with \<open>core_Start\<close> on a new core and goes on with events that have
  been posted, with messages of peers, and with calls of the chain and of the miner. Every state
  of a run has the invariant of the core and refines a replica, no event makes the core panic,
  and a block goes to the chain on a valid decide message only.
\<close>

section \<open>Events\<close>

lemma handleMsg_returns:
  assumes "core_inv K c" "world_ok w" "chain_ok w"
    and "\<And>m. FromPayload K src payload (Some (CheckSignature K (valSet c))) = Inr m \<Longrightarrow> own_commit_ok c m"
  shows "returns (handleMsg K w src payload c) (commits_res K (\<lambda>ex. \<exists>m. decided K c m ex) c)"
proof -
  have "returns (handleCheckedMsg K w m c) (commits_res K (\<lambda>ex. \<exists>m. decided K c m ex) c)"
    if "FromPayload K src payload (Some (CheckSignature K (valSet c))) = Inr m" for m
    by (rule returns_mono [OF handleCheckedMsg_returns [OF assms(1-3) assms(4) [OF that]]])
      (auto elim!: commits_mono)
  then show ?thesis
    using good_commits [OF good_refl [OF assms(1)]] unfolding handleMsg_def by (auto split: sum.split)
qed

text \<open>The events a running core may get: those that were posted, and the timeout. A Go slice is
  shorter than \<open>2 ^ 63\<close>, and so is the round of a running node.\<close>

definition deliverable :: "Core \<Rightarrow> event \<Rightarrow> bool" where
  "deliverable c ev \<longleftrightarrow>
    (case ev of
       RequestEvent block \<Rightarrow> PostRequest block \<in> set (outbox c)
     | MessageEvent src payload \<Rightarrow> PostMessage src payload \<in> set (outbox c) \<and> length payload < 2 ^ 63
     | BacklogEvent m \<Rightarrow> PostBacklog m \<in> set (outbox c)
     | TimeoutEvent \<Rightarrow> (case current c of None \<Rightarrow> True | Some rs \<Rightarrow> rs_round rs + 1 < 2 ^ 63)
     | FinalCommittedEvent hdr \<Rightarrow> PostFinalCommitted hdr \<in> set (outbox c))"

lemma handleEvent_returns:
  assumes "core_inv K c" "replica_inv K (core_abs K c)" "world_ok w" "chain_ok w" "deliverable c ev"
  shows "returns (handleEvent K w ev c) (commits K (\<lambda>ex. \<exists>m. decided K c m ex) c)"
proof -
  obtain rs where rs: "current c = Some rs" "backlog_ok c" using assms(1) by (auto elim: core_inv_current)
  have snd: "returns (map_option snd m) P" if "returns m (\<lambda>r. P (snd r))" for m :: res and P
    using that by (cases m) auto
  have good: "returns m (commits K P c)" if "returns m (good K c)" for m P
    using that by (auto elim: returns_mono intro: good_commits)
  show ?thesis
  proof (cases ev)
    case (RequestEvent block)
    then show ?thesis
      by (auto simp: handleEvent_def intro!: snd returns_good_commits handleRequest_good assms(1))
  next
    case (MessageEvent src payload)
    then have "own_commit_ok c m" if "FromPayload K src payload (Some (CheckSignature K (valSet c))) = Inr m" for m
      using assms(5) by (intro own_commit_okI [OF assms(1,2) that]) (auto simp: deliverable_def)
    with MessageEvent show ?thesis
      by (auto simp: handleEvent_def intro!: snd handleMsg_returns assms)
  next
    case (BacklogEvent m)
    then have "own_commit_ok c m"
      using rs(2) assms(5) by (intro foreign_own_commit_ok) (simp add: backlog_ok_def deliverable_def)
    with BacklogEvent show ?thesis
      by (auto simp: handleEvent_def intro!: snd returns_mono [OF handleCheckedMsg_returns [OF assms(1,3,4)]]
          elim!: commits_mono)
  next
    case TimeoutEvent
    then show ?thesis
      using rs assms(5) by (auto simp: handleEvent_def deliverable_def intro!: good handleTimeoutMsg_good assms)
  next
    case (FinalCommittedEvent hdr)
    then show ?thesis by (auto simp: handleEvent_def intro!: good handleFinalCommitted_good assms)
  qed
qed

section \<open>Runs\<close>

text \<open>\<open>engine\<close> stands for the calls of the chain and the miner that change caches of the engine
  only: \<open>Author\<close>, \<open>VerifyHeader\<close>, \<open>VerifyHeaders\<close>, \<open>Prepare\<close> and the wait of \<open>Seal\<close> for its result.\<close>

inductive core_step :: "crypto \<Rightarrow> Core \<Rightarrow> Core \<Rightarrow> bool" for K where
  event: "world_ok w \<Longrightarrow> chain_ok w \<Longrightarrow> deliverable c ev \<Longrightarrow> handleEvent K w ev c = Some c' \<Longrightarrow> core_step K c c'"
| peer: "world_ok w \<Longrightarrow> addr \<noteq> core_Address c \<Longrightarrow> HandleMsg K w addr code rd payload c = Some (r, e, c') \<Longrightarrow>
    core_step K c c'"
| seal: "backend_Seal K w block (c_backend c) = (r, b', out) \<Longrightarrow> core_step K c (emit out (c\<lparr>c_backend := b'\<rparr>))"
| head: "NewChainHead hdr (c_backend c) = (e, out) \<Longrightarrow> core_step K c (emit out c)"
| engine: "backend_keeps (c_backend c) b' \<Longrightarrow> core_step K c (c\<lparr>c_backend := b'\<rparr>)"

lemma good_emit:
  assumes "core_inv K c" "backend_keeps (c_backend c) b"
    and "list_all (silent (core_Address c)) out" "\<And>m. PostBacklog m \<notin> set out"
  shows "good K c (emit out (c\<lparr>c_backend := b\<rparr>))"
proof -
  note g = good_backend(1) [OF assms(1,2)]
  obtain rs where rs: "current c = Some rs" "rs_inv K rs" "backlog_ok c"
      "core_IsProposer c \<Longrightarrow> rs_state rs = StateHighQC \<Longrightarrow> highQC rs \<noteq> None"
    using assms(1) by (auto elim: core_inv_current)
  have q: "quiet c (emit out (c\<lparr>c_backend := b\<rparr>))"
    using assms(2,3) by (auto simp: quiet_def extends_def)
  show ?thesis
    using rs assms(4) quiet_keeps(2) [OF q]
    by (intro good_quiet [OF assms(1) rs(1) q _ _ rs(2)]) (auto simp: backlog_ok_def)
qed

lemma HandleMsg_good:
  assumes "core_inv K c" "addr \<noteq> core_Address c"
  shows "returns (HandleMsg K w addr code rd payload c) (\<lambda>(r, e, c'). good K c c')"
proof -
  obtain rs where rs: "current c = Some rs" "node_ok rs"
    using assms(1) by (auto elim: core_inv_current simp: rs_inv_def)
  have "backend_keeps (c_backend c) b \<and> list_all (silent (core_Address c)) out \<and> (\<forall>m. PostBacklog m \<notin> set out)"
    if "HandleMsg_hotstuff K w addr payload (c_backend c) = (e, b, out)" for e b out
    using that assms(2) by (auto simp: HandleMsg_hotstuff_def Let_def split: if_splits sum.splits option.splits)
  then have 1: "good K c (emit out (c\<lparr>c_backend := b\<rparr>))"
    if "HandleMsg_hotstuff K w addr payload (c_backend c) = (e, b, out)" for e b out
    using that by (intro good_emit [OF assms(1)]) auto
  have 2: "returns (IsCurrentProposal K h c) (\<lambda>_. True)" for h
    using rs abs_node_inv [OF rs(2), of _ K] by (auto simp: IsCurrentProposal_def split: option.split)
  show ?thesis
    using good_refl [OF assms(1)] 1 unfolding HandleMsg_def
    by (auto split: prod.split sum.split intro!: returns_mono [OF 2])
qed

lemma backend_Seal_keeps:
  "backend_Seal K w block b = (r, b', out) \<Longrightarrow> backend_keeps b b' \<and> set out \<subseteq> range PostRequest"
  by (auto simp: backend_Seal_def Let_def split: if_splits option.splits sum.splits)

lemma core_step_commits:
  assumes "core_step K c c'" "core_inv K c" "replica_inv K (core_abs K c)"
  shows "commits K (\<lambda>ex. \<exists>m. decided K c m ex) c c'"
  using assms(1)
proof cases
  case (event w ev)
  from handleEvent_returns [OF assms(2,3) event(1-3)] event(4) show ?thesis by simp
next
  case (peer w addr code rd payload r e)
  from HandleMsg_good [OF assms(2) peer(2), of w code rd payload] peer(3) show ?thesis
    by (auto intro: good_commits)
next
  case (seal w block r b' out)
  have "list_all (silent (core_Address c)) out" "PostBacklog m \<notin> set out" for m
    using backend_Seal_keeps [OF seal(2)] by (auto simp: list_all_iff)
  with seal(1) backend_Seal_keeps [OF seal(2)] show ?thesis
    by (auto intro!: good_commits good_emit assms(2))
next
  case (head hdr e out)
  have "good K c (emit out (c\<lparr>c_backend := c_backend c\<rparr>))"
    using head(2) by (intro good_emit assms(2)) (auto simp: NewChainHead_def split: if_splits)
  with head(1) show ?thesis by (simp add: good_commits)
next
  case (engine b')
  then show ?thesis by (auto intro: good_commits good_backend(1) assms(2))
qed

section \<open>The start\<close>

definition committee_ok :: "defaultSet \<Rightarrow> bool" where
  "committee_ok vs \<longleftrightarrow> wf_valset vs \<and> validators vs \<noteq> [] \<and> policy vs \<noteq> VRF"

lemma committee_CalcProposer: "committee_ok vs \<Longrightarrow> vs_ok (CalcProposer vs a r)"
  using selector_member [of vs a r] by (auto simp: committee_ok_def vs_ok_def CalcProposer_def wf_valset_def)

text \<open>The code never calls \<open>storeView\<close>, so a database it has written holds no view.\<close>

definition no_view :: "database \<Rightarrow> bool" where
  "no_view db \<longleftrightarrow> (case db of None \<Rightarrow> True | Some m \<Rightarrow> m viewKey = None)"

text \<open>A run begins with a start that has come to a prepare certificate, reloaded or new: when the first
  \<open>SetPrepareQC\<close> fails, \<open>startNewRound\<close> returns before it enters the round. Stopping and starting a core again
  is not a step.\<close>

inductive core_run :: "crypto \<Rightarrow> backend \<Rightarrow> defaultSet \<Rightarrow> Core \<Rightarrow> bool" for K b vs where
  start: "core_Start K w (core_New b db vs) = Some c \<Longrightarrow> current c = Some rs \<Longrightarrow> prepareQC rs \<noteq> None \<Longrightarrow>
    chain_ok w \<Longrightarrow> no_view db \<Longrightarrow> core_run K b vs c"
| step: "core_run K b vs c \<Longrightarrow> core_step K c c' \<Longrightarrow> core_run K b vs c'"

definition run_inv :: "crypto \<Rightarrow> backend \<Rightarrow> defaultSet \<Rightarrow> Core \<Rightarrow> bool" where
  "run_inv K b vs c \<longleftrightarrow> core_inv K c \<and> replica_inv K (core_abs K c) \<and>
    (\<exists>p. valSet c = vs\<lparr>proposer := p\<rparr>) \<and> backend_keeps b (c_backend c)"

text \<open>What \<open>reload\<close> leaves as it is.\<close>

definition same_round :: "roundState \<Rightarrow> roundState \<Rightarrow> bool" where
  "same_round s s' \<longleftrightarrow> rs_round s' = rs_round s \<and> rs_height s' = rs_height s \<and> rs_state s' = rs_state s \<and>
    lastChainedBlock s' = lastChainedBlock s \<and> prepareVotes s' = prepareVotes s \<and>
    preCommitVotes s' = preCommitVotes s \<and> commitVotes s' = commitVotes s"

lemma load_same_round:
  "no_view db \<Longrightarrow> loadView v db s = s" "same_round s (loadPrepareQC db s)" "same_round s (loadLockQC db s)"
  "same_round s (loadCommitQC db s)" "same_round s (loadNode K db s)"
  by (auto simp: same_round_def loadView_def loadPrepareQC_def loadLockQC_def loadCommitQC_def loadNode_def
      db_load_def no_view_def split: option.split sum.split)

lemma same_round_trans: "same_round a b \<Longrightarrow> same_round b c \<Longrightarrow> same_round a c"
  by (simp add: same_round_def)

lemma same_round_upd [simp]:
  "same_round s (s'\<lparr>lockedBlock := lb, proposalLocked := l\<rparr>) = same_round s s'"
  "same_round s (s'\<lparr>prepareQC := q\<rparr>) = same_round s s'"
  "same_round s (s'\<lparr>lockQC := q1, committedQC := q2\<rparr>) = same_round s s'"
  by (simp_all add: same_round_def)

lemma reload_same_round:
  assumes "no_view db"
  shows "same_round s (reload K v db s)"
proof -
  let ?s = "loadNode K db (loadCommitQC db (loadLockQC db (loadPrepareQC db s)))"
  have "same_round s ?s"
    by (meson load_same_round(2-5) same_round_trans)
  then show ?thesis
    using assms by (simp add: reload_def Let_def load_same_round(1) split: option.split)
qed

lemma Unlock_inv:
  assumes "same_round (newRoundState K vs blk \<lparr>Round = 0, Height = block_Number blk + 1\<rparr>) rs"
    and "prepareQC rs \<noteq> None" "0 \<le> block_Number blk" "block_Number blk < 2 ^ 63 - 1"
  shows "rs_inv K (Unlock rs)" "rs_state (Unlock rs) = StateAcceptRequest" "LockedBlock (Unlock rs) = None"
    "node (Unlock rs) = None"
  using assms big_Uint64_Suc [OF assms(3)]
  by (simp_all add: same_round_def newRoundState_def Unlock_def rs_inv_def view_ok_def node_ok_def lock_ok_def
      executed_ok_def LockedBlock_def rs_HeightU64_def NumberU64_Number)

lemma enter_fresh:
  assumes "core_inv K c" "current c = Some rs"
  shows "returns (do { c \<leftarrow> newRoundChangeTimer w c; c \<leftarrow> setCurrentState w StateAcceptRequest c;
      sendNewView K w c }) (\<lambda>c'. good K c c' \<and> current c' = Some (rs\<lparr>rs_state := StateAcceptRequest\<rparr>))"
proof -
  let ?rs = "rs\<lparr>rs_state := StateAcceptRequest\<rparr>"
  have inv: "rs_inv K rs" "backlog_ok c" "core_IsProposer c \<Longrightarrow> rs_state rs = StateHighQC \<Longrightarrow> highQC rs \<noteq> None"
    using assms by (auto elim: core_inv_current)
  have t: "returns (newRoundChangeTimer w c) (\<lambda>c'. good K c c' \<and> current c' = Some rs)"
    using inv by (auto intro!: returns_mono [OF newRoundChangeTimer_returns [OF assms(2)]]
        good_quiet [OF assms _ _ _ inv(1)])
  have st: "returns (setCurrentState w StateAcceptRequest c') (\<lambda>c'. good K c c' \<and> current c' = Some ?rs)"
    if "good K c c'" "current c' = Some rs" for c'
    using that by (auto intro!: returns_mono [OF setCurrentState_good] intro: good_inv good_trans)
  have b: "returns (broadcast K w MsgTypeNewView pl c') (\<lambda>c'. good K c c' \<and> current c' = Some ?rs)"
    if "good K c c'" "current c' = Some ?rs" for c' pl
    by (rule returns_mono [OF broadcast_good [OF good_inv [OF that(1)] that(2)]])
      (use good_trans [OF that(1)] in auto)
  have nv: "returns (sendNewView K w c') (\<lambda>c'. good K c c' \<and> current c' = Some ?rs)"
    if "good K c c'" "current c' = Some ?rs" for c'
    using that b [OF that] unfolding sendNewView_def by (auto split: sum.split)
  show ?thesis by (auto intro!: returns_mono [OF t] returns_mono [OF st] nv)
qed

lemma update_fresh:
  assumes "updateRoundState K w blk v c = (e, c2)" "current c = None" "no_view (c_db c)"
  shows "\<exists>rs1 db1. c2 = (set_current rs1 c)\<lparr>c_db := db1\<rparr> \<and> same_round (newRoundState K (valSet c) blk v) rs1 \<and>
    (e = None \<longleftrightarrow> prepareQC rs1 \<noteq> None)"
proof -
  let ?rs = "reload K v (c_db c) (newRoundState K (valSet c) blk v)" and ?qc = "buildRoundStartQC K blk"
  have same: "same_round (newRoundState K (valSet c) blk v) ?rs" by (rule reload_same_round [OF assms(3)])
  have c: "set_current rs c = (set_current rs c)\<lparr>c_db := c_db c\<rparr>" for rs by (simp add: set_current_def)
  show ?thesis
  proof (cases "prepareQC ?rs")
    case (Some q)
    with assms(1,2) same c [of ?rs] show ?thesis by (auto simp: updateRoundState_def Let_def)
  next
    case None
    show ?thesis
    proof (cases rule: SetPrepareQC_cases [of w ?qc "c_db c" ?rs])
      case (ok db')
      with None assms(1,2) same show ?thesis
        by (auto simp: updateRoundState_def Let_def on_round_def set_current_def
            intro!: exI [of _ "?rs\<lparr>prepareQC := Some ?qc, lockQC := None, committedQC := None\<rparr>"] exI [of _ db'])
    next
      case (err e' db')
      with None assms(1,2) same show ?thesis
        by (auto simp: updateRoundState_def Let_def on_round_def set_current_def
            intro!: exI [of _ ?rs] exI [of _ db'])
    qed
  qed
qed

text \<open>The core that \<open>core_Start\<close> has put into its first round.\<close>

lemma started:
  assumes "committee_ok vs" "LastProposal K w b = ((Some blk, a), b')" "chain_ok w" "no_view db"
    and "updateRoundState K w blk \<lparr>Round = 0, Height = block_Number blk + 1\<rparr>
        ((core_New b' db (CalcProposer vs a 0))\<lparr>isRunning := True\<rparr>) = (None, c2)" "keccak_size K"
  shows "returns (enterRound K w False c2) (\<lambda>c. run_inv K b vs c \<and>
    (\<exists>rs. current c = Some rs \<and> rs_View rs = \<lparr>Round = 0, Height = block_Number blk + 1\<rparr> \<and>
       rs_state rs = StateAcceptRequest \<and> LockedBlock rs = None \<and> lastChainedBlock rs = blk))"
proof -
  let ?vs = "CalcProposer vs a 0" and ?v = "\<lparr>Round = 0, Height = block_Number blk + 1\<rparr>"
  let ?c = "(core_New b' db ?vs)\<lparr>isRunning := True\<rparr>"
  have blk: "0 \<le> block_Number blk" "block_Number blk < 2 ^ 63 - 1"
    using assms(3) LastProposal_block [OF assms(2)] by (simp_all add: chain_ok_def)
  obtain rs1 db1 where c2: "c2 = (set_current rs1 ?c)\<lparr>c_db := db1\<rparr>"
    "same_round (newRoundState K ?vs blk ?v) rs1" "prepareQC rs1 \<noteq> None"
    using update_fresh [OF assms(5)] assms(4) by (auto simp: core_New_def)
  let ?c3 = "set_current (Unlock rs1) c2"
  note u = Unlock_inv [OF c2(2,3) blk]
  have inv: "core_inv K ?c3"
    using u c2(1) committee_CalcProposer [OF assms(1)]
    by (auto simp: core_inv_def core_New_def backlog_ok_def queues_ok_def set_current_def)
  have v: "rs_View (Unlock rs1) = ?v"
    using c2(2) by (simp add: same_round_def newRoundState_def Unlock_def rs_View_def)
  then have rep: "replica_inv K (core_abs K ?c3)"
    using u(3,4) c2(1) blk(1)
    by (auto simp: replica_inv_def core_abs_def abs_def abs_node_def core_New_def set_current_def sent_ok_def
        signed_ok_def wf_view_def)
  have run: "run_inv K b vs c" if g: "good K ?c3 c" for c
  proof -
    have "replica_inv K (core_abs K c)"
      using g replica_steps_inv [OF _ rep assms(6)] by (auto simp: good_def)
    moreover have "backend_keeps b (c_backend c)" "\<exists>p. valSet c = vs\<lparr>proposer := p\<rparr>"
      using g LastProposal_keeps [OF assms(2)] c2(1)
      by (auto simp: good_def grows_def set_current_def core_New_def CalcProposer_def intro: backend_keeps_trans)
    ultimately show ?thesis using good_inv [OF g] by (simp add: run_inv_def)
  qed
  have "returns (enterRound K w False c2)
      (\<lambda>c. good K ?c3 c \<and> current c = Some ((Unlock rs1)\<lparr>rs_state := StateAcceptRequest\<rparr>))"
    using enter_fresh [OF inv set_current_simps(1)] c2(1) by (simp add: enterRound_def Let_def set_current_def)
  then show ?thesis
    by (rule returns_mono)
      (use run v u(3) c2(2) in \<open>auto simp: rs_View_def same_round_def newRoundState_def Unlock_def\<close>)
qed

lemma start_cases:
  assumes "core_Start K w (core_New b db vs) = Some c" "current c = Some rs"
  obtains blk a b' e c2 where "LastProposal K w b = ((Some blk, a), b')"
    "updateRoundState K w blk \<lparr>Round = 0, Height = block_Number blk + 1\<rparr>
        ((core_New b' db (CalcProposer vs a 0))\<lparr>isRunning := True\<rparr>) = (e, c2)"
    "if e = None then enterRound K w False c2 = Some c else c = c2"
  using assms
  by (auto simp: core_Start_def core_New_def startNewRound_def newRoundView_def Let_def big_Uint64_def
      split: prod.splits option.splits)

lemma start_inv:
  assumes "committee_ok vs" "core_Start K w (core_New b db vs) = Some c"
    and "current c = Some rs" "prepareQC rs \<noteq> None" "chain_ok w" "no_view db" "keccak_size K"
  shows "run_inv K b vs c" "LockedBlock rs = None"
proof -
  obtain blk a b' e c2 where st: "LastProposal K w b = ((Some blk, a), b')"
    "updateRoundState K w blk \<lparr>Round = 0, Height = block_Number blk + 1\<rparr>
        ((core_New b' db (CalcProposer vs a 0))\<lparr>isRunning := True\<rparr>) = (e, c2)"
    "if e = None then enterRound K w False c2 = Some c else c = c2"
    by (rule start_cases [OF assms(2,3)])
  have "e = None"
    using update_fresh [OF st(2)] st(3) assms(3,4,6) by (auto simp: core_New_def set_current_def split: if_splits)
  with started [OF assms(1) st(1) assms(5,6) _ assms(7), of c2] st(2,3) assms(3)
  show "run_inv K b vs c" "LockedBlock rs = None" by auto
qed

lemma update_fresh_ok:
  assumes "w_dbPut w prepareQCKey = None" "0 \<le> block_Number blk" "current c = None"
  shows "fst (updateRoundState K w blk v c) = None"
proof -
  have "encodable (qc_item (buildRoundStartQC K blk))"
    using assms(2) by (simp add: buildRoundStartQC_def wf_view_def)
  then have "fst (SetPrepareQC w (buildRoundStartQC K blk) (db, rs)) = None" for db rs
    using assms(1) by (simp add: SetPrepareQC_def storePrepareQC_def db_store_def hs_Encode_def EncodeToBytes_raw
        split: option.split)
  then show ?thesis
    using assms(3) by (auto simp: updateRoundState_def Let_def on_round_def split: option.split prod.split)
      (metis fst_conv option.distinct(1))
qed

lemma start_succeeds:
  assumes "committee_ok vs" "keccak_size K" "chain_ok w" "no_view db"
    and "fst (fst (LastProposal K w b)) \<noteq> None" "w_dbPut w prepareQCKey = None"
  shows "\<exists>c rs. core_Start K w (core_New b db vs) = Some c \<and> run_inv K b vs c \<and> current c = Some rs \<and>
    rs_View rs = \<lparr>Round = 0, Height = block_Number (w_currentBlock w) + 1\<rparr> \<and>
    rs_state rs = StateAcceptRequest \<and> LockedBlock rs = None \<and> lastChainedBlock rs = w_currentBlock w"
proof -
  obtain blk a b' where lp: "LastProposal K w b = ((Some blk, a), b')"
    using assms(5) by (metis fst_conv not_None_eq prod.exhaust)
  have blk: "blk = w_currentBlock w" by (rule LastProposal_block [OF lp])
  let ?v = "\<lparr>Round = 0, Height = block_Number blk + 1\<rparr>"
  let ?c = "(core_New b' db (CalcProposer vs a 0))\<lparr>isRunning := True\<rparr>"
  have "fst (updateRoundState K w blk ?v ?c) = None"
    using assms(3,6) blk by (intro update_fresh_ok) (simp_all add: chain_ok_def core_New_def)
  then obtain c2 where up: "updateRoundState K w blk ?v ?c = (None, c2)" by (metis prod.collapse)
  from returnsD [OF started [OF assms(1) lp assms(3,4) up assms(2)]]
  obtain c rs where c: "enterRound K w False c2 = Some c" "run_inv K b vs c" "current c = Some rs"
    "rs_View rs = ?v" "rs_state rs = StateAcceptRequest" "LockedBlock rs = None" "lastChainedBlock rs = blk" by blast
  have "core_Start K w (core_New b db vs) = enterRound K w False c2"
    using lp up by (simp add: core_Start_def core_New_def startNewRound_def newRoundView_def Let_def big_Uint64_def)
  with c blk show ?thesis by auto
qed

theorem core_run_inv:
  assumes "core_run K b vs c" "committee_ok vs" "keccak_size K"
  shows "run_inv K b vs c"
  using assms(1)
proof induction
  case (start w db c rs)
  then show ?case using assms by (intro start_inv)
next
  case (step c c')
  then have inv: "core_inv K c" "replica_inv K (core_abs K c)" by (simp_all add: run_inv_def)
  from core_step_commits [OF step(2) inv] step.IH replica_steps_inv [OF _ inv(2) assms(3)] show ?case
    by (auto simp: commits_def run_inv_def grows_def intro: backend_keeps_trans)
qed

end
