(* ===== verification/Agreement.thy ===== *)
theory Agreement
  imports Core_Run
begin

text \<open>
  Agreement of the network. At most \<open>F\<close> validators are faulty, every other validator is a node
  with the invariant of \<open>Core_Run\<close>, and an aggregated signature that verifies was made from the
  shares of at least \<open>Q\<close> validators (\<open>bls_sound\<close>, the unforgeability of threshold signatures).
  Then two commit certificates of one height are for one block, and so are two blocks that nodes
  hand to their chains.
\<close>

section \<open>Certificates\<close>

text \<open>Unforgeability with threshold \<open>Q\<close>: an aggregated signature that verifies is made of the shares of at least
  \<open>Q\<close> validators, and the correct ones among them have signed the data themselves, in the run they are in.\<close>

definition bls_sound :: "crypto \<Rightarrow> bytes \<Rightarrow> defaultSet \<Rightarrow> address set \<Rightarrow> (address \<Rightarrow> Core) \<Rightarrow> bool" where
  "bls_sound K pub vs Byz net \<longleftrightarrow>
    (\<forall>data sig. bls_Verify K pub data sig = None \<longrightarrow>
       (\<exists>S. S \<subseteq> set (validators vs) \<and> Q vs \<le> int (card S) \<and>
          (\<forall>a \<in> S - Byz. BLSSigned data \<in> set (outbox (net a)))))"

definition network_ok :: "crypto \<Rightarrow> defaultSet \<Rightarrow> address set \<Rightarrow> (address \<Rightarrow> backend) \<Rightarrow> (address \<Rightarrow> Core) \<Rightarrow> bool" where
  "network_ok K vs Byz bk net \<longleftrightarrow> committee_ok vs \<and> finite Byz \<and> int (card Byz) \<le> F vs \<and>
    (\<forall>a \<in> set (validators vs) - Byz. run_inv K (bk a) vs (net a))"

text \<open>A certificate of commit votes that \<open>AuthQC\<close> has checked, not one of height 0, which it
  accepts unchecked.\<close>

definition commit_certificate :: "crypto \<Rightarrow> bytes \<Rightarrow> QuorumCert \<Rightarrow> bool" where
  "commit_certificate K pub qc \<longleftrightarrow> wf_qc qc \<and> qCode qc = MsgTypeCommitVote \<and> qc_HeightU64 qc \<noteq> 0 \<and>
    (\<exists>s. s_blsPubPoly s = pub \<and> AuthQC K s qc = None) \<and>
    (\<forall>data. hs_Encode (vote_item (qc_vote qc)) = Inr data \<longrightarrow> length data < 2 ^ 63)"

lemma certificate_signers:
  assumes "bls_sound K pub vs Byz net" "commit_certificate K pub qc"
  obtains S data where "S \<subseteq> set (validators vs)" "Q vs \<le> int (card S)"
    "hs_Encode (vote_item (qc_vote qc)) = Inr data" "length data < 2 ^ 64"
    "wf_vote (qc_vote qc)" "vCode (qc_vote qc) = MsgTypeCommitVote"
    "\<And>a. a \<in> S - Byz \<Longrightarrow> data \<in> r_signed (core_abs K (net a))"
proof -
  have wf: "wf_view (qView qc)" "wf_vote (qc_vote qc)" "vCode (qc_vote qc) = MsgTypeCommitVote"
    using assms(2) by (simp_all add: commit_certificate_def wf_qc_def wf_vote_def qc_vote_def)
  then have "encodable (vote_item (qc_vote qc))" by (simp add: qc_vote_def)
  then obtain data where data: "hs_Encode (vote_item (qc_vote qc)) = Inr data"
    using EncodeToBytes_raw [of "vote_item (qc_vote qc)"] by (simp add: hs_Encode_def)
  have "bls_Verify K pub data (qBLSSignature qc) = None"
    using assms(2) data
    by (clarsimp simp: commit_certificate_def AuthQC_def qc_HeightU64_def BLSVerifyAggSig_def)
  then have "\<exists>S. S \<subseteq> set (validators vs) \<and> Q vs \<le> int (card S) \<and>
      (\<forall>a \<in> S - Byz. BLSSigned data \<in> set (outbox (net a)))"
    by (rule assms(1) [unfolded bls_sound_def, rule_format])
  then obtain S where S: "S \<subseteq> set (validators vs)" "Q vs \<le> int (card S)"
      "\<And>a. a \<in> S - Byz \<Longrightarrow> BLSSigned data \<in> set (outbox (net a))" by blast
  have "length data < 2 ^ 63" using assms(2) data unfolding commit_certificate_def by blast
  then have len: "length data < 2 ^ 64" by simp
  show ?thesis
    by (rule that [OF S(1,2) data len wf(2,3)]) (simp add: core_abs_def abs_def S(3))
qed

lemma run_inv_replica:
  "run_inv K b vs c \<Longrightarrow> replica_inv K (core_abs K c) \<and> Height (r_view (core_abs K c)) < 2 ^ 63"
  by (auto simp: run_inv_def core_abs_def abs_def rs_View_def rs_inv_def view_ok_def elim: core_inv_current)

lemma certificates_meet:
  assumes "network_ok K vs Byz bk net" "bls_sound K pub vs Byz net"
    and "commit_certificate K pub qc" "commit_certificate K pub qc'" "Height (qView qc) = Height (qView qc')"
  obtains p p' b where "qProposedBlock qc = node_hash K p (block_Hash K b)"
    "qProposedBlock qc' = node_hash K p' (block_Hash K b)" "Height (qView qc) < 2 ^ 63"
proof -
  have net: "wf_valset vs" "validators vs \<noteq> []" "finite Byz" "int (card Byz) \<le> F vs"
      "\<And>a. a \<in> set (validators vs) - Byz \<Longrightarrow> run_inv K (bk a) vs (net a)"
    using assms(1) by (auto simp: network_ok_def committee_ok_def)
  obtain S x where S: "S \<subseteq> set (validators vs)" "Q vs \<le> int (card S)"
    "hs_Encode (vote_item (qc_vote qc)) = Inr x" "length x < 2 ^ 64"
    "wf_vote (qc_vote qc)" "vCode (qc_vote qc) = MsgTypeCommitVote"
    "\<And>a. a \<in> S - Byz \<Longrightarrow> x \<in> r_signed (core_abs K (net a))"
    using certificate_signers [OF assms(2,3)] by blast
  obtain S' x' where S': "S' \<subseteq> set (validators vs)" "Q vs \<le> int (card S')"
    "hs_Encode (vote_item (qc_vote qc')) = Inr x'" "length x' < 2 ^ 64"
    "wf_vote (qc_vote qc')" "vCode (qc_vote qc') = MsgTypeCommitVote"
    "\<And>a. a \<in> S' - Byz \<Longrightarrow> x' \<in> r_signed (core_abs K (net a))"
    using certificate_signers [OF assms(2,4)] by blast
  obtain a where a: "a \<in> S" "a \<in> S'" "a \<notin> Byz"
    using quorums_meet [OF net(1,2) S(1) S'(1) S(2) S'(2) net(3,4)] by blast
  then have r: "replica_inv K (core_abs K (net a))" "Height (r_view (core_abs K (net a))) < 2 ^ 63"
    using run_inv_replica net(5) S(1) by blast+
  have h: "Height (vView (qc_vote qc)) = Height (vView (qc_vote qc'))" using assms(5) by (simp add: qc_vote_def)
  have x: "x \<in> r_signed (core_abs K (net a))" "x' \<in> r_signed (core_abs K (net a))"
    using S(7) S'(7) a by blast+
  obtain p p' b where "vProposedBlock (qc_vote qc) = node_hash K p (block_Hash K b)"
    "vProposedBlock (qc_vote qc') = node_hash K p' (block_Hash K b)"
    "Height (vView (qc_vote qc)) \<le> Height (r_view (core_abs K (net a)))"
    by (rule one_commit_per_height [OF r(1) x S(4) S'(4) S(5,3,6) S'(5,3,6) h])
  with r(2) that show ?thesis by (simp add: qc_vote_def)
qed

section \<open>Committed blocks\<close>

text \<open>A hash of a node determines its block: no two nodes with different blocks collide.\<close>

definition node_binding :: "crypto \<Rightarrow> bool" where
  "node_binding K \<longleftrightarrow>
    (\<forall>p q a b. node_hash K p (block_Hash K a) = node_hash K q (block_Hash K b) \<longrightarrow>
       block_Hash K a = block_Hash K b)"

lemma checkView_Height:
  assumes "checkView (rs_View rs) v = None" "view_ok rs" "0 \<le> Height v" "Height v < 2 ^ 63"
  shows "Height v = rs_height rs"
proof -
  have h: "0 < rs_height rs" "rs_height rs < 2 ^ 63" using assms(2) by (simp_all add: view_ok_def)
  have "big_Int64 (Height v - rs_height rs) = 0"
    using assms(1) by (auto simp: checkView_def View_Sub_def rs_View_def split: if_splits)
  moreover have "big_Int64 (Height v - rs_height rs) = Height v - rs_height rs"
    using assms(3,4) h by (intro big_Int64_id) linarith+
  ultimately show ?thesis by simp
qed

text \<open>What a decision of a node rests on, when its certificate is not of height 0.\<close>

lemma decided_certificate:
  assumes "run_inv K b vs c" "decided_by K c m d ex" "qc_HeightU64 (CommitQC d) \<noteq> 0"
  shows "wf_qc (CommitQC d)" "qCode (CommitQC d) = MsgTypeCommitVote"
    "AuthQC K (b_signer (c_backend c)) (CommitQC d) = None"
    "\<exists>rs x p. current c = Some rs \<and> view_ok rs \<and> checkView (rs_View rs) (qView (CommitQC d)) = None \<and>
       eb_Block ex = Some x \<and> NumberU64 x = rs_HeightU64 rs \<and>
       qProposedBlock (CommitQC d) = node_hash K p (block_Hash K x)"
proof -
  obtain rs where rs: "current c = Some rs" "mCode m = MsgTypeDecide" "DecodeBytes decodeDiploma (mMsg m) = Inr d"
      "checkView (rs_View rs) (mView m) = None" "verified K c rs m (CommitQC d)" "for_node K rs (CommitQC d)"
      "map_option (block_Hash K) (LockedBlock rs) = Some (BlockHash d)" "commits_block K rs (BlockHash d) ex"
    using assms(2) by (auto simp: decided_by_def)
  have inv: "rs_inv K rs" using assms(1) rs(1) by (auto simp: run_inv_def elim: core_inv_current)
  show "wf_qc (CommitQC d)" using DecodeBytes_yields [OF rs(3) yields_diploma] by (simp add: wf_diploma_def)
  have v: "certified K c (CommitQC d)" "qc_code_matches (mCode m) (qCode (CommitQC d))"
      "qView (CommitQC d) = mView m"
    using rs(2,5) assms(3) by (auto simp: verified_def)
  then show "AuthQC K (b_signer (c_backend c)) (CommitQC d) = None" by (simp add: certified_def)
  show "qCode (CommitQC d) = MsgTypeCommitVote" using v(2) rs(2) by (simp add: qc_code_matches_def)
  obtain x where x: "eb_Block ex = Some x" "block_Hash K x = BlockHash d" "NumberU64 x = rs_HeightU64 rs"
    using rs(8) by (auto simp: commits_block_def)
  obtain lb where lb: "LockedBlock rs = Some lb" "block_Hash K lb = BlockHash d" using rs(7) by blast
  then obtain n nb where "node rs = Some n" "pb_Block n = Some nb" "block_Hash K nb = block_Hash K x"
    using inv x(2) by (auto simp: rs_inv_def lock_ok_def)
  then have "qProposedBlock (CommitQC d) = node_hash K (Parent n) (block_Hash K x)"
    using rs(6) by (simp add: for_node_def abs_node_def)
  with rs(1,4) v(3) x inv
  show "\<exists>rs x p. current c = Some rs \<and> view_ok rs \<and> checkView (rs_View rs) (qView (CommitQC d)) = None \<and>
       eb_Block ex = Some x \<and> NumberU64 x = rs_HeightU64 rs \<and>
       qProposedBlock (CommitQC d) = node_hash K p (block_Hash K x)"
    by (auto simp: rs_inv_def)
qed

text \<open>A decision whose certificate was authenticated, under the group's public key.\<close>

definition decides :: "crypto \<Rightarrow> bytes \<Rightarrow> defaultSet \<Rightarrow> Core \<Rightarrow> ExecutedBlock \<Rightarrow> bool" where
  "decides K pub vs c ex \<longleftrightarrow> s_blsPubPoly (b_signer (c_backend c)) = pub \<and> (\<exists>b. run_inv K b vs c) \<and>
    (\<exists>m d. decided_by K c m d ex \<and> qc_HeightU64 (CommitQC d) \<noteq> 0 \<and>
       (\<forall>data. hs_Encode (vote_item (qc_vote (CommitQC d))) = Inr data \<longrightarrow> length data < 2 ^ 63))"

lemma decides_certificate:
  assumes "decides K pub vs c ex"
  obtains qc rs x p where "commit_certificate K pub qc" "view_ok rs" "checkView (rs_View rs) (qView qc) = None"
    "eb_Block ex = Some x" "NumberU64 x = rs_HeightU64 rs" "qProposedBlock qc = node_hash K p (block_Hash K x)"
proof -
  obtain b m d where d: "run_inv K b vs c" "decided_by K c m d ex" "qc_HeightU64 (CommitQC d) \<noteq> 0"
      "s_blsPubPoly (b_signer (c_backend c)) = pub"
      "\<And>data. hs_Encode (vote_item (qc_vote (CommitQC d))) = Inr data \<Longrightarrow> length data < 2 ^ 63"
    using assms unfolding decides_def by blast
  note c = decided_certificate [OF d(1-3)]
  have "commit_certificate K pub (CommitQC d)"
    unfolding commit_certificate_def using c(1-3) d(3-5) by blast
  with c(4) that show ?thesis by blast
qed

lemma decisions_agree:
  assumes "network_ok K vs Byz bk net" "bls_sound K pub vs Byz net" "node_binding K"
    and "decides K pub vs c ex" "decides K pub vs c' ex'"
    and "eb_Block ex = Some x" "eb_Block ex' = Some x'" "NumberU64 x = NumberU64 x'"
  shows "block_Hash K x = block_Hash K x'"
proof -
  obtain qc rs y p where q: "commit_certificate K pub qc" "view_ok rs" "checkView (rs_View rs) (qView qc) = None"
      "eb_Block ex = Some y" "NumberU64 y = rs_HeightU64 rs" "qProposedBlock qc = node_hash K p (block_Hash K y)"
    by (rule decides_certificate [OF assms(4)])
  obtain qc' rs' y' p' where q': "commit_certificate K pub qc'" "view_ok rs'"
      "checkView (rs_View rs') (qView qc') = None" "eb_Block ex' = Some y'"
      "NumberU64 y' = rs_HeightU64 rs'" "qProposedBlock qc' = node_hash K p' (block_Hash K y')"
    by (rule decides_certificate [OF assms(5)])
  have y: "y = x" "y' = x'" using q(4) q'(4) assms(6,7) by simp_all
  have wf: "0 \<le> Height (qView qc)" "0 \<le> Height (qView qc')"
    using q(1) q'(1) by (simp_all add: commit_certificate_def wf_qc_def wf_view_def)
  have lt: "Height (qView qc) < 2 ^ 63"
    by (rule certificates_meet [OF assms(1,2) q(1) q(1) refl])
  have lt': "Height (qView qc') < 2 ^ 63"
    by (rule certificates_meet [OF assms(1,2) q'(1) q'(1) refl])
  have "rs_height rs = rs_height rs'"
    using q(2,5) q'(2,5) assms(8) y big_Uint64_inj [of "rs_height rs" "rs_height rs'"]
    by (simp add: rs_HeightU64_def view_ok_def)
  then have h: "Height (qView qc) = Height (qView qc')"
    using checkView_Height [OF q(3,2) wf(1) lt] checkView_Height [OF q'(3,2) wf(2) lt'] by simp
  obtain r r' b where "qProposedBlock qc = node_hash K r (block_Hash K b)"
    "qProposedBlock qc' = node_hash K r' (block_Hash K b)"
    by (rule certificates_meet [OF assms(1,2) q(1) q'(1) h])
  then have "node_hash K p (block_Hash K x) = node_hash K r (block_Hash K b)"
    "node_hash K p' (block_Hash K x') = node_hash K r' (block_Hash K b)"
    using q(6) q'(6) y by simp_all
  note this [THEN assms(3) [unfolded node_binding_def, rule_format]]
  then show ?thesis by simp
qed

end
