(* ===== verification/Example_Run.thy ===== *)
theory Example_Run
  imports Core_Handlers
begin

text \<open>
  A run of a committee of one validator, evaluated: the node starts on the genesis block, its miner
  seals the next block, and the node goes through the phases of the protocol with the messages it
  posts to itself, until the block goes to its chain. The aggregated signatures that verify are
  those over the three votes the node signs.
\<close>

section \<open>The instance\<close>

definition run_node :: hash where
  "run_node = replicate 23 255 @ 136 # replicate 8 2"

definition run_votes :: "bytes list" where
  "run_votes =
    map (\<lambda>code. enc (vote_item \<lparr>vCode = code, vView = \<lparr>Round = 0, Height = 1\<rparr>,
      vProposedBlock = run_node, vBLSSignature = []\<rparr>))
    [MsgTypePrepareVote, MsgTypePreCommitVote, MsgTypeCommitVote]"

definition run_crypto :: crypto where
  "run_crypto = example_crypto\<lparr>bls_Verify :=
    (\<lambda>pub data sig. if data \<in> set run_votes then None else Some ErrInvalidSignature)\<rparr>"

section \<open>The run\<close>

fun last_posted :: "effect list \<Rightarrow> event option" where
  "last_posted [] = None"
| "last_posted (PostMessage a p # es) =
    (if length p < 1000 then Some (MessageEvent a p) else last_posted es)"
| "last_posted (PostRequest b # es) = Some (RequestEvent b)"
| "last_posted (e # es) = last_posted es"

definition run_step :: "Core \<Rightarrow> Core option" where
  "run_step c =
    (case last_posted (rev (outbox c)) of
       None \<Rightarrow> None | Some ev \<Rightarrow> handleEvent run_crypto example_world ev c)"

definition run_seal :: "Core \<Rightarrow> Core" where
  "run_seal c =
    (case backend_Seal run_crypto example_world next_block (c_backend c) of
       (r, b, out) \<Rightarrow> emit out (c\<lparr>c_backend := b\<rparr>))"

text \<open>New view, request, prepare, its vote, pre-commit, its vote, commit, its vote; then decide.\<close>

definition run_decide :: "Core option" where
  "run_decide = do {
     c \<leftarrow> core_Start run_crypto example_world (core_New example_backend None example_committee);
     c \<leftarrow> run_step c; c \<leftarrow> run_step (run_seal c); c \<leftarrow> run_step c; c \<leftarrow> run_step c; c \<leftarrow> run_step c;
     c \<leftarrow> run_step c; c \<leftarrow> run_step c; run_step c }"

definition decide_of :: "Core \<Rightarrow> (Message \<times> Diploma) option" where
  "decide_of c =
    (case last_posted (rev (outbox c)) of
       Some (MessageEvent src p) \<Rightarrow>
         (case FromPayload run_crypto src p (Some (CheckSignature run_crypto (valSet c))) of
            Inr m \<Rightarrow>
              (case DecodeBytes decodeDiploma (mMsg m) of Inr d \<Rightarrow> Some (m, d) | Inl _ \<Rightarrow> None)
          | Inl _ \<Rightarrow> None)
     | _ \<Rightarrow> None)"

definition feeds :: "Core \<Rightarrow> ExecutedBlock list" where
  "feeds c = concat (map (\<lambda>e. case e of FeedExecuted ex \<Rightarrow> [ex] | _ \<Rightarrow> []) (outbox c))"

definition run_check :: "Core \<Rightarrow> bool" where
  "run_check c \<longleftrightarrow> (\<forall>data \<in> set run_votes. BLSSigned data \<in> set (outbox c)) \<and> feeds c = [] \<and>
    (case decide_of c of None \<Rightarrow> False | Some (m, d) \<Rightarrow> mCode m = MsgTypeDecide \<and>
       Height (qView (CommitQC d)) = 1 \<and> qProposedBlock (CommitQC d) = run_node \<and>
       int (length (enc (vote_item (qc_vote (CommitQC d))))) < 1000) \<and>
    (case run_step c of None \<Rightarrow> False | Some c' \<Rightarrow>
       map (map_option (\<lambda>b. block_Number b) \<circ> eb_Block) (feeds c') = [Some 1])"

lemma run_evaluates: "case run_decide of None \<Rightarrow> False | Some c \<Rightarrow> run_check c"
  by code_simp

end
