(* ===== verification/Example_Facts.thy ===== *)
theory Example_Facts
  imports Agreement Example_Run
begin

text \<open>
  The states of the example are states of a run in the sense of \<open>Core_Run\<close>, and its committee is a
  network in the sense of \<open>Agreement\<close>.
\<close>

lemma run_world_ok: "world_ok example_world" "chain_ok example_world"
  by (rule example_world_ok)
    (auto simp: chain_ok_def example_world_def genesis_block_def genesis_header_def block_Number_def
      block_Header_def CopyHeader_def)

lemma run_committee_ok: "committee_ok example_committee"
  by (simp add: committee_ok_def example_committee_def wf_valset_def RoundRobin_def VRF_def)

lemma run_keccak_size: "keccak_size run_crypto"
  using example_keccak_size by (simp add: keccak_size_def run_crypto_def)

abbreviation example_run :: "Core \<Rightarrow> bool" where
  "example_run \<equiv> core_run run_crypto example_backend example_committee"

lemma last_posted_posted:
  "last_posted es = Some ev \<Longrightarrow>
     (\<exists>a p. ev = MessageEvent a p \<and> PostMessage a p \<in> set es \<and> length p < 1000) \<or>
     (\<exists>b. ev = RequestEvent b \<and> PostRequest b \<in> set es)"
  by (induction es rule: last_posted.induct) (auto split: if_splits)

lemma last_posted_deliverable: "last_posted (rev (outbox c)) = Some ev \<Longrightarrow> deliverable c ev"
  using last_posted_posted [of "rev (outbox c)" ev] by (auto simp: deliverable_def)

lemma run_step_run: "example_run c \<Longrightarrow> run_step c = Some c' \<Longrightarrow> example_run c'"
  by (auto simp: run_step_def split: option.splits
      intro: core_run.step core_step.event [OF run_world_ok last_posted_deliverable])

lemma run_seal_run: "example_run c \<Longrightarrow> example_run (run_seal c)"
  by (auto simp: run_seal_def split: prod.splits intro: core_run.step core_step.seal)

lemma run_starts:
  "\<exists>c rs. core_Start run_crypto example_world (core_New example_backend None example_committee) = Some c \<and>
     current c = Some rs \<and> prepareQC rs \<noteq> None"
proof -
  have "fst (fst (LastProposal run_crypto example_world example_backend)) \<noteq> None"
    by (simp add: LastProposal_def example_backend_def example_world_def genesis_block_def genesis_header_def
        block_Number_def block_Header_def CopyHeader_def)
  then obtain c rs where
    "core_Start run_crypto example_world (core_New example_backend None example_committee) = Some c"
    "run_inv run_crypto example_backend example_committee c" "current c = Some rs"
    using start_succeeds [OF run_committee_ok run_keccak_size run_world_ok(2), of None example_backend]
    by (auto simp: no_view_def example_world_def)
  then show ?thesis by (auto simp: run_inv_def core_inv_def rs_inv_def)
qed

lemma run_start_run:
  "core_Start run_crypto example_world (core_New example_backend None example_committee) = Some c \<Longrightarrow> example_run c"
  using run_starts run_world_ok(2) by (auto simp: no_view_def intro: core_run.start)

lemma run_decide_run: "run_decide = Some c \<Longrightarrow> example_run c"
  unfolding run_decide_def
  by (auto simp: bind_eq_Some_conv dest!: run_start_run elim!: run_step_run [rotated] intro!: run_seal_run)

definition decide_state :: Core where
  "decide_state = the run_decide"

lemma decide_state: "example_run decide_state" "run_check decide_state"
proof -
  obtain c where c: "run_decide = Some c" "run_check c"
    using run_evaluates by (auto split: option.splits)
  show "example_run decide_state" "run_check decide_state"
    unfolding decide_state_def c(1) using c(2) run_decide_run [OF c(1)] by simp_all
qed

lemma decide_state_inv: "run_inv run_crypto example_backend example_committee decide_state"
  by (rule core_run_inv [OF decide_state(1) run_committee_ok run_keccak_size])

section \<open>The network of one\<close>

lemma run_network:
  "network_ok run_crypto example_committee {} (\<lambda>a. example_backend) (\<lambda>a. decide_state)"
  using decide_state_inv run_committee_ok by (simp add: network_ok_def F_def Size_def example_committee_def)

lemma run_bls_sound: "bls_sound run_crypto [] example_committee {} (\<lambda>a. decide_state)"
  unfolding bls_sound_def
proof (intro allI impI exI [of _ "{example_validator}"] conjI)
  fix data sig
  assume "bls_Verify run_crypto [] data sig = None"
  then have "data \<in> set run_votes" by (simp add: run_crypto_def split: if_splits)
  then show "\<forall>a \<in> {example_validator} - {}. BLSSigned data \<in> set (outbox decide_state)"
    using decide_state(2) by (simp add: run_check_def)
qed (simp_all add: example_committee_def Q_def F_def Size_def signed_divide_int_def)

lemma run_hash_suffix:
  assumes "length bh = 32"
  shows "node_hash run_crypto p bh = rev bh"
proof -
  have "raw_str bh = 0xA0 # bh"
    using assms by (auto simp: raw_str_def puthead_def Let_def)
  then show ?thesis
    using assms by (simp add: node_hash_def rlpHash_def EncodeToBytes_raw run_crypto_def example_crypto_def)
qed

lemma run_node_binding: "node_binding run_crypto"
proof -
  have "length (block_Hash run_crypto b) = 32" for b
    using wf_rlpHash [OF run_keccak_size]
    by (auto simp: block_Hash_def header_Hash_def Let_def wf_hash_def HashLength_def split: option.split)
  then show ?thesis by (simp add: node_binding_def run_hash_suffix)
qed

section \<open>The decision\<close>

lemma feeds_iff: "ex \<in> set (feeds c) \<longleftrightarrow> FeedExecuted ex \<in> set (outbox c)"
  by (force simp: feeds_def split: effect.splits)

lemma run_decides:
  obtains ex b where "decides run_crypto [] example_committee decide_state ex" "eb_Block ex = Some b" "block_Number b = 1"
proof -
  let ?c = decide_state
  obtain m d c' where chk: "feeds ?c = []" "decide_of ?c = Some (m, d)" "Height (qView (CommitQC d)) = 1"
    "int (length (enc (vote_item (qc_vote (CommitQC d))))) < 1000" "run_step ?c = Some c'"
    "map (map_option (\<lambda>b. block_Number b) \<circ> eb_Block) (feeds c') = [Some 1]"
    using decide_state(2) by (auto simp: run_check_def split: option.splits prod.splits)
  obtain ex b where ex: "ex \<in> set (feeds c')" "eb_Block ex = Some b" "block_Number b = 1"
    using chk(6) by (auto simp: map_eq_Cons_conv)
  obtain src p where p: "last_posted (rev (outbox ?c)) = Some (MessageEvent src p)"
    "FromPayload run_crypto src p (Some (CheckSignature run_crypto (valSet ?c))) = Inr m"
    "DecodeBytes decodeDiploma (mMsg m) = Inr d"
    using chk(2) by (auto simp: decide_of_def split: option.splits event.splits sum.splits)
  have inv: "core_inv run_crypto ?c" "replica_inv run_crypto (core_abs run_crypto ?c)"
    using decide_state_inv by (simp_all add: run_inv_def)
  have "own_commit_ok ?c m"
    using last_posted_deliverable [OF p(1)]
    by (intro own_commit_okI [OF inv p(2)]) (auto simp: deliverable_def)
  note r = handleCheckedMsg_returns [OF inv(1) run_world_ok this]
  have "c' = ?c \<or> (\<exists>e. handleCheckedMsg run_crypto example_world m ?c = Some (e, c'))"
    using chk(5) p(1,2) by (auto simp: run_step_def handleEvent_def handleMsg_def fail_def split: if_splits)
  with ex(1) chk(1) obtain e where "handleCheckedMsg run_crypto example_world m ?c = Some (e, c')" by auto
  with r obtain out where "outbox c' = outbox ?c @ out"
    "\<And>ex. FeedExecuted ex \<in> set out \<Longrightarrow> decided run_crypto ?c m ex"
    by (auto simp: commits_def grows_def)
  then have "decided run_crypto ?c m ex"
    using ex(1) chk(1) feeds_iff [of ex c'] feeds_iff [of ex ?c] by auto
  then have d: "decided_by run_crypto ?c m d ex"
    using p(3) by (auto simp: decided_def decided_by_def)
  have pub: "s_blsPubPoly (b_signer (c_backend ?c)) = []"
    using decide_state_inv
    by (simp add: run_inv_def backend_keeps_def signer_keeps_def example_backend_def example_signer_def)
  have len: "length data < 2 ^ 63" if "hs_Encode (vote_item (qc_vote (CommitQC d))) = Inr data" for data
    using that chk(4) enc_small(1) [of "vote_item (qc_vote (CommitQC d))"]
      EncodeToBytes_None_iff [of "vote_item (qc_vote (CommitQC d))"]
    by (auto simp: hs_Encode_def EncodeToBytes_raw split: option.splits)
  have "qc_HeightU64 (CommitQC d) \<noteq> 0" using chk(3) by (simp add: qc_HeightU64_def big_Uint64_def)
  then have "decides run_crypto [] example_committee ?c ex"
    unfolding decides_def using pub d decide_state_inv len by blast
  with ex(2,3) that show ?thesis by blast
qed

end
