(* ===== verification/Sstack.thy ===== *)
theory Sstack
  imports Prque
begin

text \<open>
  The sortable stack of \<open>common/prque/sstack.go\<close> under the queue: the items live in blocks of
  \<open>blockSize\<close>, \<open>active\<close> is the block that the next push or pop touches and \<open>offset\<close> the
  position in it. Blocks are never freed. The callback \<open>setIndex\<close> is nil in every queue of
  the engine and is left out.

  \<open>container/heap\<close> works on an interface (\<open>Len\<close>, \<open>Less\<close>, \<open>Swap\<close>, \<open>Push\<close>, \<open>Pop\<close>). The locale
  \<open>heap_interface\<close> states what an implementation promises with respect to the array it
  stands for, and its lemmas show that the heap algorithms over any such implementation
  are the ones over the array; the stack of blocks is the implementation interpreted.
\<close>

section \<open>The heap algorithms over an interface\<close>

function gheap_up :: "('h \<Rightarrow> nat \<Rightarrow> nat \<Rightarrow> bool) \<Rightarrow> (nat \<Rightarrow> nat \<Rightarrow> 'h \<Rightarrow> 'h) \<Rightarrow> 'h \<Rightarrow> nat \<Rightarrow> 'h" where
  "gheap_up lt sw h j =
    (let i = (j - 1) div 2
     in if i = j \<or> \<not> lt h j i then h else gheap_up lt sw (sw i j h) i)"
  by pat_completeness auto
termination
  by (relation "measure (\<lambda>(_, _, _, j). j)") auto

function gheap_down ::
  "('h \<Rightarrow> nat \<Rightarrow> nat \<Rightarrow> bool) \<Rightarrow> (nat \<Rightarrow> nat \<Rightarrow> 'h \<Rightarrow> 'h) \<Rightarrow> 'h \<Rightarrow> nat \<Rightarrow> nat \<Rightarrow> 'h" where
  "gheap_down lt sw h i n =
    (let j1 = 2 * i + 1; j2 = j1 + 1
     in if j1 \<ge> n then h
        else let j = (if j2 < n \<and> lt h j2 j1 then j2 else j1)
             in if \<not> lt h j i then h else gheap_down lt sw (sw i j h) j n)"
  by pat_completeness auto
termination
  by (relation "measure (\<lambda>(_, _, _, i, n). n - i)") (auto split: if_splits)

declare gheap_up.simps [simp del] gheap_down.simps [simp del]

section \<open>The stack\<close>

definition blockSize :: nat where "blockSize = 4096"

lemma blockSize_pos [simp]: "0 < blockSize"
  by (simp add: blockSize_def)

record 'v sstack =
  ss_size :: nat
  ss_capacity :: nat
  ss_offset :: nat
  ss_wrapAround :: bool
  ss_blocks :: "'v entry option list list"
  ss_active :: nat

definition newSstack :: "bool \<Rightarrow> 'v sstack" where
  "newSstack wr =
    \<lparr>ss_size = 0, ss_capacity = blockSize, ss_offset = 0, ss_wrapAround = wr,
     ss_blocks = [replicate blockSize None], ss_active = 0\<rparr>"

definition set_block :: "nat \<Rightarrow> nat \<Rightarrow> 'a \<Rightarrow> 'a list list \<Rightarrow> 'a list list" where
  "set_block b k x bs = bs[b := (bs ! b)[k := x]]"

definition ss_Push :: "'v entry \<Rightarrow> 'v sstack \<Rightarrow> 'v sstack" where
  "ss_Push x s =
    (let s = (if ss_size s = ss_capacity s then
                s\<lparr>ss_active := length (ss_blocks s),
                  ss_blocks := ss_blocks s @ [replicate blockSize None],
                  ss_capacity := ss_capacity s + blockSize, ss_offset := 0\<rparr>
              else if ss_offset s = blockSize then
                s\<lparr>ss_active := ss_size s div blockSize, ss_offset := 0\<rparr>
              else s)
     in s\<lparr>ss_blocks := set_block (ss_active s) (ss_offset s) (Some x) (ss_blocks s),
          ss_offset := ss_offset s + 1, ss_size := ss_size s + 1\<rparr>)"

definition ss_Pop :: "'v sstack \<Rightarrow> 'v entry option \<times> 'v sstack" where
  "ss_Pop s =
    (let s = s\<lparr>ss_size := ss_size s - 1\<rparr>;
         s = (if ss_offset s = 0 then
                s\<lparr>ss_offset := blockSize - 1, ss_active := ss_size s div blockSize\<rparr>
              else s\<lparr>ss_offset := ss_offset s - 1\<rparr>)
     in (ss_blocks s ! ss_active s ! ss_offset s,
         s\<lparr>ss_blocks := set_block (ss_active s) (ss_offset s) None (ss_blocks s)\<rparr>))"

definition ss_at :: "'v sstack \<Rightarrow> nat \<Rightarrow> 'v entry option" where
  "ss_at s i = ss_blocks s ! (i div blockSize) ! (i mod blockSize)"

definition ss_Less :: "'v sstack \<Rightarrow> nat \<Rightarrow> nat \<Rightarrow> bool" where
  "ss_Less s i j \<longleftrightarrow>
    (let a = snd (the (ss_at s i)); b = snd (the (ss_at s j))
     in if ss_wrapAround s then big_Int64 (a - b) > 0 else a > b)"

definition ss_Swap :: "nat \<Rightarrow> nat \<Rightarrow> 'v sstack \<Rightarrow> 'v sstack" where
  "ss_Swap i j s =
    (let a = ss_at s j; b = ss_at s i
     in s\<lparr>ss_blocks := set_block (j div blockSize) (j mod blockSize) b
                        (set_block (i div blockSize) (i mod blockSize) a (ss_blocks s))\<rparr>)"

section \<open>An array cut into blocks\<close>

lemma length_concat_blocks:
  "\<forall>b \<in> set bs. length b = B \<Longrightarrow> length (concat bs) = B * length bs"
  by (induction bs) auto

lemma concat_blocks_nth:
  assumes "\<forall>b \<in> set bs. length b = B" "a < length bs" "k < B"
  shows "concat bs ! (a * B + k) = bs ! a ! k"
  using assms
proof (induction bs arbitrary: a)
  case (Cons b bs)
  then show ?case by (cases a) (auto simp: nth_append)
qed simp

lemma concat_set_block:
  assumes "\<forall>b \<in> set bs. length b = B" "a < length bs" "k < B"
  shows "concat (set_block a k x bs) = (concat bs)[a * B + k := x]"
  using assms
proof (induction bs arbitrary: a)
  case (Cons b bs)
  then show ?case
    by (cases a) (auto simp: set_block_def list_update_append)
qed simp

lemma set_block_lengths:
  assumes "\<forall>b \<in> set bs. length b = B" "a < length bs"
  shows "\<forall>b \<in> set (set_block a k x bs). length b = B" "length (set_block a k x bs) = length bs"
  using assms by (auto simp: set_block_def dest!: set_update_subset_insert [THEN subsetD])

definition ss_cells :: "'v sstack \<Rightarrow> 'v entry option list" where
  "ss_cells s = concat (ss_blocks s)"

definition ss_list :: "'v sstack \<Rightarrow> 'v entry list" where
  "ss_list s = map the (take (ss_size s) (ss_cells s))"

definition ss_inv :: "'v sstack \<Rightarrow> bool" where
  "ss_inv s \<longleftrightarrow> (\<forall>b \<in> set (ss_blocks s). length b = blockSize)
     \<and> ss_capacity s = blockSize * length (ss_blocks s) \<and> ss_size s \<le> ss_capacity s
     \<and> ss_active s < length (ss_blocks s) \<and> ss_offset s \<le> blockSize
     \<and> ss_active s * blockSize + ss_offset s = ss_size s"

lemma ss_cells_length: "ss_inv s \<Longrightarrow> length (ss_cells s) = ss_capacity s"
  by (simp add: ss_inv_def ss_cells_def length_concat_blocks)

lemma ss_list_length: "ss_inv s \<Longrightarrow> length (ss_list s) = ss_size s"
  using ss_cells_length [of s] by (simp add: ss_list_def ss_inv_def)

lemma cell_index:
  assumes "i < blockSize * n"
  shows "i div blockSize < n" "i mod blockSize < blockSize"
    "i div blockSize * blockSize + i mod blockSize = i"
  using assms by (simp_all add: div_less_iff_less_mult mult.commute)

lemma ss_at_cells: "ss_inv s \<Longrightarrow> i < ss_capacity s \<Longrightarrow> ss_at s i = ss_cells s ! i"
  using concat_blocks_nth [of "ss_blocks s" blockSize "i div blockSize" "i mod blockSize"]
    cell_index [of i "length (ss_blocks s)"]
  by (simp add: ss_inv_def ss_at_def ss_cells_def)

lemma set_block_cells:
  assumes "ss_inv s" "i < ss_capacity s"
  shows "concat (set_block (i div blockSize) (i mod blockSize) x (ss_blocks s)) = (ss_cells s)[i := x]"
  using concat_set_block [of "ss_blocks s" blockSize "i div blockSize" "i mod blockSize" x]
    cell_index [of i "length (ss_blocks s)"] assms
  by (simp add: ss_inv_def ss_cells_def)

lemma ss_nth: "ss_inv s \<Longrightarrow> i < ss_size s \<Longrightarrow> ss_list s ! i = the (ss_at s i)"
  using ss_cells_length [of s] by (simp add: ss_list_def ss_at_cells ss_inv_def)

section \<open>The operations on the array\<close>

lemma newSstack_ok: "ss_inv (newSstack wr)" "ss_list (newSstack wr) = []"
  by (simp_all add: ss_inv_def newSstack_def ss_list_def)

lemma ss_Less_list:
  "ss_inv s \<Longrightarrow> i < ss_size s \<Longrightarrow> j < ss_size s \<Longrightarrow>
     ss_Less s i j = Less (ss_wrapAround s) (ss_list s) i j"
  by (simp add: ss_Less_def Less_def ss_nth)

lemma ss_Swap_ok:
  assumes "ss_inv s" "i < ss_size s" "j < ss_size s"
  shows "ss_inv (ss_Swap i j s)" "ss_list (ss_Swap i j s) = Swap i j (ss_list s)"
    "ss_size (ss_Swap i j s) = ss_size s" "ss_wrapAround (ss_Swap i j s) = ss_wrapAround s"
proof -
  have cap: "i < ss_capacity s" "j < ss_capacity s" using assms by (auto simp: ss_inv_def)
  let ?t = "s\<lparr>ss_blocks := set_block (i div blockSize) (i mod blockSize) (ss_at s j) (ss_blocks s)\<rparr>"
  have bl: "i div blockSize < length (ss_blocks s)" "j div blockSize < length (ss_blocks s)"
    using assms(1) cap cell_index(1) by (auto simp: ss_inv_def)
  have t: "ss_inv ?t"
    using assms(1) bl set_block_lengths [of "ss_blocks s" blockSize "i div blockSize"]
    by (simp add: ss_inv_def)
  have tc: "ss_cells ?t = (ss_cells s)[i := ss_at s j]"
    using set_block_cells [OF assms(1) cap(1)] by (simp add: ss_cells_def)
  have "ss_inv (?t\<lparr>ss_blocks := set_block (j div blockSize) (j mod blockSize) (ss_at s i) (ss_blocks ?t)\<rparr>)"
    using t bl set_block_lengths [of "ss_blocks ?t" blockSize "j div blockSize"]
    by (simp add: ss_inv_def set_block_def)
  then show "ss_inv (ss_Swap i j s)" by (simp add: ss_Swap_def Let_def)
  have "ss_cells (ss_Swap i j s) = (ss_cells s)[i := ss_at s j, j := ss_at s i]"
    using set_block_cells [OF t, of j "ss_at s i"] cap tc by (simp add: ss_Swap_def ss_cells_def)
  then show "ss_list (ss_Swap i j s) = Swap i j (ss_list s)"
    using assms cap ss_cells_length [OF assms(1)]
    by (simp add: ss_list_def Swap_def ss_Swap_def take_update_swap map_update ss_at_cells Let_def)
qed (simp_all add: ss_Swap_def Let_def)

text \<open>The block that a push writes to: the array grows by a block or moves on to the next one.\<close>

lemma ss_write_ok:
  assumes "\<forall>b \<in> set bs. length b = blockSize" "a < length bs" "k < blockSize" "a * blockSize + k = n"
  shows "map the (take (Suc n) (concat (set_block a k (Some x) bs))) =
     map the (take n (concat bs)) @ [x]"
proof -
  have "Suc (a * blockSize + k) \<le> (a + 1) * blockSize" using assms(3) by simp
  also have "\<dots> \<le> length bs * blockSize" using assms(2) by (intro mult_le_mono1) simp
  finally have "n < length (concat bs)"
    using assms(4) by (simp add: length_concat_blocks [OF assms(1)] mult.commute)
  then show ?thesis
    using concat_set_block [OF assms(1-3)] assms(4)
    by (simp add: take_Suc_conv_app_nth)
qed

lemma ss_Push_ok:
  assumes "ss_inv s"
  shows "ss_inv (ss_Push x s)" "ss_list (ss_Push x s) = ss_list s @ [x]"
    "ss_size (ss_Push x s) = Suc (ss_size s)" "ss_wrapAround (ss_Push x s) = ss_wrapAround s"
proof -
  define t where "t =
    (if ss_size s = ss_capacity s then
       s\<lparr>ss_active := length (ss_blocks s),
         ss_blocks := ss_blocks s @ [replicate blockSize None],
         ss_capacity := ss_capacity s + blockSize, ss_offset := 0\<rparr>
     else if ss_offset s = blockSize then
       s\<lparr>ss_active := ss_size s div blockSize, ss_offset := 0\<rparr>
     else s)"
  have push: "ss_Push x s =
     t\<lparr>ss_blocks := set_block (ss_active t) (ss_offset t) (Some x) (ss_blocks t),
       ss_offset := ss_offset t + 1, ss_size := ss_size t + 1\<rparr>"
    by (simp add: ss_Push_def t_def Let_def)
  have t: "\<forall>b \<in> set (ss_blocks t). length b = blockSize" "ss_active t < length (ss_blocks t)"
      "ss_offset t < blockSize" "ss_active t * blockSize + ss_offset t = ss_size t"
      "ss_capacity t = blockSize * length (ss_blocks t)" "ss_size t = ss_size s"
      "ss_size t < ss_capacity t" "take (ss_size s) (ss_cells t) = take (ss_size s) (ss_cells s)"
      "ss_wrapAround t = ss_wrapAround s"
  proof -
    consider (grow) "ss_size s = ss_capacity s"
      | (nxt) "ss_size s \<noteq> ss_capacity s" "ss_offset s = blockSize"
      | (stay) "ss_size s \<noteq> ss_capacity s" "ss_offset s \<noteq> blockSize" by blast
    then have "(\<forall>b \<in> set (ss_blocks t). length b = blockSize) \<and> ss_active t < length (ss_blocks t)
      \<and> ss_offset t < blockSize \<and> ss_active t * blockSize + ss_offset t = ss_size t
      \<and> ss_capacity t = blockSize * length (ss_blocks t) \<and> ss_size t = ss_size s
      \<and> ss_size t < ss_capacity t \<and> take (ss_size s) (ss_cells t) = take (ss_size s) (ss_cells s)
      \<and> ss_wrapAround t = ss_wrapAround s"
    proof cases
      case grow
      then show ?thesis using assms ss_cells_length [OF assms]
        by (auto simp: t_def ss_inv_def ss_cells_def mult.commute)
    next
      case nxt
      then have sz: "ss_size s = blockSize * Suc (ss_active s)"
        using assms by (simp add: ss_inv_def mult.commute)
      have "Suc (ss_active s) \<noteq> length (ss_blocks s)"
        using sz nxt(1) assms unfolding ss_inv_def by metis
      then have "Suc (ss_active s) < length (ss_blocks s)"
        using assms by (simp add: ss_inv_def)
      moreover have "ss_size s div blockSize = Suc (ss_active s)"
        unfolding sz by (rule nonzero_mult_div_cancel_left) simp
      ultimately show ?thesis using nxt assms sz
        by (simp add: t_def ss_inv_def ss_cells_def mult.commute)
    next
      case stay
      then show ?thesis using assms by (auto simp: t_def ss_inv_def ss_cells_def)
    qed
    then show "\<forall>b \<in> set (ss_blocks t). length b = blockSize" "ss_active t < length (ss_blocks t)"
      "ss_offset t < blockSize" "ss_active t * blockSize + ss_offset t = ss_size t"
      "ss_capacity t = blockSize * length (ss_blocks t)" "ss_size t = ss_size s"
      "ss_size t < ss_capacity t" "take (ss_size s) (ss_cells t) = take (ss_size s) (ss_cells s)"
      "ss_wrapAround t = ss_wrapAround s" by blast+
  qed
  show "ss_inv (ss_Push x s)"
    using t set_block_lengths [OF t(1,2)] by (simp add: push ss_inv_def)
  show "ss_list (ss_Push x s) = ss_list s @ [x]"
    using ss_write_ok [OF t(1-4), of x] t(6,8) by (simp add: push ss_list_def ss_cells_def)
  show "ss_size (ss_Push x s) = Suc (ss_size s)" "ss_wrapAround (ss_Push x s) = ss_wrapAround s"
    using t(6,9) by (simp_all add: push)
qed

lemma ss_Pop_ok:
  assumes "ss_inv s" "0 < ss_size s" "ss_Pop s = (r, s')"
  shows "ss_inv s'" "ss_list s' = butlast (ss_list s)" "the r = last (ss_list s)"
    "ss_size s' = ss_size s - 1" "ss_wrapAround s' = ss_wrapAround s"
proof -
  let ?n = "ss_size s - 1"
  define t where "t =
    (if ss_offset s = 0 then s\<lparr>ss_size := ?n, ss_offset := blockSize - 1, ss_active := ?n div blockSize\<rparr>
     else s\<lparr>ss_size := ?n, ss_offset := ss_offset s - 1\<rparr>)"
  have pop: "r = ss_blocks t ! ss_active t ! ss_offset t"
      "s' = t\<lparr>ss_blocks := set_block (ss_active t) (ss_offset t) None (ss_blocks t)\<rparr>"
    using assms(3) by (auto simp: ss_Pop_def t_def Let_def)
  have t: "ss_blocks t = ss_blocks s" "ss_size t = ?n" "ss_capacity t = ss_capacity s"
      "ss_wrapAround t = ss_wrapAround s"
    by (simp_all add: t_def)
  have pos: "ss_active t * blockSize + ss_offset t = ?n" "ss_active t < length (ss_blocks s)"
      "ss_offset t < blockSize"
  proof -
    have "ss_active t * blockSize + ss_offset t = ?n \<and> ss_active t < length (ss_blocks s)
        \<and> ss_offset t < blockSize"
    proof (cases "ss_offset s = 0")
      case True
      then obtain a where a: "ss_active s = Suc a"
        using assms(1,2) by (cases "ss_active s") (auto simp: ss_inv_def)
      then have "blockSize + a * blockSize = ss_size s"
        using assms(1) True by (simp add: ss_inv_def)
      then have n: "?n = a * blockSize + (blockSize - 1)"
        using blockSize_pos by linarith
      have "(a * blockSize + (blockSize - 1)) div blockSize = a" by (simp add: blockSize_def)
      with n have "?n div blockSize = a" by (simp only:)
      with True a n assms(1) show ?thesis by (simp add: t_def ss_inv_def)
    next
      case False
      then show ?thesis using assms(1) by (auto simp: t_def ss_inv_def)
    qed
    then show "ss_active t * blockSize + ss_offset t = ?n" "ss_active t < length (ss_blocks s)"
      "ss_offset t < blockSize" by simp_all
  qed
  have bl: "\<forall>b \<in> set (ss_blocks s). length b = blockSize" using assms(1) by (simp add: ss_inv_def)
  have cells: "ss_cells s' = (ss_cells s)[?n := None]"
    using concat_set_block [OF bl pos(2,3)] pos(1) by (simp add: pop t ss_cells_def)
  have len: "?n < length (ss_cells s)" "Suc ?n \<le> length (ss_cells s)"
    using assms(1,2) ss_cells_length [OF assms(1)] by (auto simp: ss_inv_def)
  have full: "ss_list s = map the (take ?n (ss_cells s)) @ [the (ss_cells s ! ?n)]"
    using take_Suc_conv_app_nth [OF len(1)] assms(2) by (simp add: ss_list_def)
  have "ss_size s \<le> ss_capacity s" using assms(1) by (simp add: ss_inv_def)
  then have "?n \<le> ss_capacity s" by linarith
  then show "ss_inv s'"
    using assms(1) pos t set_block_lengths [OF bl pos(2)] by (simp add: pop ss_inv_def)
  show "ss_list s' = butlast (ss_list s)"
    using cells t(2) by (simp add: full) (simp add: ss_list_def pop)
  show "the r = last (ss_list s)"
    using concat_blocks_nth [OF bl pos(2,3)] pos(1) by (simp add: full pop t ss_cells_def)
  show "ss_size s' = ss_size s - 1" "ss_wrapAround s' = ss_wrapAround s"
    using t by (simp_all add: pop)
qed

section \<open>The heap over the stack is the heap over the array\<close>

locale heap_interface =
  fixes len :: "'h \<Rightarrow> nat" and lt :: "'h \<Rightarrow> nat \<Rightarrow> nat \<Rightarrow> bool" and sw :: "nat \<Rightarrow> nat \<Rightarrow> 'h \<Rightarrow> 'h"
    and push :: "'v entry \<Rightarrow> 'h \<Rightarrow> 'h" and pop :: "'h \<Rightarrow> 'v entry option \<times> 'h"
    and inv :: "'h \<Rightarrow> bool" and arr :: "'h \<Rightarrow> 'v entry list" and wr :: "'h \<Rightarrow> bool"
  assumes len_arr: "inv h \<Longrightarrow> length (arr h) = len h"
    and lt_arr: "inv h \<Longrightarrow> i < len h \<Longrightarrow> j < len h \<Longrightarrow> lt h i j = Less (wr h) (arr h) i j"
    and sw_ok: "inv h \<Longrightarrow> i < len h \<Longrightarrow> j < len h \<Longrightarrow>
      inv (sw i j h) \<and> arr (sw i j h) = Swap i j (arr h) \<and> wr (sw i j h) = wr h"
    and push_ok: "inv h \<Longrightarrow> inv (push x h) \<and> arr (push x h) = arr h @ [x] \<and> wr (push x h) = wr h"
    and pop_ok: "inv h \<Longrightarrow> 0 < len h \<Longrightarrow> pop h = (r, h') \<Longrightarrow>
      inv h' \<and> arr h' = butlast (arr h) \<and> the r = last (arr h) \<and> wr h' = wr h"
begin

lemma sw_len: "inv h \<Longrightarrow> i < len h \<Longrightarrow> j < len h \<Longrightarrow> len (sw i j h) = len h"
  using sw_ok [of h i j] len_arr [of h] len_arr [of "sw i j h"] by simp

lemma up_arr:
  "inv h \<Longrightarrow> j < len h \<Longrightarrow>
     inv (gheap_up lt sw h j) \<and> arr (gheap_up lt sw h j) = heap_up (wr h) (arr h) j
     \<and> wr (gheap_up lt sw h j) = wr h"
proof (induction j arbitrary: h rule: less_induct)
  case (less j)
  let ?i = "(j - 1) div 2"
  have i: "?i < len h" using less.prems by (simp add: div_less_iff_less_mult)
  have lt: "lt h j ?i = Less (wr h) (arr h) j ?i" using less.prems i by (simp add: lt_arr)
  have g: "gheap_up lt sw h j = (if ?i = j \<or> \<not> lt h j ?i then h else gheap_up lt sw (sw ?i j h) ?i)"
    by (subst gheap_up.simps) (simp only: Let_def)
  have a: "heap_up (wr h) (arr h) j =
      (if ?i = j \<or> \<not> lt h j ?i then arr h else heap_up (wr h) (Swap ?i j (arr h)) ?i)"
    by (subst heap_up.simps) (simp only: Let_def lt)
  show ?case
  proof (cases "?i = j \<or> \<not> lt h j ?i")
    case True
    with less.prems show ?thesis by (simp only: g a if_True simp_thms)
  next
    case False
    then have "?i < j" by (cases j) auto
    from less.IH [OF this, of "sw ?i j h"] less.prems i sw_ok [of h ?i j] sw_len [of h ?i j] False
    show ?thesis by (simp only: g a if_False simp_thms)
  qed
qed

lemma down_arr:
  "inv h \<Longrightarrow> n \<le> len h \<Longrightarrow>
     inv (gheap_down lt sw h i n) \<and> arr (gheap_down lt sw h i n) = heap_down (wr h) (arr h) i n
     \<and> wr (gheap_down lt sw h i n) = wr h"
proof (induction "n - i" arbitrary: h i rule: less_induct)
  case less
  show ?case
  proof (cases "2 * i + 1 < n")
    case True
    define j where "j = (if 2 * i + 1 + 1 < n \<and> lt h (2 * i + 1 + 1) (2 * i + 1)
      then 2 * i + 1 + 1 else 2 * i + 1)"
    have j: "j < n" "i < j" "n - j < n - i" "j < len h" "i < len h"
      using True less.prems by (auto simp: j_def)
    have lj: "lt h j i = Less (wr h) (arr h) j i" using less.prems j by (simp add: lt_arr)
    have j': "j = (if 2 * i + 1 + 1 < n \<and> Less (wr h) (arr h) (2 * i + 1 + 1) (2 * i + 1)
      then 2 * i + 1 + 1 else 2 * i + 1)"
      using True less.prems by (auto simp: j_def lt_arr)
    have g: "gheap_down lt sw h i n = (if \<not> lt h j i then h else gheap_down lt sw (sw i j h) j n)"
      using True by (subst gheap_down.simps) (simp only: Let_def j_def [symmetric], simp)
    have a: "heap_down (wr h) (arr h) i n =
        (if \<not> Less (wr h) (arr h) j i then arr h else heap_down (wr h) (Swap i j (arr h)) j n)"
      using True by (subst heap_down.simps) (simp only: Let_def j' [symmetric], simp)
    show ?thesis
      using less.hyps [OF j(3), of "sw i j h"] less.prems j sw_ok [of h i j] sw_len [of h i j] lj
      unfolding g a by auto
  next
    case False
    then have g: "gheap_down lt sw h i n = h"
      by (subst gheap_down.simps) (simp add: Let_def not_less)
    have "heap_down (wr h) (arr h) i n = arr h"
      using False by (subst heap_down.simps) (simp add: Let_def not_less)
    with g less.prems show ?thesis by simp
  qed
qed

end

interpretation sstack: heap_interface ss_size ss_Less ss_Swap ss_Push ss_Pop ss_inv ss_list ss_wrapAround
proof
  fix h h' :: "'a sstack" and r i j x
  assume h: "ss_inv h"
  show "length (ss_list h) = ss_size h" using h by (rule ss_list_length)
  show "ss_inv (ss_Push x h) \<and> ss_list (ss_Push x h) = ss_list h @ [x]
      \<and> ss_wrapAround (ss_Push x h) = ss_wrapAround h"
    using ss_Push_ok [OF h, of x] by (intro conjI)
  show "ss_inv h' \<and> ss_list h' = butlast (ss_list h) \<and> the r = last (ss_list h)
      \<and> ss_wrapAround h' = ss_wrapAround h"
    if "0 < ss_size h" "ss_Pop h = (r, h')"
    using ss_Pop_ok [OF h that] by (intro conjI)
  assume ij: "i < ss_size h" "j < ss_size h"
  show "ss_Less h i j = Less (ss_wrapAround h) (ss_list h) i j" using h ij by (rule ss_Less_list)
  show "ss_inv (ss_Swap i j h) \<and> ss_list (ss_Swap i j h) = Swap i j (ss_list h)
      \<and> ss_wrapAround (ss_Swap i j h) = ss_wrapAround h"
    using ss_Swap_ok [OF h ij] by (intro conjI)
qed

text \<open>\<open>heap.Push\<close> and \<open>heap.Pop\<close> on the stack, as \<open>Prque.Push\<close> and \<open>Prque.Pop\<close> call them.\<close>

definition sstack_heap_Push :: "'v entry \<Rightarrow> 'v sstack \<Rightarrow> 'v sstack" where
  "sstack_heap_Push x s = (let s = ss_Push x s in gheap_up ss_Less ss_Swap s (ss_size s - 1))"

definition sstack_heap_Pop :: "'v sstack \<Rightarrow> 'v entry option \<times> 'v sstack" where
  "sstack_heap_Pop s =
    (let n = ss_size s - 1 in ss_Pop (gheap_down ss_Less ss_Swap (ss_Swap 0 n s) 0 n))"

definition ss_prque :: "'v sstack \<Rightarrow> 'v prque" where
  "ss_prque s = \<lparr>cont = ss_list s, wrapAround = ss_wrapAround s\<rparr>"

lemma sstack_Push_refines:
  assumes "ss_inv s"
  shows "ss_inv (sstack_heap_Push (v, p) s)"
    "ss_prque (sstack_heap_Push (v, p) s) = prque_Push v p (ss_prque s)"
proof -
  note P = ss_Push_ok [OF assms, of "(v, p)"]
  have "ss_size s < ss_size (ss_Push (v, p) s)" using P(3) by simp
  from sstack.up_arr [OF P(1) this] P ss_list_length [OF assms]
  show "ss_inv (sstack_heap_Push (v, p) s)"
    "ss_prque (sstack_heap_Push (v, p) s) = prque_Push v p (ss_prque s)"
    by (simp_all add: sstack_heap_Push_def ss_prque_def prque_Push_def Let_def)
qed

lemma sstack_Pop_refines:
  assumes "ss_inv s" "0 < ss_size s" "sstack_heap_Pop s = (r, s')"
  shows "ss_inv s'" "prque_Pop (ss_prque s) = Some (the r, ss_prque s')"
proof -
  let ?n = "ss_size s - 1"
  have n: "0 < ss_size s" "?n < ss_size s" using assms(2) by simp_all
  note S = ss_Swap_ok [OF assms(1) n]
  let ?t = "gheap_down ss_Less ss_Swap (ss_Swap 0 ?n s) 0 ?n"
  have "?n \<le> ss_size (ss_Swap 0 ?n s)" using S(3) by simp
  note D = sstack.down_arr [OF S(1) this, of 0]
  let ?xs = "heap_down (ss_wrapAround s) (Swap 0 ?n (ss_list s)) 0 ?n"
  have xs: "ss_list ?t = ?xs" "ss_inv ?t" "ss_wrapAround ?t = ss_wrapAround s" using D S by simp_all
  have len: "length ?xs = ss_size s"
    using heap_down_props [of ?n "Swap 0 ?n (ss_list s)"] ss_list_length [OF assms(1)] by simp
  then have size: "ss_size ?t = ss_size s" using ss_list_length [OF xs(2)] xs(1) by simp
  have pop: "ss_Pop ?t = (r, s')" using assms(3) by (simp add: sstack_heap_Pop_def Let_def)
  have "0 < ss_size ?t" using n size by simp
  note O = ss_Pop_ok [OF xs(2) this pop]
  show "ss_inv s'" by (rule O(1))
  have "?xs \<noteq> []" using len n by auto
  then have last: "last ?xs = ?xs ! ?n" "butlast ?xs = take ?n ?xs"
    using len by (simp_all add: last_conv_nth butlast_conv_take)
  have "the r = ?xs ! ?n" "ss_list s' = take ?n ?xs" "ss_wrapAround s' = ss_wrapAround s"
    using O(2,3,5) xs(1,3) last by (simp_all only:)
  moreover have "ss_list s \<noteq> []" "length (ss_list s) = ss_size s"
    using ss_list_length [OF assms(1)] n(1) by auto
  ultimately show "prque_Pop (ss_prque s) = Some (the r, ss_prque s')"
    by (simp only: prque_Pop_def ss_prque_def Let_def prque.simps if_False)
qed

section \<open>Properties\<close>

text \<open>C28. Pushing on and popping from the heap in blocks of 4096 cells is pushing on and popping from the
  priority queue over a plain array, also when a block is full, and the stack stays well-formed.\<close>

theorem block_stack_refines_queue:
  assumes "ss_inv s"
  shows "ss_inv (sstack_heap_Push (v, p) s) \<and>
    ss_prque (sstack_heap_Push (v, p) s) = prque_Push v p (ss_prque s) \<and>
    (0 < ss_size s \<longrightarrow>
       (case sstack_heap_Pop s of (r, s') \<Rightarrow> ss_inv s' \<and> prque_Pop (ss_prque s) = Some (the r, ss_prque s')))"
  using sstack_Push_refines [OF assms] sstack_Pop_refines [OF assms] by (auto split: prod.split)

theorem block_stack_refines_queue_witness:
  "ss_prque (sstack_heap_Push (8, 2) (newSstack False)) = prque_Push (8 :: nat) 2 (ss_prque (newSstack False)) \<and>
   ss_prque (sstack_heap_Push (8, 2) (sstack_heap_Push (7, 1) (newSstack False))) =
     prque_Push (8 :: nat) 2 (ss_prque (sstack_heap_Push (7, 1) (newSstack False)))"
proof -
  have n: "ss_inv (newSstack False :: nat sstack)" by (rule newSstack_ok)
  have "ss_inv (sstack_heap_Push (7 :: nat, 1) (newSstack False))"
    using block_stack_refines_queue [OF n] by blast
  with block_stack_refines_queue [OF n] block_stack_refines_queue [OF this] show ?thesis by blast
qed

end
