(* ===== verification/Core_Services.thy ===== *)
theory Core_Services
  imports Core_Handlers
begin

text \<open>
  What the operations shared by the handlers do: the check of a message's view, the queues of future
  messages and of requests, the round timer, the assembly of certificates and the highest certificate
  of the new-view messages. Both queues are emptied by a loop of one shape; the locale \<open>queue_scan\<close> is
  that shape, interpreted on \<open>backlog_loop\<close> and \<open>pending_loop\<close>.
\<close>

section \<open>Views\<close>

definition small_view :: "View \<Rightarrow> bool" where
  "small_view v \<longleftrightarrow> 0 \<le> Round v \<and> Round v < 2 ^ 63 \<and> 0 \<le> Height v \<and> Height v < 2 ^ 63"

lemma View_Sub_small:
  assumes "small_view u" "small_view v"
  shows "View_Sub u v = (Height u - Height v, Round u - Round v)"
  using assms by (simp add: View_Sub_def small_view_def big_Int64_id)

lemma checkView_small:
  assumes "small_view cur" "small_view v"
  shows "checkView cur v =
    (if view_less v cur then Some ErrOldMessage
     else if Height cur + 1 < Height v then Some ErrFarAwayFutureMessage
     else if view_less cur v then Some ErrFutureMessage else None)"
  using View_Sub_small [OF assms(2,1)] by (auto simp: checkView_def view_less_def)

lemma not_less_view:
  "\<not> view_less u v \<Longrightarrow> \<not> view_less v u \<Longrightarrow> u = v"
  using view_less_linear by blast

lemma big_Int64_add_multiple: "big_Int64 (x + k * 2 ^ 64) = big_Int64 x"
proof -
  have "(word_of_int (x + k * 2 ^ 64) :: u64) = word_of_int x"
    unfolding word_of_int_eq_iff by (simp add: take_bit_eq_mod)
  then show ?thesis unfolding big_Int64_def by (simp only:)
qed

section \<open>Emptying a queue up to its first future entry\<close>

locale queue_scan =
  fixes loop :: "'v prque \<Rightarrow> effect list \<Rightarrow> 'v prque \<times> effect list"
    and now :: "'v \<Rightarrow> bool" and later :: "'v \<Rightarrow> bool" and post :: "'v \<Rightarrow> effect"
    and admitted :: "'v entry \<Rightarrow> bool"
  assumes loop_eq: "loop q out =
      (case prque_Pop q of
         None \<Rightarrow> (q, out)
       | Some ((x, p), q') \<Rightarrow>
           if later x then (prque_Push x p q', out)
           else loop q' (if now x then out @ [post x] else out))"
    and now_not_later: "now x \<Longrightarrow> \<not> later x"
    and later_below: "admitted (x, p) \<Longrightarrow> admitted (y, p') \<Longrightarrow> later x \<Longrightarrow> \<not> later y \<Longrightarrow> p < p'"
begin

lemma scan_result:
  assumes "prque_invar q" "\<And>e. e \<in># prque_items q \<Longrightarrow> admitted e" "loop q out = (q', out')"
  shows "prque_invar q' \<and> prque_items q' = {#e \<in># prque_items q. later (fst e)#} \<and>
    (\<exists>xs. out' = out @ map post xs \<and> mset xs = {#x \<in># image_mset fst (prque_items q). now x#})"
  using assms
proof (induction "size (prque_items q)" arbitrary: q out rule: less_induct)
  case less
  show ?case
  proof (cases "prque_Pop q")
    case None
    with less.prems pq.pop_None [OF less.prems(1)] show ?thesis
      by (simp add: loop_eq [of q])
  next
    case (Some e)
    then obtain x p r where pop: "prque_Pop q = Some ((x, p), r)" by (metis prod.collapse)
    have r: "prque_invar r" "prque_items q = add_mset (x, p) (prque_items r)"
      using pq.pop_invar [OF less.prems(1) pop] pq.pop_items [OF less.prems(1) pop] by auto
    show ?thesis
    proof (cases "later x")
      case True
      have "later (fst e)" if e: "e \<in># prque_items r" for e
        using later_below [OF _ _ True, of p "fst e" "snd e"] less.prems(2) r(2) e
          pq.pop_max [OF less.prems(1) pop, of e] by fastforce
      then have "{#e \<in># prque_items r. later (fst e)#} = prque_items r"
        "{#x \<in># image_mset fst (prque_items r). now x#} = {#}"
        using now_not_later by (auto simp: filter_mset_eq_conv)
      with True pop r less.prems(3) now_not_later [of x] show ?thesis
        by (auto simp: loop_eq [of q] prque_Push_invar prque_Push_items)
    next
      case False
      have "loop r (if now x then out @ [post x] else out) = (q', out')"
        using less.prems(3) pop False by (simp add: loop_eq [of q])
      with less.hyps [of r] r less.prems(2) False show ?thesis
        by (fastforce split: if_splits intro: exI [of _ "x # _"])
    qed
  qed
qed

end

text \<open>An entry of a sender's backlog: its priority is that of its view, its round has one digit and it is
  at most one height ahead.\<close>

definition backlog_entry :: "View \<Rightarrow> Message entry \<Rightarrow> bool" where
  "backlog_entry cur e \<longleftrightarrow> (case e of (m, p) \<Rightarrow>
     p = toPriority (mCode m) (mView m) \<and> small_view cur \<and> Height cur < 2 ^ 32 \<and>
     0 \<le> Round (mView m) \<and> Round (mView m) \<le> 9 \<and> 0 \<le> Height (mView m) \<and>
     Height (mView m) \<le> Height cur + 1)"

lemma messagePriority_range: "0 \<le> messagePriority code \<and> messagePriority code \<le> 8"
  by (simp add: messagePriority_def)

lemma toPriority_small:
  assumes "0 \<le> Round v" "Round v < 2 ^ 32" "0 \<le> Height v" "Height v \<le> 2 ^ 32"
  shows "toPriority code v = - (Height v * 100 + Round v * 10 + messagePriority code)"
  using assms messagePriority_range [of code] by (simp add: toPriority_def big_Int64_id)

lemma backlog_entryD:
  assumes "backlog_entry cur (m, p)"
  shows "small_view cur" "small_view (mView m)" "Round (mView m) \<le> 9" "Height (mView m) \<le> Height cur + 1"
    "p = - (Height (mView m) * 100 + Round (mView m) * 10 + messagePriority (mCode m))"
  using assms toPriority_small [of "mView m" "mCode m"] by (auto simp: backlog_entry_def small_view_def)

lemma backlog_entry_checkView:
  assumes "backlog_entry cur (m, p)"
  shows "checkView cur (mView m) = None \<longleftrightarrow> mView m = cur"
    "checkView cur (mView m) = Some ErrFutureMessage \<longleftrightarrow> view_less cur (mView m)"
  using checkView_small [OF backlog_entryD(1,2) [OF assms]] backlog_entryD(4) [OF assms]
    not_less_view [of cur "mView m"] view_less_trans [of cur "mView m" cur]
  by (auto split: if_splits)

interpretation bl: queue_scan "backlog_loop cur" "\<lambda>m. checkView cur (mView m) = None"
  "\<lambda>m. checkView cur (mView m) = Some ErrFutureMessage" PostBacklog "backlog_entry cur" for cur
proof
  fix q out show "backlog_loop cur q out =
      (case prque_Pop q of
         None \<Rightarrow> (q, out)
       | Some ((x, p), q') \<Rightarrow>
           if checkView cur (mView x) = Some ErrFutureMessage then (prque_Push x p q', out)
           else backlog_loop cur q' (if checkView cur (mView x) = None then out @ [PostBacklog x] else out))"
    by (subst backlog_loop.simps) (auto split: option.split)
next
  fix x p y p'
  assume e: "backlog_entry cur (x, p)" "backlog_entry cur (y, p')"
    and l: "checkView cur (mView x) = Some ErrFutureMessage" "checkView cur (mView y) \<noteq> Some ErrFutureMessage"
  have "view_less cur (mView x)" "\<not> view_less cur (mView y)"
    using backlog_entry_checkView(2) [OF e(1)] backlog_entry_checkView(2) [OF e(2)] l by auto
  moreover note backlog_entryD [OF e(1)] backlog_entryD [OF e(2)] messagePriority_range [of "mCode x"]
    messagePriority_range [of "mCode y"]
  ultimately show "p < p'" by (auto simp: view_less_def small_view_def)
qed simp

definition request_entry :: "roundState \<Rightarrow> Request entry \<Rightarrow> bool" where
  "request_entry rs e \<longleftrightarrow> (case e of (r, p) \<Rightarrow>
     p = big_Int64 (- big_Int64 (block_Number (req_Block r))) \<and>
     0 \<le> block_Number (req_Block r) \<and> block_Number (req_Block r) < 2 ^ 63)"

lemma checkRequestMsg_cases:
  "checkRequestMsg rs r = None \<longleftrightarrow> block_Number (req_Block r) = rs_height rs"
  "checkRequestMsg rs r = Some ErrFutureMessage \<longleftrightarrow> rs_height rs < block_Number (req_Block r)"
  by (auto simp: checkRequestMsg_def big_Cmp_def)

interpretation pr: queue_scan "pending_loop rs" "\<lambda>r. checkRequestMsg rs r = None"
  "\<lambda>r. checkRequestMsg rs r = Some ErrFutureMessage" "\<lambda>r. PostRequest (req_Block r)" "request_entry rs" for rs
proof
  fix q out show "pending_loop rs q out =
      (case prque_Pop q of
         None \<Rightarrow> (q, out)
       | Some ((x, p), q') \<Rightarrow>
           if checkRequestMsg rs x = Some ErrFutureMessage then (prque_Push x p q', out)
           else pending_loop rs q' (if checkRequestMsg rs x = None then out @ [PostRequest (req_Block x)] else out))"
    by (subst pending_loop.simps) (auto split: option.split)
qed (auto simp: checkRequestMsg_cases request_entry_def big_Int64_id)

text \<open>C30. When the core enters a state, the requests of the miner that were waiting for the current height
  are all posted, those for later heights stay in the queue, and older ones are dropped.\<close>

theorem pending_requests_posted:
  assumes "processPendingRequests c = Some c'" "current c = Some rs" "prque_invar (pendingRequests c)"
    and "\<And>e. e \<in># prque_items (pendingRequests c) \<Longrightarrow> request_entry rs e"
  shows "\<exists>bs. outbox c' = outbox c @ map PostRequest bs \<and>
      mset bs = {#b \<in># image_mset (req_Block \<circ> fst) (prque_items (pendingRequests c)). block_Number b = rs_height rs#} \<and>
      prque_items (pendingRequests c') =
        {#e \<in># prque_items (pendingRequests c). rs_height rs < block_Number (req_Block (fst e))#}"
proof (cases "prque_Empty (pendingRequests c)")
  case True
  with assms(1) show ?thesis
    by (auto simp: processPendingRequests_def prque_Empty_def prque_items_def)
next
  case False
  obtain q out where l: "pending_loop rs (pendingRequests c) [] = (q, out)" by fastforce
  with False assms(1,2) have c': "c' = emit out (c\<lparr>pendingRequests := q\<rparr>)"
    by (simp add: processPendingRequests_def)
  obtain xs where "out = map (\<lambda>r. PostRequest (req_Block r)) xs"
      "mset xs = {#x \<in># image_mset fst (prque_items (pendingRequests c)). block_Number (req_Block x) = rs_height rs#}"
      "prque_items q = {#e \<in># prque_items (pendingRequests c). rs_height rs < block_Number (req_Block (fst e))#}"
    using pr.scan_result [OF assms(3,4) l] by (auto simp: checkRequestMsg_cases)
  then show ?thesis
    by (intro exI [of _ "map req_Block xs"])
      (auto simp: c' emit_def filter_mset_image_mset image_mset.compositionality comp_def)
qed

definition example_round :: roundState where
  "example_round = newRoundState example_crypto example_committee genesis_block \<lparr>Round = 0, Height = 1\<rparr>"

definition example_core :: Core where
  "example_core = (core_New example_backend None example_committee)\<lparr>current := Some example_round\<rparr>"

lemma example_core_simps [simp]:
  "current example_core = Some example_round" "outbox example_core = []" "rs_height example_round = 1"
  "rs_round example_round = 0" "valSet example_core = example_committee" "backlogs example_core = []"
  "rs_View example_round = \<lparr>Round = 0, Height = 1\<rparr>" "block_Number next_block = 1"
  by (simp_all add: example_core_def example_round_def newRoundState_def core_New_def rs_View_def block_Number_def
      next_block_def next_header_def)

theorem pending_requests_posted_witness:
  "\<exists>c' bs. processPendingRequests (example_core\<lparr>pendingRequests := prque_Push \<lparr>req_Block = next_block\<rparr> (- 1) prque_New\<rparr>)
       = Some c' \<and> outbox c' = map PostRequest bs \<and> mset bs = {#next_block#}"
proof -
  let ?c = "example_core\<lparr>pendingRequests := prque_Push \<lparr>req_Block = next_block\<rparr> (- 1) prque_New\<rparr>"
  have i: "prque_items (pendingRequests ?c) = {#(\<lparr>req_Block = next_block\<rparr>, - 1)#}"
    by (simp add: prque_Push_items pq.items_new)
  have "processPendingRequests ?c \<noteq> None"
    by (simp add: processPendingRequests_def split: prod.split)
  then obtain c' where c': "processPendingRequests ?c = Some c'" by blast
  have "request_entry example_round e" if "e \<in># prque_items (pendingRequests ?c)" for e
    using that i by (simp add: request_entry_def big_Int64_id)
  moreover have "current ?c = Some example_round" "prque_invar (pendingRequests ?c)"
    by (simp_all add: prque_Push_invar pq.invar_new)
  ultimately show ?thesis using pending_requests_posted [OF c'] i c' by fastforce
qed

section \<open>The backlog\<close>

definition backlog_wf :: "View \<Rightarrow> Core \<Rightarrow> bool" where
  "backlog_wf cur c \<longleftrightarrow>
    (\<forall>a q. map_of (backlogs c) a = Some q \<longrightarrow> prque_invar q \<and> (\<forall>e \<in># prque_items q. backlog_entry cur e))"

text \<open>Where an entry of the queue of \<open>a\<close> is: still queued, or posted.\<close>

definition backlog_holds :: "address \<Rightarrow> Message entry \<Rightarrow> Core \<Rightarrow> bool" where
  "backlog_holds a e c \<longleftrightarrow> (\<exists>q. map_of (backlogs c) a = Some q \<and> e \<in># prque_items q)"

lemma backlog_scan:
  assumes "prque_invar q" "\<And>e. e \<in># prque_items q \<Longrightarrow> backlog_entry cur e" "backlog_loop cur q [] = (r, out)"
  shows "prque_invar r" "prque_items r \<subseteq># prque_items q"
    and "e \<in># prque_items q \<Longrightarrow> mView (fst e) = cur \<Longrightarrow> PostBacklog (fst e) \<in> set out"
    and "e \<in># prque_items q \<Longrightarrow> view_less cur (mView (fst e)) \<Longrightarrow> e \<in># prque_items r"
proof -
  obtain xs where s: "prque_invar r" "out = map PostBacklog xs"
      "prque_items r = {#e \<in># prque_items q. checkView cur (mView (fst e)) = Some ErrFutureMessage#}"
      "mset xs = {#x \<in># image_mset fst (prque_items q). checkView cur (mView x) = None#}"
    using bl.scan_result [OF assms] by auto
  then show "prque_invar r" "prque_items r \<subseteq># prque_items q" by simp_all
  have v: "checkView cur (mView (fst e)) = None \<longleftrightarrow> mView (fst e) = cur"
    "checkView cur (mView (fst e)) = Some ErrFutureMessage \<longleftrightarrow> view_less cur (mView (fst e))"
    if "e \<in># prque_items q"
    using backlog_entry_checkView [of cur "fst e" "snd e"] assms(2) [OF that] by simp_all
  show "e \<in># prque_items r" if "e \<in># prque_items q" "view_less cur (mView (fst e))"
    using s(3) v(2) that by simp
  assume e: "e \<in># prque_items q" "mView (fst e) = cur"
  then have "fst e \<in># mset xs" using s(4) v(1) by auto
  then show "PostBacklog (fst e) \<in> set out" using s(2) by simp
qed

text \<open>One sender's queue is processed: what is later stays, what is current is posted.\<close>

definition backlog_kept :: "View \<Rightarrow> Core \<Rightarrow> Core \<Rightarrow> bool" where
  "backlog_kept cur c c' \<longleftrightarrow> backlog_wf cur c' \<and> set (outbox c) \<subseteq> set (outbox c') \<and> valSet c' = valSet c \<and>
    (\<forall>a e. backlog_holds a e c \<longrightarrow>
       (view_less cur (mView (fst e)) \<longrightarrow> backlog_holds a e c') \<and>
       (mView (fst e) = cur \<longrightarrow> backlog_holds a e c' \<or> PostBacklog (fst e) \<in> set (outbox c')))"

lemma backlog_kept_refl: "backlog_wf cur c \<Longrightarrow> backlog_kept cur c c"
  by (simp add: backlog_kept_def)

lemma backlog_kept_trans: "backlog_kept cur a b \<Longrightarrow> backlog_kept cur b c \<Longrightarrow> backlog_kept cur a c"
  unfolding backlog_kept_def by (metis subsetD subset_trans)

lemma backlog_visit_step:
  assumes "backlog_wf cur c"
  shows "backlog_kept cur c (backlog_visit cur b c) \<and>
    (\<forall>e. backlog_holds b e c \<longrightarrow> mView (fst e) = cur \<longrightarrow> b \<in> set (validators (valSet c)) \<longrightarrow>
      PostBacklog (fst e) \<in> set (outbox (backlog_visit cur b c)))"
proof (cases "b \<in> set (validators (valSet c)) \<and> map_of (backlogs c) b \<noteq> None")
  case False
  then have "backlog_visit cur b c = c"
    by (auto simp: backlog_visit_def split: option.split)
  with assms False show ?thesis by (auto simp: backlog_holds_def backlog_kept_refl)
next
  case True
  then obtain q where q: "map_of (backlogs c) b = Some q" by auto
  with assms have wf: "prque_invar q" "\<And>e. e \<in># prque_items q \<Longrightarrow> backlog_entry cur e"
    by (auto simp: backlog_wf_def)
  obtain r out where l: "backlog_loop cur q [] = (r, out)" by fastforce
  note s = backlog_scan [OF wf l]
  have c': "backlog_visit cur b c = emit out (c\<lparr>backlogs := AList.update b r (backlogs c)\<rparr>)"
    using True q l by (simp add: backlog_visit_def)
  have "backlog_wf cur (backlog_visit cur b c)"
    using assms s(1,2) wf(2)
    by (auto simp: backlog_wf_def c' emit_def update_conv' dest: mset_subset_eqD split: if_splits)
  with s(3,4) q show ?thesis
    by (auto simp: backlog_kept_def c' emit_def backlog_holds_def update_conv')
qed

lemma fold_backlog_visit:
  "backlog_wf cur c \<Longrightarrow> backlog_kept cur c (fold (backlog_visit cur) as c) \<and>
    (\<forall>a e. a \<in> set as \<longrightarrow> a \<in> set (validators (valSet c)) \<longrightarrow> backlog_holds a e c \<longrightarrow> mView (fst e) = cur \<longrightarrow>
      PostBacklog (fst e) \<in> set (outbox (fold (backlog_visit cur) as c)))"
proof (induction as arbitrary: c)
  case (Cons b as)
  let ?c = "backlog_visit cur b c"
  from Cons.prems backlog_visit_step [of cur c b] have k: "backlog_kept cur c ?c"
    "\<And>e. backlog_holds b e c \<Longrightarrow> mView (fst e) = cur \<Longrightarrow> b \<in> set (validators (valSet c)) \<Longrightarrow>
      PostBacklog (fst e) \<in> set (outbox ?c)" by auto
  from k(1) have "backlog_wf cur ?c" by (simp add: backlog_kept_def)
  note ih = Cons.IH [OF this]
  have "PostBacklog (fst e) \<in> set (outbox (fold (backlog_visit cur) as ?c))"
    if "a \<in> set (b # as)" "a \<in> set (validators (valSet c))" "backlog_holds a e c" "mView (fst e) = cur" for a e
    using that k ih unfolding backlog_kept_def by (metis (no_types, lifting) set_ConsD subsetD)
  with backlog_kept_trans [OF k(1)] ih show ?case by simp
qed (simp add: backlog_kept_refl)

text \<open>C17. Entering a state delivers the backlog: every stored message of a validator for the current view
  is posted to the core, and every one for a later view is still stored, provided the rounds of the
  stored messages are below 10.\<close>

theorem backlog_delivers_current:
  assumes "processBacklog w c = Some c'" "current c = Some rs" "world_ok w" "backlog_wf (rs_View rs) c"
    and "a \<in> set (validators (valSet c))" "backlog_holds a e c"
  shows "(mView (fst e) = rs_View rs \<longrightarrow> PostBacklog (fst e) \<in> set (outbox c')) \<and>
    (view_less (rs_View rs) (mView (fst e)) \<longrightarrow> backlog_holds a e c')"
proof -
  have c': "c' = fold (backlog_visit (rs_View rs)) (w_range_addrs w (map fst (backlogs c))) c"
    using assms(1,2) by (simp add: processBacklog_def)
  have "a \<in> set (map fst (backlogs c))"
    using assms(6) by (auto simp: backlog_holds_def dest!: map_of_SomeD intro: rev_image_eqI)
  moreover have "set (w_range_addrs w xs) = set xs" for xs
    using assms(3) unfolding world_ok_def by (metis mset_eq_setD)
  ultimately have "a \<in> set (w_range_addrs w (map fst (backlogs c)))" by simp
  with fold_backlog_visit [OF assms(4)] assms(5,6) show ?thesis
    unfolding c' backlog_kept_def by blast
qed

definition example_message :: "View \<Rightarrow> Message" where
  "example_message v = (NewCleanMessage v MsgTypeNewView [])\<lparr>mAddress := example_validator\<rparr>"

lemma example_message_simps [simp]:
  "mView (example_message v) = v" "mCode (example_message v) = MsgTypeNewView"
  "mAddress (example_message v) = example_validator"
  by (simp_all add: example_message_def NewCleanMessage_def)

theorem backlog_delivers_current_witness:
  "\<exists>m c'. processBacklog example_world (example_core\<lparr>backlogs := backlog_Push m []\<rparr>) = Some c' \<and>
     PostBacklog m \<in> set (outbox c')"
proof -
  let ?v = "\<lparr>Round = 0, Height = 1\<rparr>"
  let ?m = "example_message ?v"
  let ?p = "toPriority MsgTypeNewView ?v"
  let ?c = "example_core\<lparr>backlogs := backlog_Push ?m []\<rparr>"
  have ne: "example_validator \<noteq> EmptyAddress" "MsgTypeNewView \<le> MsgTypeDecide" by code_simp+
  have bl: "backlogs ?c = [(example_validator, prque_Push ?m ?p prque_New)]"
    using ne by (simp add: backlog_Push_def)
  have "backlog_wf (rs_View example_round) ?c"
    unfolding backlog_wf_def bl
    by (auto simp: prque_Push_invar prque_Push_items pq.invar_new pq.items_new backlog_entry_def small_view_def)
  moreover have "backlog_holds example_validator (?m, ?p) ?c"
    unfolding backlog_holds_def bl by (simp add: prque_Push_items)
  moreover obtain c' where c': "processBacklog example_world ?c = Some c'" by (simp add: processBacklog_def)
  moreover have "current ?c = Some example_round" "example_validator \<in> set (validators (valSet ?c))"
    by (simp_all add: example_committee_def)
  ultimately have "PostBacklog ?m \<in> set (outbox c')"
    using backlog_delivers_current [OF c' _ example_world_ok, of example_round example_validator "(?m, ?p)"] by simp
  with c' show ?thesis by blast
qed

text \<open>C18. From round 11 on the priority of a view is not monotone: a stored message of the next height has a
  higher priority than one of the current view, is popped first, and ends the loop, so that the message of
  the current view is not delivered.\<close>

theorem backlog_holds_back_current:
  assumes "mView m' = \<lparr>Round = 0, Height = Height (mView m) + 1\<rparr>" "11 \<le> Round (mView m)"
    and "Round (mView m) < 2 ^ 32" "0 \<le> Height (mView m)" "Height (mView m) < 2 ^ 32"
    and "q = prque_Push m' (toPriority (mCode m') (mView m')) (prque_Push m (toPriority (mCode m) (mView m)) prque_New)"
    and "backlog_loop (mView m) q [] = (q', out)"
  shows "out = [] \<and> prque_items q' = prque_items q"
proof -
  let ?p = "toPriority (mCode m) (mView m)" and ?p' = "toPriority (mCode m') (mView m')"
  have q: "prque_invar q" "prque_items q = {#(m', ?p'), (m, ?p)#}"
    by (simp_all add: assms(6) prque_Push_invar prque_Push_items pq.invar_new pq.items_new)
  have "?p < ?p'"
    using assms(1-5) toPriority_small [of "mView m"] toPriority_small [of "mView m'"]
      messagePriority_range [of "mCode m"] messagePriority_range [of "mCode m'"] by simp
  obtain x r where pop: "prque_Pop q = Some (x, r)"
    using pq.pop_None [OF q(1)] q(2) by (cases "prque_Pop q") auto
  have "x = (m', ?p')"
    using pq.pop_items [OF q(1) pop] pq.pop_max [OF q(1) pop, of "(m', ?p')"] q(2) \<open>?p < ?p'\<close>
    by (auto simp: add_eq_conv_ex)
  moreover have "checkView (mView m) (mView m') = Some ErrFutureMessage"
    using assms(1-5) by (simp add: checkView_small small_view_def view_less_def)
  ultimately show ?thesis
    using assms(7) pop pq.pop_items [OF q(1) pop] by (subst (asm) backlog_loop.simps) (auto simp: prque_Push_items)
qed

theorem backlog_holds_back_current_witness:
  "\<exists>m q q'. (m, - 211) \<in># prque_items q \<and> backlog_loop (mView m) q [] = (q', []) \<and> prque_items q' = prque_items q"
proof -
  let ?m = "example_message \<lparr>Round = 11, Height = 1\<rparr>" and ?m' = "example_message \<lparr>Round = 0, Height = 2\<rparr>"
  let ?q = "prque_Push ?m' (toPriority (mCode ?m') (mView ?m')) (prque_Push ?m (toPriority (mCode ?m) (mView ?m)) prque_New)"
  obtain q' out where l: "backlog_loop (mView ?m) ?q [] = (q', out)" by fastforce
  have "toPriority (mCode ?m) (mView ?m) = - 211"
    by (simp add: toPriority_small messagePriority_def)
  then have "(?m, - 211) \<in># prque_items ?q" by (simp add: prque_Push_items)
  moreover have "out = [] \<and> prque_items q' = prque_items ?q"
    by (rule backlog_holds_back_current [OF _ _ _ _ _ refl l]) simp_all
  ultimately show ?thesis using l by blast
qed

section \<open>The view of a message\<close>

text \<open>C31. \<open>checkView\<close> takes differences as 64-bit integers, so it sees heights and rounds modulo \<open>2^64\<close>: a
  message whose height is off by a multiple of \<open>2^64\<close> passes as one of the current view.\<close>

theorem checkView_wraps:
  "checkView cur \<lparr>Round = Round cur + j * 2 ^ 64, Height = Height cur + k * 2 ^ 64\<rparr> = None \<and>
   checkView cur (v\<lparr>Height := Height v + k * 2 ^ 64\<rparr>) = checkView cur v"
proof -
  have "big_Int64 (x + k * 2 ^ 64 - y) = big_Int64 (x - y)" for x y k
    using big_Int64_add_multiple [of "x - y" k] by (simp add: algebra_simps)
  moreover have "big_Int64 (k * 2 ^ 64) = 0" for k
    using big_Int64_add_multiple [of 0 k] by (simp add: big_Int64_id)
  ultimately show ?thesis by (simp add: checkView_def View_Sub_def)
qed

section \<open>The round timer\<close>

lemma requestTimeout_small:
  fixes t :: u64
  assumes "uint t \<le> 600000000"
  shows "big_Int64 (uint t * 1000000) = uint t * 1000000" "0 \<le> uint t"
proof -
  have "big_Int64 (x * 1000000) = x * 1000000" if "0 \<le> x" "x \<le> 600000000" for x
    using that by (simp add: big_Int64_id)
  then show "big_Int64 (uint t * 1000000) = uint t * 1000000" using assms by simp
qed simp

lemma roundTimeout_small:
  assumes "uint t \<le> 600000000" "0 < r" "r < 34"
  shows "roundTimeout w t (of_nat r) = uint t * 1000000 + 2 ^ r * 1000000000"
proof -
  have r: "unat (of_nat r :: u64) = r" using assms(3) by (simp add: unat_of_nat)
  have p: "(2::int) ^ r \<le> 2 ^ 33" using assms(3) by (intro power_increasing) auto
  have "(of_nat r :: u64) > 0" using r assms(2) by (metis unat_0 word_gt_0 less_irrefl)
  moreover have "big_Int64 (2 ^ r * 1000000000) = 2 ^ r * 1000000000"
    using p by (intro big_Int64_id) (auto intro: order.trans [of _ 0])
  moreover have "big_Int64 (uint t * 1000000 + 2 ^ r * 1000000000) = uint t * 1000000 + 2 ^ r * 1000000000"
    using p assms(1) requestTimeout_small [OF assms(1)] by (intro big_Int64_id) (auto intro: order.trans [of _ 0])
  ultimately show ?thesis
    using r assms requestTimeout_small [OF assms(1)] by (simp add: roundTimeout_def Let_def)
qed

lemma roundTimeout_grows:
  assumes "uint t \<le> 600000000" "r < 33"
  shows "0 \<le> roundTimeout w t (of_nat r) \<and> roundTimeout w t (of_nat r) < roundTimeout w t (of_nat (Suc r))"
proof (cases "r = 0")
  case True
  have "roundTimeout w t 0 = uint t * 1000000"
    using requestTimeout_small [OF assms(1)] by (simp add: roundTimeout_def Let_def)
  with True roundTimeout_small [OF assms(1), of 1 w] show ?thesis by simp
next
  case False
  with assms(2) roundTimeout_small [OF assms(1), of r w] roundTimeout_small [OF assms(1), of "Suc r" w]
  show ?thesis by simp
qed

text \<open>C32. For request timeouts of up to about a week, the waiting time of a round is greater than that of the round
  before it up to round 33. In round 34 the power of two no longer fits a duration: the time is negative and the
  timer fires at once.\<close>

theorem round_timeouts_grow:
  assumes "uint t \<le> 600000000"
  shows "(r < 33 \<longrightarrow> 0 \<le> roundTimeout w t (of_nat r) \<and> roundTimeout w t (of_nat r) < roundTimeout w t (of_nat (Suc r))) \<and>
    roundTimeout w t 34 < 0"
proof -
  have "big_Int64 17179869184000000000 = - 1266874889709551616"
    by code_simp
  moreover have "big_Int64 (x - 1266874889709551616) < 0" if "0 \<le> x" "x \<le> 600000000000000" for x
    using that by (simp add: big_Int64_id)
  ultimately have "roundTimeout w t 34 < 0"
    using requestTimeout_small [OF assms] assms by (simp add: roundTimeout_def Let_def)
  then show ?thesis using roundTimeout_grows [OF assms] by blast
qed

theorem round_timeouts_grow_witness:
  "roundTimeout example_world 4000 32 < roundTimeout example_world 4000 33 \<and> roundTimeout example_world 4000 34 < 0"
  using round_timeouts_grow [of 4000 32 example_world] by simp

section \<open>Messages on the wire\<close>

lemma finalizeMessage_parts:
  assumes "finalizeMessage K (NewCleanMessage v code body) c = Inr payload"
  obtains data sig where "hs_Encode (message_item (NewCleanMessage v code body)) = Inr data"
    "Sign K (b_signer (c_backend c)) (Keccak256 K data) = Inr sig"
    "hs_Encode (message_item ((NewCleanMessage v code body)\<lparr>mSignature := sig\<rparr>)) = Inr payload"
  using assms
  by (auto simp: finalizeMessage_def Payload_def message_item_def NewCleanMessage_def PayloadNoSig_def
      message_Hash_def split: sum.splits prod.splits if_splits)

text \<open>C19. What a validator sends is accepted: a message signed by \<open>finalizeMessage\<close>, read by \<open>FromPayload\<close>
  with the check of its signature, is the same message with the sender's address, given that the recovery
  of an address from a signature inverts signing.\<close>

theorem finalized_message_accepted:
  assumes "finalizeMessage K (NewCleanMessage v code body) c = Inr payload" "wf_view v" "length payload < 2 ^ 64"
    and "\<And>key h sig. s_privateKey (b_signer (c_backend c)) = Some key \<Longrightarrow> ec_Sign K key h = Inr sig \<Longrightarrow>
      ec_SigToAddress K h sig = Inr (core_Address c)"
    and "core_Address c \<in> set (validators vs)"
  shows "\<exists>m. FromPayload K (core_Address c) payload (Some (CheckSignature K vs)) = Inr m \<and>
    mAddress m = core_Address c \<and> mView m = v \<and> mCode m = code \<and> mMsg m = body"
proof -
  obtain data sig where p: "hs_Encode (message_item (NewCleanMessage v code body)) = Inr data"
      "Sign K (b_signer (c_backend c)) (Keccak256 K data) = Inr sig"
      "hs_Encode (message_item ((NewCleanMessage v code body)\<lparr>mSignature := sig\<rparr>)) = Inr payload"
    by (rule finalizeMessage_parts [OF assms(1)])
  have "EncodeToBytes (message_item ((NewCleanMessage v code body)\<lparr>mSignature := sig\<rparr>)) = Some payload"
    using p(3) by (auto simp: hs_Encode_def split: option.splits)
  with assms(2,3) have d: "DecodeBytes decodeMessage payload = Inr ((NewCleanMessage v code body)\<lparr>mSignature := sig\<rparr>)"
    by (intro message.decode_encode) (auto simp: wf_message_def NewCleanMessage_def EmptyAddress_def wf_lengths)
  have "CheckSignature K vs (Keccak256 K data) sig = Inr (core_Address c)"
    using p(2) assms(4,5)
    by (auto simp: Sign_def CheckSignature_def getSignatureAddress_def split: if_splits option.splits)
  with d p(1) show ?thesis
    by (simp add: FromPayload_def PayloadNoSig_def NewCleanMessage_def)
qed

theorem finalized_message_accepted_witness:
  "\<exists>payload m. finalizeMessage example_crypto (NewCleanMessage \<lparr>Round = 0, Height = 1\<rparr> MsgTypeNewView [1]) example_core
       = Inr payload \<and>
     FromPayload example_crypto example_validator payload (Some (CheckSignature example_crypto example_committee)) = Inr m \<and>
     mMsg m = [1]"
proof -
  let ?r = "finalizeMessage example_crypto (NewCleanMessage \<lparr>Round = 0, Height = 1\<rparr> MsgTypeNewView [1]) example_core"
  have "case ?r of Inl e \<Rightarrow> False | Inr p \<Rightarrow> length p < 1000" by code_simp
  then obtain p where p: "?r = Inr p" "length p < 1000" by (cases ?r) auto
  then have "length p < 2 ^ 64" by simp
  moreover have a: "core_Address example_core = example_validator"
    by (simp add: core_Address_def example_core_def core_New_def backend_Address_def example_backend_def example_signer_def)
  moreover have "ec_SigToAddress example_crypto h sig = Inr example_validator" for h sig
    by (simp add: example_crypto_def example_validator_def)
  ultimately show ?thesis
    using finalized_message_accepted [OF p(1), of example_committee] p(1)
    by (auto simp: wf_view_def example_committee_def)
qed

section \<open>The highest certificate\<close>

lemma getHighQC_loop_max:
  assumes "getHighQC_loop high ms = Inr r"
  shows "(r = high \<or> (\<exists>qc m. r = Some qc \<and> m \<in> set ms \<and> DecodeBytes decodeQC (mMsg m) = Inr qc)) \<and>
    (\<forall>m \<in> set ms. \<exists>q qc. DecodeBytes decodeQC (mMsg m) = Inr q \<and> r = Some qc \<and> \<not> view_less (qView qc) (qView q)) \<and>
    (\<forall>h. high = Some h \<longrightarrow> (\<exists>qc. r = Some qc \<and> \<not> view_less (qView qc) (qView h)))"
  using assms
proof (induction high ms rule: getHighQC_loop.induct)
  case (2 high data rest)
  obtain q where q: "DecodeBytes decodeQC (mMsg data) = Inr q"
    using 2(2) by (auto split: sum.splits)
  let ?h = "case high of None \<Rightarrow> Some q | Some h \<Rightarrow> if View_Cmp (qView h) (qView q) < 0 then Some q else Some h"
  have "getHighQC_loop ?h rest = Inr r" using 2(2) q by simp
  note ih = 2(1) [OF q this]
  define h' where "h' = the ?h"
  have asym: "\<not> view_less a b" if "view_less b a" for a b using that by (auto simp: view_less_def)
  have h': "?h = Some h'" "h' = q \<or> high = Some h'" "\<not> view_less (qView h') (qView q)"
    "\<And>h. high = Some h \<Longrightarrow> \<not> view_less (qView h') (qView h)"
    by (auto simp: h'_def asym split: option.split)
  from ih h'(1) obtain qc where qc: "r = Some qc" "\<not> view_less (qView qc) (qView h')" by blast
  have above: "\<not> view_less (qView qc) v" if "\<not> view_less (qView h') v" for v
    using qc(2) that by (auto simp: view_less_def)
  have "r = high \<or> (\<exists>qc m. r = Some qc \<and> m \<in> set (data # rest) \<and> DecodeBytes decodeQC (mMsg m) = Inr qc)"
    using ih h'(1,2) q by auto
  moreover have "\<exists>q qc. DecodeBytes decodeQC (mMsg m) = Inr q \<and> r = Some qc \<and> \<not> view_less (qView qc) (qView q)"
    if "m \<in> set (data # rest)" for m
    using that ih q qc(1) above [OF h'(3)] by auto
  ultimately show ?case using qc(1) above h'(4) by blast
qed auto

text \<open>C16. The leader extends the highest certificate: \<open>getHighQC\<close> returns a certificate that one of the
  collected new-view messages carries, and none of the others has a later view.\<close>

theorem high_certificate_is_highest:
  assumes "getHighQC w rs = Inr qc"
  shows "(\<exists>m \<in> set (ms_Values w (newViews rs)). DecodeBytes decodeQC (mMsg m) = Inr qc) \<and>
    (\<forall>m \<in> set (ms_Values w (newViews rs)). \<exists>q. DecodeBytes decodeQC (mMsg m) = Inr q \<and>
       0 \<le> View_Cmp (qView qc) (qView q))"
proof -
  have "getHighQC_loop None (ms_Values w (newViews rs)) = Inr (Some qc)"
    using assms by (auto simp: getHighQC_def split: sum.splits option.splits)
  from getHighQC_loop_max [OF this] show ?thesis by (auto simp: not_less [symmetric])
qed

theorem high_certificate_is_highest_witness:
  "\<exists>qc. getHighQC example_world (example_round\<lparr>newViews :=
      snd (ms_Add ((example_message \<lparr>Round = 0, Height = 1\<rparr>)\<lparr>mMsg := enc (qc_item example_lockQC)\<rparr>) (newViews example_round))\<rparr>)
      = Inr qc \<and> 0 \<le> View_Cmp (qView qc) (qView example_lockQC)"
proof -
  let ?rs = "example_round\<lparr>newViews :=
      snd (ms_Add ((example_message \<lparr>Round = 0, Height = 1\<rparr>)\<lparr>mMsg := enc (qc_item example_lockQC)\<rparr>) (newViews example_round))\<rparr>"
  have g: "getHighQC example_world ?rs = Inr example_lockQC"
    using qc.decode_enc [OF example_lock_wf(1) example_lock_length(1)]
    by (simp add: getHighQC_def example_round_def newRoundState_def NewMessageSet_def ms_Add_eq ms_Values_def
        example_world_def example_committee_def)
  from high_certificate_is_highest [OF g] g show ?thesis by force
qed

section \<open>Certificates\<close>

lemma messagesToQC_parts:
  assumes "messagesToQC K w code c rs = Some (Inr qc)"
  obtains n h data shares p sig where "node rs = Some n" "pb_Hash K n = Some h" "h \<noteq> EmptyHash"
    "proposer (valSet c) = Some p"
    "qc = \<lparr>qView = rs_View rs, qCode = code, qProposedBlock = h, qProposer = p, qBLSSignature = sig\<rparr>"
    "hs_Encode (vote_item (qc_vote qc)) = Inr data"
    "tbls_Recover K (s_blsPubPoly (b_signer (c_backend c))) data shares
       (s_t (b_signer (c_backend c))) (s_n (b_signer (c_backend c))) = Inr sig"
proof -
  obtain msgs p vote where u: "GetMessages w code rs = Inr msgs" "msgs \<noteq> []" "proposer (valSet c) = Some p"
      "UnsignedVote K code rs = Some (Some vote)"
    using assms by (cases "GetMessages w code rs"; cases "proposer (valSet c)"; cases "UnsignedVote K code rs";
        cases "the (UnsignedVote K code rs)") (auto simp: messagesToQC_def split: if_splits)
  then obtain data shares where d: "hs_Encode (vote_item vote) = Inr data" "vote_shares (GetMessageVotes msgs) = Some shares"
    using assms by (cases "hs_Encode (vote_item vote)") (auto simp: messagesToQC_def bind_eq_Some_conv)
  with u assms obtain sig where s: "tbls_Recover K (s_blsPubPoly (b_signer (c_backend c))) data shares
      (s_t (b_signer (c_backend c))) (s_n (b_signer (c_backend c))) = Inr sig"
    "qc = \<lparr>qView = rs_View rs, qCode = code, qProposedBlock = vProposedBlock vote, qProposer = p, qBLSSignature = sig\<rparr>"
    by (auto simp: messagesToQC_def BLSRecoverAggSig_def split: sum.splits)
  from u(4) obtain n h where "node rs = Some n" "pb_Hash K n = Some h" "h \<noteq> EmptyHash"
      "vote = \<lparr>vCode = code, vView = rs_View rs, vProposedBlock = h, vBLSSignature = []\<rparr>"
    by (auto simp: UnsignedVote_def split: option.splits if_splits)
  with that u(3) d(1) s show ?thesis by (simp add: qc_vote_def)
qed

lemma clean_message_encodes:
  assumes "wf_view v"
  obtains d where "PayloadNoSig K (NewCleanMessage v code body) =
    (Inr d, (NewCleanMessage v code body)\<lparr>mhash := Keccak256 K d\<rparr>)"
proof -
  have "wf_message (NewCleanMessage v code body)"
    using assms by (simp add: wf_message_def NewCleanMessage_def EmptyAddress_def wf_lengths)
  then have "EncodeToBytes (message_item (NewCleanMessage v code body)) \<noteq> None"
    using EncodeToBytes_None_iff message.item_encodable by blast
  then show ?thesis
    using that by (auto simp: PayloadNoSig_def hs_Encode_def NewCleanMessage_def split: option.splits)
qed

lemma clean_message_hash:
  assumes "PayloadNoSig K (NewCleanMessage v code body) =
    (Inr d, (NewCleanMessage v code body)\<lparr>mhash := Keccak256 K d\<rparr>)"
  shows "fst (message_Hash K ((NewCleanMessage v code body)\<lparr>mhash := Keccak256 K d\<rparr>)) = Inr (Keccak256 K d)"
  using assms by (auto simp: message_Hash_def PayloadNoSig_def NewCleanMessage_def split: sum.splits)

text \<open>The message that carries a certificate of each kind of vote.\<close>

definition carries :: "MsgType \<Rightarrow> MsgType \<Rightarrow> bool" where
  "carries code vote \<longleftrightarrow> (code, vote) \<in> {(MsgTypePreCommit, MsgTypePrepareVote),
     (MsgTypeCommit, MsgTypePreCommitVote), (MsgTypeDecide, MsgTypeCommitVote)}"

text \<open>C11. The certificate that the leader assembles from its votes is accepted by every node that holds the
  same proposal, has the same proposer and committee key, and gets it in the message of the next phase,
  given that a threshold signature that has been recovered verifies.\<close>

theorem leader_certificate_accepted:
  assumes "messagesToQC K w code c rs = Some (Inr qc)" "wf_view (rs_View rs)" "proposer (valSet c) \<noteq> Some EmptyAddress"
    and "\<And>pub data shares t n sig. tbls_Recover K pub data shares t n = Inr sig \<Longrightarrow> bls_Verify K pub data sig = None"
    and "s_blsPubPoly (b_signer (c_backend c')) = s_blsPubPoly (b_signer (c_backend c))"
    and "proposer (valSet c') = proposer (valSet c)" "node rs' = node rs"
    and "mView data = rs_View rs" "carries (mCode data) code"
  shows "verifyQC K c' rs' data qc = Some None"
proof -
  obtain n h d shares p sig where q: "node rs = Some n" "pb_Hash K n = Some h" "h \<noteq> EmptyHash"
    "proposer (valSet c) = Some p"
    "qc = \<lparr>qView = rs_View rs, qCode = code, qProposedBlock = h, qProposer = p, qBLSSignature = sig\<rparr>"
    "hs_Encode (vote_item (qc_vote qc)) = Inr d"
    "tbls_Recover K (s_blsPubPoly (b_signer (c_backend c))) d shares
       (s_t (b_signer (c_backend c))) (s_n (b_signer (c_backend c))) = Inr sig"
    by (rule messagesToQC_parts [OF assms(1)])
  obtain e where e: "PayloadNoSig K (NewCleanMessage (rs_View rs) code h) =
      (Inr e, (NewCleanMessage (rs_View rs) code h)\<lparr>mhash := Keccak256 K e\<rparr>)"
    by (rule clean_message_encodes [OF assms(2)])
  have "AuthQC K (b_signer (c_backend c')) qc = None"
    using q(5,6) assms(4) [OF q(7)] assms(5) by (simp add: AuthQC_def BLSVerifyAggSig_def)
  moreover have "verifyQC_current K c' rs' data qc = Some None"
    using q assms(6-8) by (simp add: verifyQC_current_def)
  moreover have "qc_code_matches (mCode data) code" "mCode data \<noteq> MsgTypeNewView" "mCode data \<noteq> MsgTypePrepare"
    "mCode data = MsgTypePreCommit \<or> mCode data = MsgTypeCommit \<or> mCode data = MsgTypeDecide"
    using assms(9) by (auto simp: carries_def qc_code_matches_def)
  ultimately show ?thesis
    using q(3,4) assms(3) e clean_message_hash [OF e]
    by (auto simp: verifyQC_def q(5) SealHash_def)
qed

definition example_vote :: Vote where
  "example_vote = \<lparr>vCode = MsgTypePrepareVote, vView = \<lparr>Round = 0, Height = 1\<rparr>,
     vProposedBlock = qProposedBlock example_lockQC, vBLSSignature = [5]\<rparr>"

definition leader_round :: roundState where
  "leader_round = example_round\<lparr>node := Some example_node,
     prepareVotes := snd (ms_Add ((example_message \<lparr>Round = 0, Height = 1\<rparr>)\<lparr>mMsg := enc (vote_item example_vote)\<rparr>)
       (prepareVotes example_round))\<rparr>"

definition leader_core :: Core where
  "leader_core = example_core\<lparr>valSet := example_committee\<lparr>proposer := Some example_validator\<rparr>\<rparr>"

theorem leader_certificate_accepted_witness:
  "\<exists>qc. messagesToQC example_crypto example_world MsgTypePrepareVote leader_core leader_round = Some (Inr qc) \<and>
     verifyQC example_crypto leader_core leader_round (NewCleanMessage \<lparr>Round = 0, Height = 1\<rparr> MsgTypePreCommit []) qc = Some None"
proof -
  let ?r = "messagesToQC example_crypto example_world MsgTypePrepareVote leader_core leader_round"
  have "case ?r of Some (Inr qc) \<Rightarrow> True | _ \<Rightarrow> False" by code_simp
  then obtain qc where m: "?r = Some (Inr qc)" by (auto split: option.splits sum.splits)
  have v: "rs_View leader_round = \<lparr>Round = 0, Height = 1\<rparr>"
    by (simp add: leader_round_def rs_View_def)
  have "proposer (valSet leader_core) \<noteq> Some EmptyAddress" by code_simp
  then have "verifyQC example_crypto leader_core leader_round
      (NewCleanMessage \<lparr>Round = 0, Height = 1\<rparr> MsgTypePreCommit []) qc = Some None"
    by (intro leader_certificate_accepted [OF m])
      (simp_all add: v wf_view_def carries_def NewCleanMessage_def example_crypto_def)
  with m show ?thesis by blast
qed

end
