(* ===== verification/Core_Liveness.thy ===== *)
theory Core_Liveness
  imports Core_Run
begin

text \<open>
  What keeps a node moving: when the round timer fires and the chain has not grown, the node is in the
  next round of its height, ready for requests, with its lock and its certificates, and the timer of the
  new round is running.
\<close>

lemma broadcast_current:
  assumes "broadcast K w code p c = Some c'"
  shows "current c' = current c" "roundChangeTimer c' = roundChangeTimer c"
proof -
  obtain rs where "current c = Some rs" using assms by (auto simp: broadcast_def bind_eq_Some_conv)
  with assms show "current c' = current c" "roundChangeTimer c' = roundChangeTimer c"
    by (auto simp: broadcast_def emit_def bind_eq_Some_conv split: if_splits sum.splits prod.splits)
qed

lemma sendNewView_current:
  assumes "sendNewView K w c = Some c'"
  shows "current c' = current c" "roundChangeTimer c' = roundChangeTimer c"
proof -
  obtain rs where "current c = Some rs" using assms by (auto simp: sendNewView_def bind_eq_Some_conv)
  with assms show "current c' = current c" "roundChangeTimer c' = roundChangeTimer c"
    by (auto simp: sendNewView_def broadcast_current split: sum.splits)
qed

lemma pending_timer: "processPendingRequests c = Some c' \<Longrightarrow> roundChangeTimer c' = roundChangeTimer c"
  by (cases "current c")
    (auto simp: processPendingRequests_def emit_def split: if_splits prod.splits)

lemma visit_timer: "roundChangeTimer (backlog_visit v a c) = roundChangeTimer c"
  by (auto simp: backlog_visit_def emit_def split: option.split prod.split)

lemma fold_visit_timer: "roundChangeTimer (fold (backlog_visit v) as c) = roundChangeTimer c"
  by (induction as arbitrary: c) (simp_all add: visit_timer)

lemma setCurrentState_timer: "setCurrentState w s c = Some c' \<Longrightarrow> roundChangeTimer c' = roundChangeTimer c"
  by (auto simp: setCurrentState_def processBacklog_def bind_eq_Some_conv Let_def set_current_def fold_visit_timer
      dest!: pending_timer split: if_splits)

lemma enter_current:
  assumes "do { c \<leftarrow> newRoundChangeTimer w c1; c \<leftarrow> setCurrentState w StateAcceptRequest c; sendNewView K w c } = Some c'"
    and "current c1 = Some rs" "backlog_ok c1"
  shows "current c' = Some (rs\<lparr>rs_state := StateAcceptRequest\<rparr>) \<and> roundChangeTimer c'"
proof -
  obtain c2 c3 where c: "newRoundChangeTimer w c1 = Some c2" "setCurrentState w StateAcceptRequest c2 = Some c3"
      "sendNewView K w c3 = Some c'"
    using assms(1) by (auto simp: bind_eq_Some_conv)
  have "roundChangeTimer c2" using c(1) assms(2) by (auto simp: newRoundChangeTimer_def emit_def)
  moreover have "current c2 = Some rs" "backlog_ok c2"
    using newRoundChangeTimer_returns [OF assms(2,3), of w] c(1) by simp_all
  then have "current c3 = Some (rs\<lparr>rs_state := StateAcceptRequest\<rparr>)"
    using setCurrentState_returns [of c2 rs w StateAcceptRequest] c(2) by simp
  ultimately show ?thesis
    using sendNewView_current [OF c(3)] setCurrentState_timer [OF c(2)] by simp
qed

lemma newRoundView_timeout:
  assumes "current c = Some rs" "view_ok rs" "0 \<le> block_Number blk" "block_Number blk + 1 = rs_height rs"
    and "rs_round rs + 1 < 2 ^ 63"
  shows "newRoundView blk (rs_round rs + 1) c = Some (True, \<lparr>Round = rs_round rs + 1, Height = rs_height rs\<rparr>)"
proof -
  have v: "0 \<le> rs_round rs" "rs_height rs < 2 ^ 63" using assms(2) by (simp_all add: view_ok_def)
  have n: "rs_HeightU64 rs = NumberU64 blk + 1"
    using big_Uint64_Suc [OF assms(3)] assms(4) by (simp add: rs_HeightU64_def NumberU64_Number)
  have "NumberU64 blk < rs_HeightU64 rs"
    using big_Uint64_le(2) [of "block_Number blk" "rs_height rs"] assms(3,4) v
    by (simp add: rs_HeightU64_def NumberU64_Number)
  moreover have "\<not> big_Uint64 (rs_round rs + 1) < rs_RoundU64 rs"
    using big_Uint64_le(2) [of "rs_round rs + 1" "rs_round rs"] v assms(5) by (simp add: rs_RoundU64_def)
  moreover have "big_Sign (rs_round rs + 1) \<noteq> 0" using v(1) by (simp add: big_Sign_def)
  ultimately show ?thesis using assms(1) n by (simp add: newRoundView_def Let_def not_le)
qed

lemma timeout_advances:
  assumes "core_inv K c" "current c = Some rs" "chain_ok w" "rs_round rs + 1 < 2 ^ 63"
    and "LastProposal K w (c_backend c) = ((Some blk, a), b)" "block_Number blk + 1 = rs_height rs"
  obtains c' rs' where "handleTimeoutMsg K w c = Some c'" "current c' = Some rs'" "good K c c'" "roundChangeTimer c'"
    "rs_View rs' = \<lparr>Round = rs_round rs + 1, Height = rs_height rs\<rparr>" "rs_state rs' = StateAcceptRequest"
    "LockedBlock rs' = LockedBlock rs" "lockQC rs' = lockQC rs" "prepareQC rs' = prepareQC rs"
proof -
  have inv: "rs_inv K rs" "backlog_ok c" "isRunning c" using assms(1,2) by (auto simp: core_inv_def)
  let ?v = "\<lparr>Round = rs_round rs + 1, Height = rs_height rs\<rparr>"
  let ?vs = "CalcProposer (valSet c) a (big_Uint64 (rs_round rs + 1))"
  let ?rs = "rs_update K ?vs blk ?v rs"
  let ?c = "set_current ?rs (c\<lparr>c_backend := b, valSet := ?vs\<rparr>)"
  have "0 \<le> block_Number blk" using assms(3) LastProposal_block [OF assms(5)] by (simp add: chain_ok_def)
  then have nv: "newRoundView blk (rs_round rs + 1) (c\<lparr>c_backend := b\<rparr>) = Some (True, ?v)"
    using inv(1) assms by (intro newRoundView_timeout) (simp_all add: rs_inv_def)
  have "updateRoundState K w blk ?v (c\<lparr>c_backend := b, valSet := ?vs\<rparr>) = (None, ?c)"
    using assms(2) inv(1) by (auto simp: updateRoundState_def rs_inv_def rs_update_def Let_def)
  then have h: "handleTimeoutMsg K w c =
      do { c \<leftarrow> newRoundChangeTimer w ?c; c \<leftarrow> setCurrentState w StateAcceptRequest c; sendNewView K w c }"
    using assms(2,5) inv(3) nv
    by (simp add: handleTimeoutMsg_def startNewRound_def enterRound_def Let_def set_current_def)
  obtain c' where c': "handleTimeoutMsg K w c = Some c'" "good K c c'"
    using startNewRound_good [OF assms(1-3), of "rs_round rs + 1"] assms(2,4) returnsD
    by (fastforce simp: handleTimeoutMsg_def)
  have "backlog_ok ?c"
    using inv(2) LastProposal_keeps [OF assms(5)]
    by (auto simp: backlog_ok_def set_current_def core_Address_def backend_keeps_Address CalcProposer_def queues_ok_def
        foreign_def)
  then have "current c' = Some (?rs\<lparr>rs_state := StateAcceptRequest\<rparr>) \<and> roundChangeTimer c'"
    using h c'(1) by (intro enter_current) (simp_all add: set_current_def)
  then show ?thesis
    using that [OF c'(1) _ c'(2)] by (simp add: rs_update_def rs_View_def LockedBlock_def)
qed

end
