(* ===== verification/Core_Zero_Height.thy ===== *)
theory Core_Zero_Height
  imports Core_Services Core_Run
begin

text \<open>
  The exception for certificates of height 0, which \<open>verifyQC\<close> and \<open>AuthQC\<close> accept unread. It is there for the
  genesis block, and it is open at every height: what a decide message with such a certificate does to a node that
  is locked on a block.
\<close>

section \<open>Accepting the decision\<close>

lemma db_store_ok:
  assumes "hs_Encode x = Inr raw" "w_dbPut w key = None"
  obtains db' where "db_store w key x db = (None, db')"
  using assms by (cases db) (auto simp: db_store_def)

text \<open>The round state after \<open>acceptCommitQC\<close>.\<close>

definition committed_round :: "roundState \<Rightarrow> ProposedBlock \<Rightarrow> ExecutedBlock \<Rightarrow> Block \<Rightarrow> QuorumCert \<Rightarrow> roundState" where
  "committed_round rs n ex sealed qc = rs\<lparr>node := Some (n\<lparr>pb_Block := Some sealed\<rparr>), lockedBlock := Some sealed,
    executed := Some (ex\<lparr>eb_Block := Some sealed\<rparr>), committedQC := Some qc, rs_state := StateCommitted\<rparr>"

lemma acceptCommitQC_ok:
  assumes "current c = Some rs" "node rs = Some n" "pb_Block n = Some nb" "block_Hash K nb = block_Hash K sealed"
    and "executed rs = Some ex" "eb_Block ex = Some eb" "block_Hash K eb = block_Hash K sealed"
    and "hs_Encode (pb_item (n\<lparr>pb_Block := Some sealed\<rparr>)) = Inr raw" "hs_Encode (qc_item qc) = Inr raw'"
    and "w_dbPut w nodeKey = None" "w_dbPut w commitQCKey = None"
  obtains db where "acceptCommitQC K w sealed qc c = ok ((set_current (committed_round rs n ex sealed qc) c)\<lparr>c_db := db\<rparr>)"
proof -
  obtain db1 where d1: "db_store w nodeKey (pb_item (n\<lparr>pb_Block := Some sealed\<rparr>)) (c_db c) = (None, db1)"
    by (rule db_store_ok [OF assms(8,10)])
  obtain db2 where d2: "db_store w commitQCKey (qc_item qc) db1 = (None, db2)" by (rule db_store_ok [OF assms(9,11)])
  show ?thesis
    by (rule that [of db2]) (use assms(1-7) d1 d2 in \<open>simp add: acceptCommitQC_def on_round_def SetSealedBlock_def
      storeNode_def reseal_executed_def SetCommittedQC_def storeCommitQC_def check_def ok_def set_current_def
      committed_round_def Let_def\<close>)
qed

lemma commit_ok:
  assumes "current c = Some rs" "LockedBlock rs = Some sealed" "executed rs = Some ex" "eb_Block ex = Some sealed"
  obtains c' where "commit K w sealed c = ok c'" "FeedExecuted ex \<in> set (outbox c')"
proof -
  have "executed_for K sealed (Some ex)" using assms(4) by (simp add: executed_for_def)
  then have "commit K w sealed c = ok (emit (snd (backend_Commit K ex (c_backend c))) (set_current (rs\<lparr>executed := Some ex\<rparr>) c))"
    using assms by (simp add: commit_def commit_execute_def Let_def backend_Commit_def ok_def)
  moreover have "FeedExecuted ex \<in> set (snd (backend_Commit K ex (c_backend c)))"
    using assms(4) by (simp add: backend_Commit_def)
  ultimately show ?thesis using that by (simp add: emit_def)
qed

lemma good_outbox: "good K a b \<Longrightarrow> set (outbox a) \<subseteq> set (outbox b)"
  by (auto simp: good_def grows_def)

lemma acceptDecide_ok:
  assumes "current c = Some rs" "rs_state rs = StatePreCommitted" "\<not> core_IsProposer c" "LockedBlock rs = Some lb"
    and "SealBlock lb qc = Inr sealed" "node rs = Some n" "pb_Block n = Some nb" "block_Hash K nb = block_Hash K sealed"
    and "executed rs = Some ex" "eb_Block ex = Some eb" "block_Hash K eb = block_Hash K sealed"
    and "hs_Encode (pb_item (n\<lparr>pb_Block := Some sealed\<rparr>)) = Inr raw"
    and "w_dbPut w nodeKey = None" "w_dbPut w commitQCKey = None"
  obtains c' where "acceptDecide K w qc c = ok c'" "FeedExecuted (ex\<lparr>eb_Block := Some sealed\<rparr>) \<in> set (outbox c')"
proof -
  let ?rs = "committed_round rs n ex sealed qc"
  obtain raw' where "hs_Encode (qc_item qc) = Inr raw'" using assms(5) by (auto simp: SealBlock_def split: sum.splits)
  then obtain db where q: "acceptCommitQC K w sealed qc c = ok ((set_current ?rs c)\<lparr>c_db := db\<rparr>)" (is "_ = ok ?c1")
    using acceptCommitQC_ok [OF assms(1,6-12) _ assms(13,14)] by blast
  have "LockedBlock ?rs = Some sealed"
    using assms(4) by (auto simp: LockedBlock_def committed_round_def split: if_splits)
  then obtain c' where c': "commit K w sealed ?c1 = ok c'" "FeedExecuted (ex\<lparr>eb_Block := Some sealed\<rparr>) \<in> set (outbox c')"
    using commit_ok [of ?c1 ?rs sealed "ex\<lparr>eb_Block := Some sealed\<rparr>" K w]
    by (auto simp: committed_round_def set_current_def)
  have "acceptDecide K w qc c = ok c'"
    using assms(1-5) q c'(1) by (simp add: acceptDecide_def check_def ok_def)
  with c'(2) show ?thesis by (rule that [rotated])
qed

section \<open>The property\<close>

text \<open>C12. A certificate of height 0 is accepted unread. A node with the invariant of a run (C3) that is not the
  proposer, is locked on a block and has executed it gets a decide message of the proposer for that block, in its
  view, whose certificate has height 0, with no vote and no signature; nothing is assumed of the signature schemes.
  If the writes to its database succeed, the handler returns without an error and has handed the block to the
  chain.\<close>

theorem zero_height_certificate_commits:
  assumes "core_inv K c" "chain_ok w" "current c = Some rs" "rs_state rs = StatePreCommitted" "\<not> core_IsProposer c"
    and "LockedBlock rs = Some lb" "node rs = Some n"
    and "executed rs = Some ex" "eb_Block ex = Some eb" "block_Hash K eb = block_Hash K lb"
    and "DecodeBytes decodeDiploma (mMsg data) = Inr d" "checkView (rs_View rs) (mView data) = None"
    and "IsProposer (valSet c) (mAddress data)" "qc_HeightU64 (CommitQC d) = 0"
    and "BlockHash d = block_Hash K lb" "BlockHash d \<noteq> EmptyHash" "pb_Hash K n = Some (qProposedBlock (CommitQC d))"
    and "SealBlock lb (CommitQC d) = Inr sealed" "block_Hash K sealed = block_Hash K lb"
    and "hs_Encode (pb_item (n\<lparr>pb_Block := Some sealed\<rparr>)) = Inr raw"
    and "w_dbPut w nodeKey = None" "w_dbPut w commitQCKey = None"
  shows "\<exists>c'. handleDecide K w data c = Some (None, c') \<and>
    FeedExecuted (ex\<lparr>eb_Block := Some sealed\<rparr>) \<in> set (outbox c')"
proof -
  have "lock_ok K rs" using assms(1,3) by (auto elim: core_inv_current simp: rs_inv_def)
  then obtain nb where nb: "pb_Block n = Some nb" "block_Hash K nb = block_Hash K lb"
    using assms(6,7) by (auto simp: lock_ok_def)
  have h: "block_Hash K nb = block_Hash K sealed" "block_Hash K eb = block_Hash K sealed"
    using nb(2) assms(10,19) by simp_all
  obtain c1 where c1: "acceptDecide K w (CommitQC d) c = ok c1"
    "FeedExecuted (ex\<lparr>eb_Block := Some sealed\<rparr>) \<in> set (outbox c1)"
    by (rule acceptDecide_ok [OF assms(3-6,18,7) nb(1) h(1) assms(8,9) h(2) assms(20-22)])
  have "core_inv K c1"
    using returnsD [OF acceptDecide_returns [OF assms(1,3,6), of w "CommitQC d"]] c1(1)
    by (auto simp: ok_def dest: commits_inv)
  moreover from this obtain rs1 where "current c1 = Some rs1" by (auto elim: core_inv_current)
  ultimately obtain c' where c': "startNewRound K w 0 c1 = Some c'" "good K c1 c'"
    using returnsD [OF startNewRound_good [of K c1 rs1 w 0]] assms(2) by blast
  have "verifyQC K c rs data (CommitQC d) = Some None" using assms(14) by (simp add: verifyQC_def)
  moreover have "checkDiploma K d rs = Some None"
    using assms(6,7,15-17) nb by (simp add: checkDiploma_def)
  ultimately have "handleDecide K w data c = Some (None, c')"
    using assms(3,11-13) c1(1) c'(1) by (simp add: handleDecide_def check_def checkMsgSource_def ok_def)
  with c1(2) good_outbox [OF c'(2)] show ?thesis by blast
qed

section \<open>A locked node\<close>

text \<open>A replica of two validators in round 0 of height 1, with the lock in its memory and in its database; the
  other validator is the proposer.\<close>

definition forged_diploma :: Diploma where
  "forged_diploma = \<lparr>CommitQC = example_lockQC\<lparr>qView := \<lparr>Round = 0, Height = 0\<rparr>, qBLSSignature := []\<rparr>,
     BlockHash = block_Hash example_crypto next_block\<rparr>"

definition forged_decide :: Message where
  "forged_decide = (NewCleanMessage \<lparr>Round = 0, Height = 1\<rparr> MsgTypeDecide (enc (diploma_item forged_diploma)))
     \<lparr>mAddress := replicate 20 2\<rparr>"

definition executed_block :: ExecutedBlock where
  "executed_block = \<lparr>eb_State = None, eb_Block = Some next_block, eb_Receipts = None, eb_Logs = None\<rparr>"

definition locked_state :: "database \<times> roundState" where
  "locked_state = snd (Lock example_world example_lockQC (Some Map.empty, example_round\<lparr>rs_state := StatePreCommitted,
     node := Some example_node, executed := Some executed_block, prepareQC := Some example_lockQC\<rparr>))"

definition locked_core :: Core where
  "locked_core = example_core\<lparr>isRunning := True, c_db := fst locked_state, current := Some (snd locked_state),
     valSet := \<lparr>validators = [example_validator, replicate 20 2], policy = RoundRobin, proposer = Some (replicate 20 2)\<rparr>\<rparr>"

definition locked_round :: roundState where
  "locked_round = example_round\<lparr>rs_state := StatePreCommitted, node := Some example_node, lockedBlock := Some next_block,
     executed := Some executed_block, proposalLocked := True, prepareQC := Some example_lockQC,
     lockQC := Some example_lockQC\<rparr>"

lemma locked_state_Lock:
  "Lock example_world example_lockQC (Some Map.empty, example_round\<lparr>rs_state := StatePreCommitted,
     node := Some example_node, executed := Some executed_block, prepareQC := Some example_lockQC\<rparr>) =
   (None, Some [lockQCKey \<mapsto> enc (qc_item example_lockQC), nodeKey \<mapsto> enc (pb_item example_node)], locked_round)"
proof -
  have s: "db_store example_world key x (Some m) = (None, Some (m(key \<mapsto> raw)))" if "EncodeToBytes x = Some raw" for key x m raw
    using that by (simp add: db_store_def hs_Encode_def example_world_def)
  have n: "pb_Block example_node = Some next_block" by (simp add: example_node_def)
  show ?thesis
    unfolding Lock_def storeLockQC_def storeNode_def
    by (simp add: s [OF qc.encode_ok [OF example_lock_wf(1) example_lock_length(1)]]
        s [OF pb.encode_ok [OF example_lock_wf(2) example_lock_length(2)]] n locked_round_def)
qed

lemma locked_state:
  "locked_state = (Some [lockQCKey \<mapsto> enc (qc_item example_lockQC), nodeKey \<mapsto> enc (pb_item example_node)], locked_round)"
  by (simp add: locked_state_def locked_state_Lock)

lemma locked_core_simps:
  "current locked_core = Some locked_round" "rs_state locked_round = StatePreCommitted" "isRunning locked_core"
  "LockedBlock locked_round = Some next_block" "node locked_round = Some example_node"
  "executed locked_round = Some executed_block" "rs_View locked_round = \<lparr>Round = 0, Height = 1\<rparr>"
  "proposer (valSet locked_core) = Some (replicate 20 2)" "outbox locked_core = []" "backlogs locked_core = []"
  "c_db locked_core \<noteq> None"
  by (simp_all add: locked_core_def locked_state locked_round_def LockedBlock_def rs_View_def)

lemma locked_core_inv: "core_inv example_crypto locked_core"
proof -
  have n: "NumberU64 next_block = 1" "NumberU64 genesis_block + 1 = 1" by code_simp+
  have h: "rs_height locked_round = 1" "rs_round locked_round = 0" "lastChainedBlock locked_round = genesis_block"
    "rs_HeightU64 locked_round = 1" "prepareQC locked_round \<noteq> None"
    by (simp_all add: locked_round_def rs_HeightU64_def big_Uint64_def) (simp add: example_round_def newRoundState_def)
  have v: "votes_decode (prepareVotes locked_round)" "votes_decode (preCommitVotes locked_round)"
    "votes_decode (commitVotes locked_round)"
    by (simp_all add: locked_round_def example_round_def newRoundState_def votes_decode_def NewMessageSet_def)
  have nb: "pb_Block example_node = Some next_block" by (simp add: example_node_def)
  have "rs_inv example_crypto locked_round"
    using n h v nb by (simp add: rs_inv_def view_ok_def node_ok_def lock_ok_def executed_ok_def locked_core_simps
        executed_block_def)
  moreover have "vs_ok (valSet locked_core)"
    by (simp add: vs_ok_def wf_valset_def locked_core_def example_validator_def RoundRobin_def VRF_def)
  moreover have "backlog_ok locked_core" by (simp add: backlog_ok_def queues_ok_def locked_core_simps)
  ultimately show ?thesis by (simp add: core_inv_def locked_core_simps)
qed

theorem zero_height_certificate_commits_witness:
  "c_db locked_core \<noteq> None \<and> qc_HeightU64 (CommitQC forged_diploma) = 0 \<and> qBLSSignature (CommitQC forged_diploma) = [] \<and>
     (\<exists>c' ex. handleDecide example_crypto example_world forged_decide locked_core = Some (None, c') \<and>
        FeedExecuted ex \<in> set (outbox c'))"
proof -
  let ?d = forged_diploma
  have "wf_diploma ?d"
    using example_lock_wf(1) wf_rlpHash [OF example_keccak_size]
    by (simp add: forged_diploma_def wf_diploma_def wf_qc_def wf_view_def block_Hash_def header_Hash_def Let_def
        split: option.split)
  moreover have "length (enc (diploma_item ?d)) < 1000" by code_simp
  ultimately have d: "DecodeBytes decodeDiploma (mMsg forged_decide) = Inr ?d"
    by (simp add: forged_decide_def NewCleanMessage_def diploma.decode_enc)
  have "case SealBlock next_block (CommitQC ?d) of Inl e \<Rightarrow> False
    | Inr s \<Rightarrow> block_Hash example_crypto s = block_Hash example_crypto next_block \<and>
        (case hs_Encode (pb_item (example_node\<lparr>pb_Block := Some s\<rparr>)) of Inl e \<Rightarrow> False | Inr raw \<Rightarrow> True)" by code_simp
  then obtain s raw where s: "SealBlock next_block (CommitQC ?d) = Inr s"
      "block_Hash example_crypto s = block_Hash example_crypto next_block"
      "hs_Encode (pb_item (example_node\<lparr>pb_Block := Some s\<rparr>)) = Inr raw" by (auto split: sum.splits)
  have h: "BlockHash ?d \<noteq> EmptyHash" by code_simp
  have p: "\<not> core_IsProposer locked_core"
    by (simp add: core_IsProposer_def IsProposer_def core_Address_def backend_Address_def locked_core_def example_core_def
        core_New_def example_backend_def example_signer_def example_validator_def)
  have q: "qc_HeightU64 (CommitQC ?d) = 0" "BlockHash ?d = block_Hash example_crypto next_block"
    "qBLSSignature (CommitQC ?d) = []"
    "pb_Hash example_crypto example_node = Some (qProposedBlock (CommitQC ?d))" "eb_Block executed_block = Some next_block"
    by (simp_all add: forged_diploma_def qc_HeightU64_def big_Uint64_def pb_Hash_def example_node_def example_lockQC_def
        executed_block_def)
  have v: "checkView (rs_View locked_round) (mView forged_decide) = None"
      "IsProposer (valSet locked_core) (mAddress forged_decide)"
    by (simp_all add: locked_core_simps forged_decide_def NewCleanMessage_def checkView_def View_Sub_def big_Int64_id
        locked_core_def IsProposer_def)
  have w: "chain_ok example_world" "w_dbPut example_world key = None" for key
    by (simp_all add: chain_ok_def example_world_def genesis_block_def genesis_header_def block_Number_def
        block_Header_def CopyHeader_def)
  note l = locked_core_simps
  from zero_height_certificate_commits [OF locked_core_inv w(1) l(1,2) p l(4,5,6) q(5) refl d v q(1,2) h q(4) s w(2) w(2)]
    q(1,3) l(11) show ?thesis by blast
qed

end
