(* ===== verification/Engine.thy ===== *)
theory Engine
  imports Core_Run
begin

text \<open>
  The engine as the node sees it: its construction (\<open>New\<close> of \<open>backend/backend.go\<close> and \<open>NewSigner\<close> of
  \<open>signer/signer.go\<close>), \<open>Start\<close> and \<open>Stop\<close> of \<open>backend/engine.go\<close>, the broadcaster, and the RPC interface of
  \<open>backend/api.go\<close>. The faulty mode of the configuration is \<open>Disabled\<close>, so that \<open>New\<close> of \<open>core/core.go\<close> returns the
  protocol's own core. The address of a key is a parameter. The curve of the threshold signatures is part of the
  \<open>crypto\<close> parameter; the commit channel and the event subscriptions are not part of the state.
\<close>

section \<open>Construction\<close>

record BLSInfo =
  bi_BLSPubPoly :: bytes
  bi_BLSPrivKey :: bytes
  bi_T :: int
  bi_N :: int

definition NewSigner :: "(bytes \<Rightarrow> address) \<Rightarrow> bytes \<Rightarrow> BLSInfo \<Rightarrow> signer" where
  "NewSigner pubkeyToAddress privateKey blsInfo =
    \<lparr>s_address = pubkeyToAddress privateKey, s_privateKey = Some privateKey, s_signatures = Map.empty,
     s_blsPubPoly = bi_BLSPubPoly blsInfo, s_blsPrivKey = bi_BLSPrivKey blsInfo, s_t = bi_T blsInfo, s_n = bi_N blsInfo\<rparr>"

record engine =
  e_core :: Core
  e_proposals :: "address \<rightharpoonup> bool"

definition engine_New ::
  "(bytes \<Rightarrow> address) \<Rightarrow> config \<Rightarrow> bytes \<Rightarrow> database \<Rightarrow> defaultSet \<Rightarrow> BLSInfo \<Rightarrow> engine" where
  "engine_New pubkeyToAddress cfg privateKey db valset blsInfo =
    (let b = \<lparr>b_config = cfg, b_valset = valset, b_signer = NewSigner pubkeyToAddress privateKey blsInfo,
              b_started = False, b_hasCurrentBlock = False, b_hasBadBlock = False, b_broadcaster = False,
              b_knownMessages = {}, b_recentMessages = Map.empty, b_proposedBlockHash = EmptyHash\<rparr>
     in \<lparr>e_core = core_New b db valset, e_proposals = Map.empty\<rparr>)"

definition SetBroadcaster :: "bool \<Rightarrow> engine \<Rightarrow> engine" where
  "SetBroadcaster broadcaster e =
    e\<lparr>e_core := (e_core e)\<lparr>c_backend := (c_backend (e_core e))\<lparr>b_broadcaster := broadcaster\<rparr>\<rparr>\<rparr>"

section \<open>Start and stop\<close>

text \<open>\<open>currentBlock\<close> and \<open>hasBadBlock\<close> say that the callback is not nil; what the callbacks return is in the
  world.\<close>

definition start_backend :: "bool \<Rightarrow> bool \<Rightarrow> backend \<Rightarrow> backend" where
  "start_backend currentBlock hasBadBlock b =
    b\<lparr>b_proposedBlockHash := EmptyHash, b_hasCurrentBlock := currentBlock, b_hasBadBlock := hasBadBlock\<rparr>"

definition engine_Start ::
  "crypto \<Rightarrow> world \<Rightarrow> bool \<Rightarrow> bool \<Rightarrow> engine \<Rightarrow> (err option \<times> engine) option" where
  "engine_Start K w currentBlock hasBadBlock e =
    (let c = e_core e in
     if b_started (c_backend c) then Some (Some ErrStartedEngine, e)
     else do {
       c \<leftarrow> core_Start K w (c\<lparr>c_backend := start_backend currentBlock hasBadBlock (c_backend c)\<rparr>);
       Some (None, e\<lparr>e_core := c\<lparr>c_backend := (c_backend c)\<lparr>b_started := True\<rparr>\<rparr>\<rparr>) })"

definition engine_Stop :: "engine \<Rightarrow> err option \<times> engine" where
  "engine_Stop e =
    (if \<not> b_started (c_backend (e_core e)) then (Some ErrStoppedEngine, e)
     else let c = core_Stop (e_core e)
          in (None, e\<lparr>e_core := c\<lparr>c_backend := (c_backend c)\<lparr>b_started := False\<rparr>\<rparr>\<rparr>))"

section \<open>Queries and the RPC interface\<close>

definition backend_SealHash :: "crypto \<Rightarrow> Header \<Rightarrow> hash" where
  "backend_SealHash K hdr = HeaderHash K hdr"

definition CalcDifficulty :: "u64 \<Rightarrow> Header \<Rightarrow> int" where
  "CalcDifficulty time parentHeader = 0"

text \<open>\<open>GetProposer\<close> reads the chain, which \<open>Start\<close> sets; the lookup by number is a parameter.\<close>

definition GetProposer :: "crypto \<Rightarrow> world \<Rightarrow> (u64 \<Rightarrow> Header option) \<Rightarrow> u64 \<Rightarrow> backend \<Rightarrow> address \<times> backend" where
  "GetProposer K w getHeaderByNumber number b =
    (case getHeaderByNumber number of
       Some hdr \<Rightarrow> (case Author K w hdr b of (Inl _, b) \<Rightarrow> (EmptyAddress, b) | (Inr a, b) \<Rightarrow> (a, b))
     | None \<Rightarrow> (EmptyAddress, b))"

definition api_Proposals :: "engine \<Rightarrow> address \<rightharpoonup> bool" where
  "api_Proposals e = e_proposals e"

definition api_Propose :: "address \<Rightarrow> bool \<Rightarrow> engine \<Rightarrow> engine" where
  "api_Propose addr auth e = e\<lparr>e_proposals := (e_proposals e)(addr \<mapsto> auth)\<rparr>"

definition api_Discard :: "address \<Rightarrow> engine \<Rightarrow> engine" where
  "api_Discard addr e = e\<lparr>e_proposals := (e_proposals e)(addr := None)\<rparr>"

definition api_CurrentSequence :: "engine \<Rightarrow> (u64 \<times> u64) option" where
  "api_CurrentSequence e = CurrentSequence (e_core e)"

definition api_IsProposer :: "engine \<Rightarrow> bool" where
  "api_IsProposer e = core_IsProposer (e_core e)"

section \<open>What they do\<close>

text \<open>An engine that has started cannot be started again, and one that has stopped cannot be stopped again.\<close>

lemma engine_start_once:
  assumes "engine_Start K w cb bad e = Some (None, e')"
  shows "engine_Start K w' cb' bad' e' = Some (Some ErrStartedEngine, e')"
proof -
  obtain c where "e' = e\<lparr>e_core := c\<lparr>c_backend := (c_backend c)\<lparr>b_started := True\<rparr>\<rparr>\<rparr>"
    using assms by (auto simp: engine_Start_def Let_def bind_eq_Some_conv split: if_splits)
  then show ?thesis by (simp add: engine_Start_def)
qed

lemma engine_stop_once: "engine_Stop e = (None, e') \<Longrightarrow> engine_Stop e' = (Some ErrStoppedEngine, e')"
  by (auto simp: engine_Stop_def Let_def split: if_splits)

text \<open>A stopped engine does not change rounds, and takes no message of a peer.\<close>

lemma engine_stopped:
  assumes "engine_Stop e = (None, e')"
  shows "startNewRound K w round (e_core e') = Some (e_core e')"
    "HandleMsg_hotstuff K w addr payload (c_backend (e_core e')) = (Some ErrStoppedEngine, c_backend (e_core e'), [])"
proof -
  have "\<not> isRunning (e_core e')" "\<not> b_started (c_backend (e_core e'))"
    using assms by (auto simp: engine_Stop_def core_Stop_def Let_def split: if_splits)
  then show "startNewRound K w round (e_core e') = Some (e_core e')"
    "HandleMsg_hotstuff K w addr payload (c_backend (e_core e')) = (Some ErrStoppedEngine, c_backend (e_core e'), [])"
    by (simp_all add: startNewRound_def HandleMsg_hotstuff_def)
qed

text \<open>Starting a new engine on a chain of which only the genesis block is known begins a run of its core, in round 0
  of height 1.\<close>

lemma new_engine_starts:
  assumes "committee_ok vs" "keccak_size K" "chain_ok w" "no_view db"
    and "block_Number (w_currentBlock w) = 0" "w_dbPut w prepareQCKey = None"
  obtains e' rs b where "engine_Start K w True bad (engine_New addr cfg key db vs bls) = Some (None, e')"
    "core_run K b vs (e_core e')" "current (e_core e') = Some rs" "rs_View rs = \<lparr>Round = 0, Height = 1\<rparr>"
proof -
  let ?e = "engine_New addr cfg key db vs bls"
  define b where "b = start_backend True bad (c_backend (e_core ?e))"
  have e: "(e_core ?e)\<lparr>c_backend := b\<rparr> = core_New b db vs" "\<not> b_started (c_backend (e_core ?e))"
    by (simp_all add: engine_New_def core_New_def Let_def)
  have "fst (fst (LastProposal K w b)) \<noteq> None"
    using assms(5) by (simp add: LastProposal_def b_def start_backend_def)
  from start_succeeds [OF assms(1-4) this assms(6)] assms(5)
  obtain c rs where c: "core_Start K w (core_New b db vs) = Some c" "run_inv K b vs c" "current c = Some rs"
    "rs_View rs = \<lparr>Round = 0, Height = 1\<rparr>" by auto
  have "core_run K b vs c"
    using c assms(3,4) by (intro core_run.start) (auto simp: run_inv_def core_inv_def rs_inv_def)
  moreover have "backend_keeps (c_backend c) ((c_backend c)\<lparr>b_started := True\<rparr>)"
    by (simp add: backend_keeps_def)
  ultimately have "core_run K b vs (c\<lparr>c_backend := (c_backend c)\<lparr>b_started := True\<rparr>\<rparr>)"
    by (intro core_run.step [OF _ core_step.engine])
  moreover have "engine_Start K w True bad ?e =
      Some (None, ?e\<lparr>e_core := c\<lparr>c_backend := (c_backend c)\<lparr>b_started := True\<rparr>\<rparr>\<rparr>)"
    using e c(1) by (simp add: engine_Start_def Let_def b_def)
  ultimately show ?thesis using that c(3,4) by simp
qed

end
