(* ===== verification/Rlp_Raw.thy ===== *)
theory Rlp_Raw
  imports Rlp_Decode
begin

text \<open>
  Encoded values as byte slices: \<open>rlp/raw.go\<close> (splitting off the first value, counting values,
  appending an integer) and the list iterator of \<open>rlp/iterator.go\<close>. Sizes are 64-bit words, so
  that the subtraction and the addition the bounds checks rely on wrap as they do in the code, and
  slicing out of range is a panic, the outer \<open>None\<close>.
\<close>

section \<open>The operations\<close>

definition ListSize :: "u64 \<Rightarrow> u64" where
  "ListSize contentSize = of_nat (headsize (unat contentSize)) + contentSize"

text \<open>\<open>b[i:j]\<close>, which panics unless \<open>i \<le> j \<le> len(b)\<close>.\<close>

definition raw_slice :: "bytes \<Rightarrow> u64 \<Rightarrow> u64 \<Rightarrow> bytes option" where
  "raw_slice b i j =
    (if i \<le> j \<and> unat j \<le> length b then Some (take (unat j - unat i) (drop (unat i) b)) else None)"

text \<open>The eight cases of the size's length join its bytes in big-endian order; any other length
  leaves the size 0.\<close>

definition readSize :: "bytes \<Rightarrow> nat \<Rightarrow> rlp_err + u64" where
  "readSize b slen =
    (if slen > length b then Inl io_ErrUnexpectedEOF
     else let s = (if 1 \<le> slen \<and> slen \<le> 8 then of_nat (be_val (take slen b)) else 0)
          in if s < 56 \<or> hd b = 0 then Inl ErrCanonSize else Inr s)"

text \<open>The cases of \<open>readKind\<close> on the first byte, and the check against the length of the input.\<close>

definition readTag :: "byte \<Rightarrow> bytes \<Rightarrow> rlp_err + (Kind \<times> u64 \<times> u64)" where
  "readTag b bs =
    (let long = (\<lambda>k m. case readSize bs (unat (b - m)) of
                    Inl e \<Rightarrow> Inl e
                  | Inr s \<Rightarrow> Inr (k, of_nat (unat (b - m)) + 1, s))
     in if b < 0x80 then Inr (KByte, 0, 1)
        else if b < 0xB8 then
          if b - 0x80 = 1 \<and> length (b # bs) > 1 \<and> hd bs < 128 then Inl ErrCanonSize
          else Inr (KString, 1, of_nat (unat (b - 0x80)))
        else if b < 0xC0 then long KString 0xB7
        else if b < 0xF8 then Inr (KList, 1, of_nat (unat (b - 0xC0)))
        else long KList 0xF7)"

definition readKind_raw :: "bytes \<Rightarrow> rlp_err + (Kind \<times> u64 \<times> u64)" where
  "readKind_raw buf =
    (case buf of
       [] \<Rightarrow> Inl io_ErrUnexpectedEOF
     | b # bs \<Rightarrow>
         (case readTag b bs of
            Inl e \<Rightarrow> Inl e
          | Inr (k, tagsize, contentsize) \<Rightarrow>
              if contentsize > of_nat (length buf) - tagsize then Inl ErrValueTooLarge
              else Inr (k, tagsize, contentsize)))"

text \<open>With an error the remaining bytes are all of \<open>b\<close>.\<close>

definition Split :: "bytes \<Rightarrow> (rlp_err + (Kind \<times> bytes \<times> bytes)) option" where
  "Split b =
    (case readKind_raw b of
       Inl e \<Rightarrow> Some (Inl e)
     | Inr (k, ts, cs) \<Rightarrow> do {
         content \<leftarrow> raw_slice b ts (ts + cs);
         rest \<leftarrow> raw_slice b (ts + cs) (of_nat (length b));
         Some (Inr (k, content, rest)) })"

definition SplitString :: "bytes \<Rightarrow> (rlp_err + (bytes \<times> bytes)) option" where
  "SplitString b = do {
     r \<leftarrow> Split b;
     Some (case r of
             Inl e \<Rightarrow> Inl e
           | Inr (k, content, rest) \<Rightarrow> if k = KList then Inl ErrExpectedString else Inr (content, rest)) }"

definition SplitUint64 :: "bytes \<Rightarrow> (rlp_err + (u64 \<times> bytes)) option" where
  "SplitUint64 b = do {
     r \<leftarrow> SplitString b;
     Some (case r of
             Inl e \<Rightarrow> Inl e
           | Inr (content, rest) \<Rightarrow>
               if length content = 0 then Inr (0, rest)
               else if length content = 1 then
                 if hd content = 0 then Inl ErrCanonInt else Inr (of_nat (unat (hd content)), rest)
               else if length content > 8 then Inl errUintOverflow
               else case readSize content (length content) of
                      Inl _ \<Rightarrow> Inl ErrCanonInt
                    | Inr x \<Rightarrow> Inr (x, rest)) }"

definition SplitList :: "bytes \<Rightarrow> (rlp_err + (bytes \<times> bytes)) option" where
  "SplitList b = do {
     r \<leftarrow> Split b;
     Some (case r of
             Inl e \<Rightarrow> Inl e
           | Inr (k, content, rest) \<Rightarrow> if k \<noteq> KList then Inl ErrExpectedList else Inr (content, rest)) }"

text \<open>Every round of the loop of \<open>CountValues\<close> drops at least one byte, so the length of the input bounds
  the rounds; \<open>count_enough\<close> below shows that it is enough.\<close>

fun count_loop :: "nat \<Rightarrow> nat \<Rightarrow> bytes \<Rightarrow> (rlp_err + nat) option" where
  "count_loop fuel i [] = Some (Inr i)"
| "count_loop 0 i (b # bs) = None"
| "count_loop (Suc fuel) i (b # bs) =
     (case readKind_raw (b # bs) of
        Inl e \<Rightarrow> Some (Inl e)
      | Inr (_, tagsize, contentsize) \<Rightarrow> do {
          rest \<leftarrow> raw_slice (b # bs) (tagsize + contentsize) (of_nat (length (b # bs)));
          count_loop fuel (Suc i) rest })"

definition CountValues :: "bytes \<Rightarrow> (rlp_err + nat) option" where
  "CountValues b = count_loop (length b) 0 b"

definition AppendUint64 :: "bytes \<Rightarrow> u64 \<Rightarrow> bytes" where
  "AppendUint64 b i =
    (let byte = (\<lambda>n. ucast (drop_bit n i) :: byte) in
     if i = 0 then b @ [0x80]
     else if i < 128 then b @ [byte 0]
     else if i < 2 ^ 8 then b @ [0x81, byte 0]
     else if i < 2 ^ 16 then b @ [0x82, byte 8, byte 0]
     else if i < 2 ^ 24 then b @ [0x83, byte 16, byte 8, byte 0]
     else if i < 2 ^ 32 then b @ [0x84, byte 24, byte 16, byte 8, byte 0]
     else if i < 2 ^ 40 then b @ [0x85, byte 32, byte 24, byte 16, byte 8, byte 0]
     else if i < 2 ^ 48 then b @ [0x86, byte 40, byte 32, byte 24, byte 16, byte 8, byte 0]
     else if i < 2 ^ 56 then b @ [0x87, byte 48, byte 40, byte 32, byte 24, byte 16, byte 8, byte 0]
     else b @ [0x88, byte 56, byte 48, byte 40, byte 32, byte 24, byte 16, byte 8, byte 0])"

section \<open>The list iterator\<close>

record listIterator =
  it_data :: bytes
  it_next :: bytes
  it_err :: "rlp_err option"

definition NewListIterator :: "bytes \<Rightarrow> (rlp_err + listIterator) option" where
  "NewListIterator d =
    (case readKind_raw d of
       Inl e \<Rightarrow> Some (Inl e)
     | Inr (k, t, c) \<Rightarrow>
         if k \<noteq> KList then Some (Inl ErrExpectedList)
         else do {
           content \<leftarrow> raw_slice d t (t + c);
           Some (Inr \<lparr>it_data = content, it_next = [], it_err = None\<rparr>) })"

text \<open>With an error \<open>readKind\<close> returns the sizes 0, and \<open>Next\<close> goes on with them.\<close>

definition it_Next :: "listIterator \<Rightarrow> (bool \<times> listIterator) option" where
  "it_Next it =
    (if length (it_data it) = 0 then Some (False, it)
     else let (t, c, err) = (case readKind_raw (it_data it) of
                               Inl e \<Rightarrow> (0, 0, Some e) | Inr (_, t, c) \<Rightarrow> (t, c, None))
          in do {
            nxt \<leftarrow> raw_slice (it_data it) 0 (t + c);
            rest \<leftarrow> raw_slice (it_data it) (t + c) (of_nat (length (it_data it)));
            Some (True, it\<lparr>it_next := nxt, it_data := rest, it_err := err\<rparr>) })"

definition it_Value :: "listIterator \<Rightarrow> bytes" where "it_Value it = it_next it"
definition it_Err :: "listIterator \<Rightarrow> rlp_err option" where "it_Err it = it_err it"

section \<open>Bounds\<close>

lemma readSize_length: "readSize b slen = Inr s \<Longrightarrow> 1 \<le> slen \<and> slen \<le> length b \<and> slen \<le> 8"
  by (auto simp: readSize_def Let_def split: if_splits)

lemma readKind_raw_tag:
  assumes "readKind_raw b = Inr (k, ts, cs)"
  shows "unat ts \<le> length b" "unat ts \<le> 9" "cs \<le> of_nat (length b) - ts" "b \<noteq> []" "ts = 0 \<Longrightarrow> cs = 1"
proof -
  have long: "unat (ucast y + 1 :: u64) = Suc (unat y)" for y :: byte
    using unat_byte_lt [of y] by (simp add: unat_word_ariths unsigned_ucast_eq take_bit_eq_mod)
  then have pos: "ucast y + 1 \<noteq> (0 :: u64)" for y :: byte
    by (metis nat.distinct(1) unat_0)
  have one: "1 \<le> w \<longleftrightarrow> w \<noteq> 0" for w :: u64
    by (simp add: word_le_nat_alt Suc_le_eq unat_gt_0)
  obtain x xs where b: "b = x # xs"
    using assms by (cases b) (auto simp: readKind_raw_def)
  have "unat ts \<le> length b \<and> unat ts \<le> 9 \<and> cs \<le> of_nat (length b) - ts \<and> (ts = 0 \<longrightarrow> cs = 1)"
    using assms b
    by (auto simp: readKind_raw_def readTag_def Let_def not_less long pos one dest!: readSize_length split: if_splits sum.splits)
  with b show "unat ts \<le> length b" "unat ts \<le> 9" "cs \<le> of_nat (length b) - ts" "b \<noteq> []" "ts = 0 \<Longrightarrow> cs = 1"
    by auto
qed

lemma readKind_raw_bounds:
  assumes "readKind_raw b = Inr (k, ts, cs)" "length b < 2 ^ 63"
  shows "unat (ts + cs) = unat ts + unat cs" "unat ts + unat cs \<le> length b" "0 < unat ts + unat cs"
    "unat (of_nat (length b) :: u64) = length b"
proof -
  note t = readKind_raw_tag [OF assms(1)]
  show l: "unat (of_nat (length b) :: u64) = length b"
    using assms(2) by (simp add: unat_of_nat)
  have "unat (of_nat (length b) - ts :: u64) = length b - unat ts"
    using t(1) l by (simp add: unat_sub word_le_nat_alt)
  then show s: "unat ts + unat cs \<le> length b"
    using t(1,3) by (simp add: word_le_nat_alt)
  then show "unat (ts + cs) = unat ts + unat cs"
    using assms(2) by (simp add: unat_word_ariths)
  show "0 < unat ts + unat cs"
    using t(5) by (cases "ts = 0") (auto simp: unat_gt_0)
qed

lemma raw_slice_mid:
  assumes "unat j = unat i + length c" "length t = unat i" "b = t @ c @ r"
  shows "raw_slice b i j = Some c"
  using assms by (simp add: raw_slice_def word_le_nat_alt)

lemma readKind_raw_slices:
  assumes "readKind_raw b = Inr (k, ts, cs)" "length b < 2 ^ 63"
  obtains t c r where "b = t @ c @ r" "length t = unat ts" "length c = unat cs" "length t \<le> 9"
    "raw_slice b ts (ts + cs) = Some c" "raw_slice b (ts + cs) (of_nat (length b)) = Some r"
    "raw_slice b 0 (ts + cs) = Some (t @ c)" "length r < length b"
proof -
  note n = readKind_raw_bounds [OF assms]
  define t c r where "t = take (unat ts) b" and "c = take (unat cs) (drop (unat ts) b)"
    and "r = drop (unat ts + unat cs) b"
  have b: "b = t @ c @ r"
    by (simp add: t_def c_def r_def) (metis add.commute append_take_drop_id drop_drop)
  have l: "length t = unat ts" "length c = unat cs" using n(2) by (simp_all add: t_def c_def)
  have "length b = unat (ts + cs) + length r" using b l n(1) by (metis add.assoc length_append)
  then have "raw_slice b ts (ts + cs) = Some c" "raw_slice b (ts + cs) (of_nat (length b)) = Some r"
    "raw_slice b 0 (ts + cs) = Some (t @ c)" "length r < length b"
    using b l n raw_slice_mid [of "ts + cs" ts c t b r] raw_slice_mid [of "of_nat (length b)" "ts + cs" r "t @ c" b "[]"]
      raw_slice_mid [of "ts + cs" 0 "t @ c" "[]" b r] by simp_all
  with that b l readKind_raw_tag(2) [OF assms(1)] show ?thesis by metis
qed

lemma count_enough:
  assumes "length b < 2 ^ 63" "length b \<le> fuel"
  shows "count_loop fuel i b \<noteq> None"
  using assms
proof (induction fuel i b rule: count_loop.induct)
  case (3 fuel i x xs)
  show ?case
  proof (cases "readKind_raw (x # xs)")
    case (Inr r)
    then obtain k ts cs where r: "readKind_raw (x # xs) = Inr (k, ts, cs)" by (metis prod_cases3)
    obtain t c rest where s: "raw_slice (x # xs) (ts + cs) (of_nat (length (x # xs))) = Some rest"
        "length rest < length (x # xs)"
      by (rule readKind_raw_slices [OF r 3(2)])
    then have "count_loop fuel (Suc i) rest \<noteq> None"
      using 3(2,3) by (intro "3.IH" [OF r refl refl s(1)]) auto
    with r s show ?thesis by simp
  qed simp
qed simp_all

section \<open>Encoded values\<close>

text \<open>The kind and the content of an encoded value; \<open>plain\<close> leaves out bytes that a caller passes as an
  encoding of its own.\<close>

definition str_kind :: "bytes \<Rightarrow> Kind" where
  "str_kind b = (if length b = 1 \<and> hd b < 128 then KByte else KString)"

fun raw_parts :: "item \<Rightarrow> Kind \<times> bytes" where
  "raw_parts (Str b) = (str_kind b, b)"
| "raw_parts (UInt i) = (str_kind (be_min (unat i)), be_min (unat i))"
| "raw_parts (Big i) = (str_kind (be_min (nat i)), be_min (nat i))"
| "raw_parts (Lst xs) = (KList, encs xs)"
| "raw_parts (Raw b) = (str_kind b, b)"

fun plain :: "item \<Rightarrow> bool" where
  "plain (Raw b) \<longleftrightarrow> False"
| "plain _ \<longleftrightarrow> True"

lemma readSize_be_min:
  assumes "56 \<le> n" "n < 2 ^ 64"
  shows "readSize (be_min n @ rest) (length (be_min n)) = Inr (of_nat n)"
proof -
  have l: "length (be_min n) \<le> 8" using assms(2) by (intro length_be_min_le) simp
  have ne: "be_min n \<noteq> []" using assms(1) by (simp add: be_min_Nil_iff)
  then have "hd (be_min n @ rest) \<noteq> 0"
    using no_leading_zero_be_min [of n] by (cases "be_min n") (simp_all add: no_leading_zero_def)
  moreover have "\<not> (of_nat n :: u64) < 56"
    using assms by (simp add: word_less_nat_alt unat_of_nat)
  ultimately show ?thesis using l ne by (simp add: readSize_def Let_def Suc_le_eq)
qed

lemma readTag_short:
  assumes "n < 56" "n = 1 \<longrightarrow> bs \<noteq> [] \<and> \<not> hd bs < 128"
  shows "readTag (0x80 + of_nat n) bs = Inr (KString, 1, of_nat n)"
proof -
  have n: "unat (of_nat n :: byte) = n" using assms(1) by (simp add: unat_of_nat)
  then have "(of_nat n :: byte) = 1 \<longleftrightarrow> n = 1" by (auto simp: word_unat_eq_iff)
  then show ?thesis
    using assms unat_tag(1) [OF assms(1)] n by (auto simp: readTag_def Let_def word_less_nat_alt)
qed

lemma readTag_short_list:
  assumes "n < 56"
  shows "readTag (0xC0 + of_nat n) bs = Inr (KList, 1, of_nat n)"
  using assms unat_tag(2) [OF assms] by (simp add: readTag_def Let_def word_less_nat_alt unat_of_nat)

lemma readTag_long:
  assumes "56 \<le> n" "n < 2 ^ 64"
  shows "readTag (0xB7 + of_nat (length (be_min n))) (be_min n @ rest) = Inr (KString, of_nat (headsize n), of_nat n)"
    "readTag (0xF7 + of_nat (length (be_min n))) (be_min n @ rest) = Inr (KList, of_nat (headsize n), of_nat n)"
proof -
  have m: "length (be_min n) \<le> 8" using assms(2) by (intro length_be_min_le) simp
  have "be_min n \<noteq> []" using assms(1) by (simp add: be_min_Nil_iff)
  then have "1 \<le> length (be_min n)" by (simp add: Suc_le_eq)
  moreover have "unat (of_nat (length (be_min n)) :: byte) = length (be_min n)" using m by (simp add: unat_of_nat)
  moreover have "(of_nat (headsize n) :: u64) = of_nat (length (be_min n)) + 1"
    using assms(1) by (simp add: headsize_def intsize_be_min add.commute)
  ultimately show "readTag (0xB7 + of_nat (length (be_min n))) (be_min n @ rest) = Inr (KString, of_nat (headsize n), of_nat n)"
    "readTag (0xF7 + of_nat (length (be_min n))) (be_min n @ rest) = Inr (KList, of_nat (headsize n), of_nat n)"
    using unat_long_tag [OF m] m readSize_be_min [OF assms] assms(1)
    by (simp_all add: readTag_def Let_def word_less_nat_alt)
qed

lemma readKind_raw_fits:
  assumes "readTag x xs = Inr (k, of_nat h, of_nat n)" "length (x # xs) < 2 ^ 63" "h + n \<le> length (x # xs)"
  shows "readKind_raw (x # xs) = Inr (k, of_nat h, of_nat n)"
proof -
  have "\<not> (of_nat n :: u64) > of_nat N - of_nat h" if "N < 2 ^ 63" "h + n \<le> N" for N
    using that by (simp add: word_less_nat_alt unat_sub word_le_nat_alt unat_of_nat)
  from this [OF assms(2,3)] assms(1) show ?thesis by (simp add: readKind_raw_def)
qed

lemma readKind_raw_head:
  assumes "(t, l, k) = (0x80, 0xB7, KString) \<or> (t, l, k) = (0xC0, 0xF7, KList)"
    and "k = KString \<longrightarrow> \<not> (length c = 1 \<and> hd c < 128)"
    and "length (enc_head t l (length c) @ c @ rest) < 2 ^ 63"
  shows "readKind_raw (enc_head t l (length c) @ c @ rest) =
    Inr (k, of_nat (headsize (length c)), of_nat (length c))"
proof -
  let ?n = "length c"
  obtain x xs where b: "enc_head t l ?n @ c @ rest = x # xs" and tag: "readTag x xs = Inr (k, of_nat (headsize ?n), of_nat ?n)"
  proof (cases "?n < 56")
    case True
    have "length c = 1 \<longrightarrow> c @ rest \<noteq> [] \<and> \<not> hd (c @ rest) < 128" if "k = KString"
      using assms(2) that by (cases c) auto
    with that True assms(1) readTag_short [OF True] readTag_short_list [OF True] show ?thesis
      by (auto simp: enc_head_def headsize_def)
  next
    case False
    with that assms(1,3) readTag_long [of ?n "c @ rest"] show ?thesis by (auto simp: enc_head_def)
  qed
  have "headsize ?n + ?n \<le> length (enc_head t l ?n @ c @ rest)" by (simp add: length_enc_head)
  then show ?thesis using readKind_raw_fits [OF tag] assms(3) unfolding b by simp
qed

lemma readKind_raw_enc:
  assumes "plain x" "raw_parts x = (k, c)" "length (enc x @ rest) < 2 ^ 63"
  obtains t where "enc x = t @ c" "readKind_raw (enc x @ rest) = Inr (k, of_nat (length t), of_nat (length c))"
proof -
  note result = that
  have str: thesis if e: "enc x = enc_str c" "k = str_kind c"
  proof (cases rule: enc_Str_cases [of c])
    case (single y)
    have "readKind_raw (y # rest) = Inr (KByte, of_nat 0, of_nat 1)"
      using single e assms(3) by (intro readKind_raw_fits) (simp_all add: readTag_def)
    with result [of "[]"] e single show ?thesis by (simp add: str_kind_def)
  next
    case header
    with e assms(3) readKind_raw_head [of "0x80" "0xB7" KString c rest] result [of "enc_head 0x80 0xB7 (length c)"]
    show ?thesis by (auto simp: str_kind_def length_enc_head)
  qed
  show thesis
  proof (cases x)
    case (Lst xs)
    with assms readKind_raw_head [of "0xC0" "0xF7" KList c rest] result [of "enc_head 0xC0 0xF7 (length c)"]
    show ?thesis by (auto simp: length_enc_head)
  qed (use assms str in auto)
qed

lemma slices_of_enc:
  assumes "plain x" "raw_parts x = (k, c)" "length (enc x @ rest) < 2 ^ 63"
  obtains ts cs where "readKind_raw (enc x @ rest) = Inr (k, ts, cs)" "raw_slice (enc x @ rest) ts (ts + cs) = Some c"
    "raw_slice (enc x @ rest) (ts + cs) (of_nat (length (enc x @ rest))) = Some rest"
    "raw_slice (enc x @ rest) 0 (ts + cs) = Some (enc x)" "enc x \<noteq> []"
proof -
  obtain t where t: "enc x = t @ c" "readKind_raw (enc x @ rest) = Inr (k, of_nat (length t), of_nat (length c))"
    by (rule readKind_raw_enc [OF assms])
  have u: "unat (of_nat n :: u64) = n" if "n \<le> length (enc x @ rest)" for n
    using that assms(3) by (simp add: unat_of_nat)
  obtain t' c' r where s: "enc x @ rest = t' @ c' @ r" "length t' = unat (of_nat (length t) :: u64)"
    "length c' = unat (of_nat (length c) :: u64)"
    "raw_slice (enc x @ rest) (of_nat (length t)) (of_nat (length t) + of_nat (length c)) = Some c'"
    "raw_slice (enc x @ rest) (of_nat (length t) + of_nat (length c)) (of_nat (length (enc x @ rest))) = Some r"
    "raw_slice (enc x @ rest) 0 (of_nat (length t) + of_nat (length c)) = Some (t' @ c')"
    "length r < length (enc x @ rest)"
    by (rule readKind_raw_slices [OF t(2) assms(3)])
  have "length t' = length t" "length c' = length c" using s(2,3) t(1) u by simp_all
  then have eq: "t' = t" "c' = c" "r = rest" using s(1) t(1) by auto
  have "enc x \<noteq> []" using s(7) unfolding eq by auto
  then show ?thesis using that [OF t(2)] s(4-6) unfolding eq t(1) by simp
qed

section \<open>Integers\<close>

lemma byte_drop_bit: "(ucast (drop_bit k (i :: u64)) :: byte) = of_nat (unat i div 2 ^ k)"
proof -
  have "unat (drop_bit k i) = unat i div 2 ^ k" by (metis unat_drop_bit_eq drop_bit_eq_div)
  moreover have "(ucast w :: byte) = of_nat (unat w)" for w :: u64 by simp
  ultimately show ?thesis by metis
qed

lemma AppendUint64_putint:
  assumes "128 \<le> i"
  shows "AppendUint64 b i = b @ (0x80 + of_nat (length (putint (unat i)))) # putint (unat i)"
proof -
  have "i \<noteq> 0" "\<not> i < 128" using assms by auto
  moreover have "i < 2 ^ 8 \<longleftrightarrow> unat i < 2 ^ 8" "i < 2 ^ 16 \<longleftrightarrow> unat i < 2 ^ 16" "i < 2 ^ 24 \<longleftrightarrow> unat i < 2 ^ 24"
    "i < 2 ^ 32 \<longleftrightarrow> unat i < 2 ^ 32" "i < 2 ^ 40 \<longleftrightarrow> unat i < 2 ^ 40" "i < 2 ^ 48 \<longleftrightarrow> unat i < 2 ^ 48"
    "i < 2 ^ 56 \<longleftrightarrow> unat i < 2 ^ 56"
    by (simp_all add: word_less_nat_alt)
  ultimately show ?thesis
    unfolding AppendUint64_def putint_def byte_drop_bit Let_def by (simp split: if_split)
qed

lemma AppendUint64_enc: "AppendUint64 b i = b @ enc (UInt i)"
proof -
  consider "i = 0" | "i \<noteq> 0" "i < 128" | "128 \<le> i" by fastforce
  then show ?thesis
  proof cases
    case 1
    then show ?thesis by (simp add: AppendUint64_def enc_str_def enc_head_def)
  next
    case 2
    then have "0 < unat i" "unat i < 128" by (simp_all add: unat_gt_0 word_less_nat_alt)
    then have "be_min (unat i) = [of_nat (unat i)]" by (simp add: be_min_single)
    moreover have "unat (ucast i :: byte) = unat i"
      using \<open>unat i < 128\<close> by (simp add: unsigned_ucast_eq take_bit_eq_mod)
    ultimately show ?thesis using 2 \<open>unat i < 128\<close>
      by (simp add: AppendUint64_def enc_str_def Let_def word_le_nat_alt unat_of_nat)
  next
    case 3
    then have n: "128 \<le> unat i" "unat i < 2 ^ 64" using unsigned_less [of i] by (simp_all add: word_le_nat_alt)
    have p: "putint (unat i) = be_min (unat i)" using n by (intro putint_be_min) simp_all
    have "length (be_min (unat i)) \<le> 8" using n(2) by (intro length_be_min_le) simp
    moreover have "\<not> (length (be_min (unat i)) = 1 \<and> hd (be_min (unat i)) \<le> 0x7F)"
    proof
      assume a: "length (be_min (unat i)) = 1 \<and> hd (be_min (unat i)) \<le> 0x7F"
      then obtain c where c: "be_min (unat i) = [c]" by (auto simp: length_Suc_conv)
      then have "unat i = unat c" using be_val_be_min [of "unat i"] by simp
      with a c n(1) show False by (simp add: word_le_nat_alt)
    qed
    ultimately show ?thesis
      using AppendUint64_putint [OF 3, of b] by (simp add: p enc_str_def enc_head_def)
  qed
qed

section \<open>Properties\<close>

text \<open>C38. Splitting never slices out of range, on any input: it returns an error, or a content and a rest that
  follow a tag of at most nine bytes, and the rest is shorter than the input.\<close>

theorem split_in_bounds:
  assumes "length b < 2 ^ 63"
  shows "\<exists>r. Split b = Some r \<and> (\<forall>k content rest. r = Inr (k, content, rest) \<longrightarrow>
    length rest < length b \<and> (\<exists>tag. b = tag @ content @ rest \<and> length tag \<le> 9))"
proof (cases "readKind_raw b")
  case (Inr x)
  then obtain k ts cs where r: "readKind_raw b = Inr (k, ts, cs)" by (metis prod_cases3)
  obtain t c s where "b = t @ c @ s" "length t \<le> 9" "raw_slice b ts (ts + cs) = Some c"
      "raw_slice b (ts + cs) (of_nat (length b)) = Some s" "length s < length b"
    by (rule readKind_raw_slices [OF r assms])
  with r show ?thesis by (auto simp: Split_def)
qed (simp add: Split_def)

theorem split_in_bounds_witness:
  "\<exists>content rest. Split [0x82, 1, 2, 3] = Some (Inr (KString, content, rest)) \<and> length rest < 4"
proof -
  have "Split [0x82, 1, 2, 3] = Some (Inr (KString, [1, 2], [3]))" by code_simp
  with split_in_bounds [of "[0x82, 1, 2, 3]"] show ?thesis by auto
qed

lemma length_le_encs_plain:
  "list_all plain ys \<Longrightarrow> length (encs ys) < 2 ^ 63 \<Longrightarrow> length ys \<le> length (encs ys)"
proof (induction ys)
  case (Cons y ys)
  have y: "plain y" "raw_parts y = (fst (raw_parts y), snd (raw_parts y))" "length (enc y @ encs ys) < 2 ^ 63"
    using Cons.prems by simp_all
  have "enc y \<noteq> []" by (rule slices_of_enc [OF y])
  with Cons show ?case by (cases "enc y") auto
qed simp

lemma count_encs:
  assumes "list_all plain xs" "length (encs xs) < 2 ^ 63" "length xs \<le> fuel"
  shows "count_loop fuel i (encs xs) = Some (Inr (i + length xs))"
  using assms
proof (induction xs arbitrary: fuel i)
  case (Cons x xs)
  obtain k c where p: "raw_parts x = (k, c)" by fastforce
  have x: "plain x" "length (enc x @ encs xs) < 2 ^ 63" using Cons.prems by simp_all
  obtain ts cs where s: "readKind_raw (enc x @ encs xs) = Inr (k, ts, cs)"
      "raw_slice (enc x @ encs xs) (ts + cs) (of_nat (length (enc x @ encs xs))) = Some (encs xs)" "enc x \<noteq> []"
    by (rule slices_of_enc [OF x(1) p x(2)])
  obtain y ys where y: "enc x @ encs xs = y # ys" using s(3) by (cases "enc x") auto
  obtain f where f: "fuel = Suc f" using Cons.prems(3) by (cases fuel) auto
  have "count_loop f (Suc i) (encs xs) = Some (Inr (Suc i + length xs))"
    using Cons.prems f by (intro Cons.IH) auto
  with s(1,2) f show ?case unfolding y by (simp add: y)
qed (cases fuel, simp_all)

text \<open>C39. Counting returns for every input, and an encoded sequence of values is counted and taken apart again:
  \<open>CountValues\<close> gives the number of values, and \<open>Split\<close> gives the kind and the content of the first one and
  the encoding of the others.\<close>

theorem encoded_values_split:
  assumes "list_all plain (x # xs)" "length (encs (x # xs)) < 2 ^ 63"
  shows "CountValues (encs (x # xs)) = Some (Inr (length (x # xs))) \<and>
    Split (encs (x # xs)) = Some (Inr (fst (raw_parts x), snd (raw_parts x), encs xs)) \<and>
    (length b < 2 ^ 63 \<longrightarrow> CountValues b \<noteq> None)"
proof -
  have x: "plain x" "raw_parts x = (fst (raw_parts x), snd (raw_parts x))" "length (enc x @ encs xs) < 2 ^ 63"
    using assms by simp_all
  obtain ts cs where "readKind_raw (enc x @ encs xs) = Inr (fst (raw_parts x), ts, cs)"
      "raw_slice (enc x @ encs xs) ts (ts + cs) = Some (snd (raw_parts x))"
      "raw_slice (enc x @ encs xs) (ts + cs) (of_nat (length (enc x @ encs xs))) = Some (encs xs)"
    by (rule slices_of_enc [OF x])
  then have "Split (encs (x # xs)) = Some (Inr (fst (raw_parts x), snd (raw_parts x), encs xs))"
    by (simp add: Split_def)
  moreover have "CountValues (encs (x # xs)) = Some (Inr (length (x # xs)))"
    using count_encs [OF assms length_le_encs_plain [OF assms], of 0] by (simp add: CountValues_def del: encs.simps)
  ultimately show ?thesis using count_enough [of b "length b" 0] by (simp add: CountValues_def)
qed

theorem encoded_values_split_witness:
  "CountValues (encs [Str [1, 2], Lst [], UInt 5]) = Some (Inr 3) \<and>
   Split (encs [Str [1, 2], Lst [], UInt 5]) = Some (Inr (KString, [1, 2], encs [Lst [], UInt 5]))"
proof -
  have "length (encs [Str [1, 2], Lst [], UInt 5]) < 1000" by code_simp
  with encoded_values_split [of "Str [1, 2]" "[Lst [], UInt 5]" "[]"] show ?thesis
    by (simp add: str_kind_def del: encs.simps)
qed

text \<open>C40. \<open>Next\<close> does not move past a malformed value: it reports that there is one, with an empty value and an
  error, and leaves the data as it is, so it reports the same at every later call.\<close>

theorem iterator_stays_on_error:
  assumes "it_data it \<noteq> []" "readKind_raw (it_data it) = Inl e" "length (it_data it) < 2 ^ 63"
  shows "\<exists>it'. it_Next it = Some (True, it') \<and> it_Value it' = [] \<and> it_Err it' = Some e \<and>
    it_data it' = it_data it \<and> it_Next it' = Some (True, it')"
  using assms by (auto simp: it_Next_def raw_slice_def it_Value_def it_Err_def unat_of_nat)

theorem iterator_stays_on_error_witness:
  "\<exists>it'. it_Next \<lparr>it_data = [0x85, 1], it_next = [], it_err = None\<rparr> = Some (True, it') \<and>
     it_Next it' = Some (True, it')"
proof -
  have "readKind_raw [0x85, 1] = Inl ErrValueTooLarge" by code_simp
  with iterator_stays_on_error [of "\<lparr>it_data = [0x85, 1], it_next = [], it_err = None\<rparr>"] show ?thesis by auto
qed

text \<open>\<open>AppendUint64\<close> appends the encoding of the integer, and \<open>SplitUint64\<close> reads it back, whatever
  follows.\<close>

lemma uint_append_split:
  assumes "length rest < 2 ^ 62"
  shows "AppendUint64 b i = b @ enc (UInt i) \<and> SplitUint64 (AppendUint64 [] i @ rest) = Some (Inr (i, rest))"
proof -
  let ?c = "be_min (unat i)"
  have i: "unat i < 2 ^ 64" using unsigned_less [of i] by simp
  then have l: "length ?c \<le> 8" by (intro length_be_min_le) simp
  then have "length (enc (UInt i)) \<le> 9 + length ?c"
    by (simp add: enc_str_def enc_head_def)
  with l assms have x: "plain (UInt i)" "raw_parts (UInt i) = (str_kind ?c, ?c)" "length (enc (UInt i) @ rest) < 2 ^ 63"
    by simp_all
  obtain ts cs where "readKind_raw (enc (UInt i) @ rest) = Inr (str_kind ?c, ts, cs)"
      "raw_slice (enc (UInt i) @ rest) ts (ts + cs) = Some ?c"
      "raw_slice (enc (UInt i) @ rest) (ts + cs) (of_nat (length (enc (UInt i) @ rest))) = Some rest"
    by (rule slices_of_enc [OF x])
  then have "SplitString (enc (UInt i) @ rest) = Some (Inr (?c, rest))"
    by (simp add: SplitString_def Split_def str_kind_def del: enc.simps)
  moreover have "readSize ?c (length ?c) = Inr i" if "?c \<noteq> []" "length ?c \<noteq> 1"
  proof -
    have "1 < length ?c" using that by (cases ?c) auto
    then show ?thesis
      using readSize_be_min [of "unat i" "[]"] length_be_min_le [of "unat i" 1] i by fastforce
  qed
  moreover have "of_nat (unat (hd ?c)) = i \<and> hd ?c \<noteq> 0" if "length ?c = 1"
  proof -
    obtain c where c: "?c = [c]" using \<open>length ?c = 1\<close> by (auto simp: length_Suc_conv)
    then have "unat i = unat c" using be_val_be_min [of "unat i"] by simp
    moreover have "c \<noteq> 0" using no_leading_zero_be_min [of "unat i"] c by (simp add: no_leading_zero_def)
    moreover have "of_nat (unat i) = i" by simp
    ultimately show ?thesis using c by (metis list.sel(1))
  qed
  moreover have "i = 0" if "?c = []" using that by (simp add: be_min_Nil_iff unat_eq_zero)
  ultimately show ?thesis using l by (cases "?c = []"; cases "length ?c = 1") (simp_all add: SplitUint64_def AppendUint64_enc)
qed

end
