(* ===== verification/Rlp_Progress.thy ===== *)
theory Rlp_Progress
  imports Hotstuff_Types
begin

text \<open>
  The decoders return on every input. The decoder of a slice is bounded by the number of bytes left;
  here every element decoder is shown to consume a byte, so the bound is never reached, for any bytes a
  peer may send. The development is a small calculus: \<open>settles m\<close> for decoders run at any
  position, \<open>prog k m\<close> for decoders run at the start of a value, which consume at least \<open>k\<close> bytes.
\<close>

section \<open>The calculus\<close>

definition live :: "stream \<Rightarrow> bool" where
  "live s \<longleftrightarrow> limited s \<and> kinderr s \<noteq> Some errFuel"

text \<open>No outcome is \<open>errFuel\<close>, and the input never grows.\<close>

definition tame :: "stream \<Rightarrow> (rlp_err + 'a) \<times> stream \<Rightarrow> bool" where
  "tame s r \<longleftrightarrow> live (snd r) \<and> remaining (snd r) \<le> remaining s \<and> fst r \<noteq> Inl errFuel"

definition settles :: "'a sm \<Rightarrow> bool" where
  "settles m \<longleftrightarrow> (\<forall>s. live s \<longrightarrow> tame s (m s) \<and> (\<forall>v s'. m s = (Inr v, s') \<longrightarrow> skind s' = None))"

definition prog :: "nat \<Rightarrow> 'a sm \<Rightarrow> bool" where
  "prog k m \<longleftrightarrow> (\<forall>s. live s \<longrightarrow> skind s = None \<longrightarrow> tame s (m s) \<and>
     (\<forall>v s'. m s = (Inr v, s') \<longrightarrow> skind s' = None \<and> remaining s' + k \<le> remaining s))"

lemma settles_prog: "settles m \<Longrightarrow> prog 0 m"
  by (fastforce simp: settles_def prog_def tame_def)

lemma prog_weaken: "prog j m \<Longrightarrow> k \<le> j \<Longrightarrow> prog k m"
  by (fastforce simp: prog_def)

lemma prog_sret: "prog 0 (sret v)"
  by (simp add: prog_def sret_def tame_def)

lemma settles_sfail: "e \<noteq> errFuel \<Longrightarrow> settles (sfail e)"
  by (simp add: settles_def sfail_def tame_def)

lemma sbind_tame:
  assumes "tame s (m s)" "\<And>v s'. m s = (Inr v, s') \<Longrightarrow> tame s' (f v s')"
  shows "tame s (sbind m f s)"
  using assms by (fastforce simp: sbind_def tame_def split: prod.splits sum.splits)

lemma sbind_Inr: "sbind m f s = (Inr v, s') \<Longrightarrow> \<exists>a t. m s = (Inr a, t) \<and> f a t = (Inr v, s')"
  by (auto simp: sbind_def split: prod.splits sum.splits)

lemma prog_sbind:
  assumes "prog j m" "\<And>a. prog k (f a)" "i \<le> j + k"
  shows "prog i (sbind m f)"
  unfolding prog_def
proof (intro allI impI conjI)
  fix s assume s: "live s" "skind s = None"
  have m: "tame s (m s)" "\<And>a t. m s = (Inr a, t) \<Longrightarrow> live t \<and> skind t = None \<and> remaining t + j \<le> remaining s"
    using assms(1) s by (fastforce simp: prog_def tame_def)+
  show "tame s (sbind m f s)"
    using m assms(2) by (intro sbind_tame) (auto simp: prog_def)
  fix v s' assume "sbind m f s = (Inr v, s')"
  then obtain a t where t: "m s = (Inr a, t)" "f a t = (Inr v, s')" by (blast dest: sbind_Inr)
  with m(2) [OF t(1)] assms(2) [of a] have "skind s' = None" "remaining s' + k \<le> remaining t"
    by (auto simp: prog_def)
  with m(2) [OF t(1)] assms(3) show "skind s' = None" "remaining s' + i \<le> remaining s" by auto
qed

lemma settles_sbind:
  assumes "settles m" "\<And>a. prog 0 (f a)"
  shows "settles (sbind m f)"
  unfolding settles_def
proof (intro allI impI conjI)
  fix s assume s: "live s"
  have m: "tame s (m s)" "\<And>a t. m s = (Inr a, t) \<Longrightarrow> live t \<and> skind t = None"
    using assms(1) s by (fastforce simp: settles_def tame_def)+
  show "tame s (sbind m f s)" using m assms(2) by (intro sbind_tame) (auto simp: prog_def)
  fix v s' assume "sbind m f s = (Inr v, s')"
  then obtain a t where t: "m s = (Inr a, t)" "f a t = (Inr v, s')" by (blast dest: sbind_Inr)
  with m(2) [OF t(1)] assms(2) [of a] show "skind s' = None" by (auto simp: prog_def)
qed

lemma prog_smap_err:
  assumes "prog k m" "\<And>e. g e = errFuel \<Longrightarrow> e = errFuel"
  shows "prog k (smap_err g m)"
  using assms unfolding prog_def
  by (fastforce simp: smap_err_def tame_def split: prod.splits sum.splits)

lemma settles_smap_err:
  assumes "settles m" "\<And>e. g e = errFuel \<Longrightarrow> e = errFuel"
  shows "settles (smap_err g m)"
  using assms unfolding settles_def
  by (fastforce simp: smap_err_def tame_def split: prod.splits sum.splits)

lemma wrapStreamError_fuel: "wrapStreamError e = errFuel \<Longrightarrow> e = errFuel"
  by (cases e) (simp_all add: wrapStreamError_def)

lemma prog_struct_field: "prog k m \<Longrightarrow> prog k (struct_field m)"
  unfolding struct_field_def by (erule prog_smap_err) (auto split: if_splits)

section \<open>The stream\<close>

lemma willRead_tame:
  assumes "live s"
  shows "tame s (willRead n s)" "willRead n s = (Inr (), s') \<Longrightarrow> skind s' = None \<and> remaining s' + n = remaining s"
  using assms by (auto simp: willRead_def tame_def live_def Let_def split: list.splits if_splits)

lemma settles_willRead: "settles (willRead n)"
  using willRead_tame by (fastforce simp: settles_def)

lemma settles_readFull: "settles (readFull n)"
  unfolding readFull_def
  by (rule settles_sbind [OF settles_willRead]) (auto simp: prog_def tame_def live_def)

lemma settles_readByte: "settles readByte"
  unfolding readByte_def
  by (rule settles_sbind [OF settles_willRead]) (auto simp: prog_def tame_def live_def split: list.split)

lemma readByte_consumes:
  assumes "live s" "readByte s = (Inr b, s')"
  shows "remaining s' + 1 \<le> remaining s"
  using assms willRead_tame(2) [OF assms(1), of 1]
  by (fastforce simp: readByte_def dest!: sbind_Inr split: list.splits)

lemma settles_readUint: "settles (readUint n)"
proof -
  have "settles (\<lambda>s. (Inr (0 :: nat), s\<lparr>skind := None\<rparr>))"
    by (auto simp: settles_def tame_def live_def)
  moreover have "settles (sbind readByte (\<lambda>b. sret (unat b)))"
    by (rule settles_sbind [OF settles_readByte prog_sret])
  moreover have "settles (sbind (readFull n) (\<lambda>buf. if hd buf = 0 then sfail ErrCanonSize else sret (be_val buf)))"
    by (rule settles_sbind [OF settles_readFull]) (auto intro: settles_prog settles_sfail prog_sret)
  ultimately show ?thesis by (simp add: readUint_def)
qed

lemma settlesD:
  assumes "settles m" "live s" "m s = (r, s')"
  shows "live s'" "remaining s' \<le> remaining s" "r \<noteq> Inl errFuel" "r = Inr v \<Longrightarrow> skind s' = None"
  using assms by (fastforce simp: settles_def tame_def)+

lemma live_upd [simp]: "live (s\<lparr>byteval := b\<rparr>) = live s" "live (s\<lparr>skind := k\<rparr>) = live s"
  "live (s\<lparr>ssize := n\<rparr>) = live s" "live (s\<lparr>stack := st\<rparr>) = live s"
  by (simp_all add: live_def)

lemma readKind_tame:
  assumes "live s" "readKind s = ((k, n, e), s')"
  shows "live s' \<and> remaining s' \<le> remaining s \<and> e \<noteq> Some errFuel \<and> (e = None \<longrightarrow> remaining s' < remaining s)"
proof -
  obtain r t where t: "readByte s = (r, t)" by fastforce
  note b = settlesD [OF settles_readByte assms(1) t]
  show ?thesis
  proof (cases r)
    case (Inl err)
    with assms(2) t b show ?thesis by (auto simp: readKind_def split: if_splits)
  next
    case (Inr x)
    have less: "remaining t < remaining s" using readByte_consumes [OF assms(1)] t Inr by fastforce
    have "live t' \<and> remaining t' \<le> remaining t \<and> q \<noteq> Inl errFuel"
      if "readUint m (t\<lparr>byteval := 0\<rparr>) = (q, t')" for m q t'
      using settlesD [OF settles_readUint _ that] b(1) by simp
    with assms(2) t Inr b less show ?thesis
      by (fastforce simp: readKind_def Let_def split: if_splits prod.splits sum.splits)
  qed
qed

lemma stream_Kind_tame:
  assumes "live s"
  shows "tame s (stream_Kind s)" "skind s = None \<Longrightarrow> stream_Kind s = (Inr v, s') \<Longrightarrow> remaining s' < remaining s"
proof -
  have l: "live (s\<lparr>kinderr := None\<rparr>)" using assms by (simp add: live_def)
  obtain k n e t where t: "readKind (s\<lparr>kinderr := None\<rparr>) = ((k, n, e), t)" by (metis prod_cases3 prod.exhaust)
  note r = readKind_tame [OF l t]
  show "tame s (stream_Kind s)"
    using assms t r
    by (auto simp: stream_Kind_def tame_def live_def Let_def split: option.splits list.splits if_splits)
  show "remaining s' < remaining s" if "skind s = None" "stream_Kind s = (Inr v, s')"
    using that t r by (auto simp: stream_Kind_def Let_def split: option.splits list.splits if_splits)
qed

lemma settles_Kind:
  assumes "\<And>x. settles (f x)"
  shows "settles (sbind stream_Kind f)" "prog 1 (sbind stream_Kind f)"
proof -
  have f: "tame t (f a t)" "f a t = (Inr v, s') \<Longrightarrow> skind s' = None \<and> remaining s' \<le> remaining t" if "live t" for a t v s'
    using assms [of a] that by (fastforce simp: settles_def tame_def)+
  have k: "tame s (stream_Kind s)" "stream_Kind s = (Inr a, t) \<Longrightarrow> live t \<and> remaining t \<le> remaining s" if "live s" for s a t
    using stream_Kind_tame(1) [OF that] by (auto simp: tame_def)
  have t: "tame s (sbind stream_Kind f s)" if "live s" for s
    using k [OF that] f by (intro sbind_tame) auto
  show "settles (sbind stream_Kind f)"
    unfolding settles_def using t f k by (blast dest: sbind_Inr)
  show "prog 1 (sbind stream_Kind f)"
    unfolding prog_def
  proof (intro allI impI conjI)
    fix s assume s: "live s" "skind s = None"
    then show "tame s (sbind stream_Kind f s)" by (intro t)
    fix v s' assume "sbind stream_Kind f s = (Inr v, s')"
    then obtain a u where u: "stream_Kind s = (Inr a, u)" "f a u = (Inr v, s')" by (blast dest: sbind_Inr)
    with f k [OF s(1)] stream_Kind_tame(2) [OF s u(1)] show "skind s' = None" "remaining s' + 1 \<le> remaining s"
      by fastforce+
  qed
qed

section \<open>The decoders\<close>

lemma settles_rearm: "settles rearm"
  by (simp add: settles_def rearm_def tame_def)

lemma settles_byteval: "settles (sbind rearm (\<lambda>_ s. (Inr [byteval s], s)))"
  by (rule settles_sbind [OF settles_rearm]) (simp add: prog_def tame_def)

lemma settles_checked:
  assumes "settles m" "e \<noteq> errFuel"
  shows "settles (sbind m (\<lambda>a. if P a then sfail e else sret (g a)))"
  by (rule settles_sbind [OF assms(1)]) (simp add: prog_sret settles_prog settles_sfail assms(2))

lemma settles_then_sret: "settles m \<Longrightarrow> settles (sbind m (\<lambda>a. sret (g a)))"
  by (rule settles_sbind) (assumption, rule prog_sret)

lemmas settles_rules = settles_byteval settles_sfail settles_checked settles_then_sret settles_readFull

lemma Bytes_progress: "settles stream_Bytes" "prog 1 stream_Bytes"
proof -
  have "settles (case x of (k, sz) \<Rightarrow> case k of
       KByte \<Rightarrow> sbind rearm (\<lambda>_ s. (Inr [byteval s], s))
     | KString \<Rightarrow> sbind (readFull sz) (\<lambda>b. if sz = 1 \<and> hd b < 128 then sfail ErrCanonSize else sret b)
     | KList \<Rightarrow> sfail ErrExpectedString)" for x :: "Kind \<times> nat"
    by (cases x; cases "fst x") (simp_all add: settles_rules)
  then show "settles stream_Bytes" "prog 1 stream_Bytes"
    unfolding stream_Bytes_def by (rule settles_Kind)+
qed

lemma Raw_progress: "settles stream_Raw"
  unfolding stream_Raw_def
proof (rule settles_Kind(1))
  show "settles (case x of (k, sz) \<Rightarrow> case k of
       KByte \<Rightarrow> sbind rearm (\<lambda>_ s. (Inr [byteval s], s))
     | KString \<Rightarrow> sbind (readFull sz) (\<lambda>b. sret (puthead 0x80 0xB7 sz @ b))
     | KList \<Rightarrow> sbind (readFull sz) (\<lambda>b. sret (puthead 0xC0 0xF7 sz @ b)))" for x :: "Kind \<times> nat"
    by (cases x; cases "fst x") (simp_all add: settles_rules)
qed

lemma uint_progress: "settles (stream_uint bits)" "prog 1 (stream_uint bits)"
proof -
  have b: "settles (\<lambda>s. if byteval s = 0 then (Inl ErrCanonInt, s) else (Inr (unat (byteval s)), s\<lparr>skind := None\<rparr>))"
    by (auto simp: settles_def tame_def)
  have u: "settles (smap_err (\<lambda>e. if e = ErrCanonSize then ErrCanonInt else e) (readUint n))" for n
    by (rule settles_smap_err [OF settles_readUint]) (auto split: if_splits)
  have "settles (case x of (k, sz) \<Rightarrow> case k of
       KByte \<Rightarrow> (\<lambda>s. if byteval s = 0 then (Inl ErrCanonInt, s) else (Inr (unat (byteval s)), s\<lparr>skind := None\<rparr>))
     | KString \<Rightarrow> if sz > bits div 8 then sfail errUintOverflow
         else sbind (smap_err (\<lambda>e. if e = ErrCanonSize then ErrCanonInt else e) (readUint sz))
                (\<lambda>v. if sz > 0 \<and> v < 128 then sfail ErrCanonSize else sret v)
     | KList \<Rightarrow> sfail ErrExpectedString)" for x :: "Kind \<times> nat"
    using b by (cases x; cases "fst x") (simp_all add: settles_rules u)
  then show "settles (stream_uint bits)" "prog 1 (stream_uint bits)"
    unfolding stream_uint_def by (rule settles_Kind)+
qed

lemma List_progress: "prog 1 stream_List"
  unfolding stream_List_def
  by (rule settles_Kind) (auto simp: settles_def tame_def split: if_splits)

lemma ListEnd_progress: "settles stream_ListEnd"
  by (auto simp: settles_def stream_ListEnd_def tame_def split: list.split)

lemma prog_wrap: "prog k m \<Longrightarrow> prog k (smap_err wrapStreamError m)"
  by (erule prog_smap_err) (rule wrapStreamError_fuel)

lemma settles_wrap: "settles m \<Longrightarrow> settles (smap_err wrapStreamError m)"
  by (erule settles_smap_err) (rule wrapStreamError_fuel)

lemma prog_fld: "prog 1 m \<Longrightarrow> (\<And>a. prog 0 (f a)) \<Longrightarrow> prog 0 (fld m f)"
  by (rule prog_sbind [OF prog_struct_field]) auto

lemma prog_decodeStruct: "prog 0 flds \<Longrightarrow> prog 1 (decodeStruct flds)"
  unfolding decodeStruct_def
  by (rule prog_sbind [OF prog_wrap [OF List_progress]], rule prog_sbind, assumption,
      rule prog_sbind [OF settles_prog [OF settles_wrap [OF ListEnd_progress]] prog_sret]) auto

lemma prog_decodeUint64: "prog 1 decodeUint64"
  unfolding decodeUint64_def decodeUint_def
  by (rule prog_sbind [OF prog_wrap [OF uint_progress(2)] prog_sret]) simp

lemma prog_decodeBigInt: "prog 1 decodeBigInt"
  unfolding decodeBigInt_def
  by (rule prog_sbind [OF prog_wrap [OF Bytes_progress(2)]])
    (auto simp: wrapStreamError_def intro: settles_prog [OF settles_sfail] prog_sret)

lemma prog_decodeByteSlice: "prog 1 decodeByteSlice"
  unfolding decodeByteSlice_def by (rule prog_wrap [OF Bytes_progress(2)])

text \<open>An array of one byte is left out: for the byte 0 its decoder ignores the error of the integer it reads
  and stays where it is. The types of the engine have no such array.\<close>

lemma prog_decodeByteArray:
  assumes "n \<noteq> 1"
  shows "prog 1 (decodeByteArray n)"
proof -
  have "settles (case x of (k, sz) \<Rightarrow> case k of
       KByte \<Rightarrow>
         if n = 0 then sfail (decodeError InputStringTooLong)
         else if n > 1 then sfail (decodeError InputStringTooShort)
         else (\<lambda>s. case stream_uint 64 s of
                 (Inl e, s') \<Rightarrow> (Inr [0], s')
               | (Inr v, s') \<Rightarrow> (Inr [of_nat v], s'))
     | KString \<Rightarrow>
         if n < sz then sfail (decodeError InputStringTooLong)
         else if n > sz then sfail (decodeError InputStringTooShort)
         else sbind (readFull n) (\<lambda>b.
           if sz = 1 \<and> hd b < 128 then sfail (wrapStreamError ErrCanonSize) else sret b)
     | KList \<Rightarrow> sfail (wrapStreamError ErrExpectedString))" for x :: "Kind \<times> nat"
    using assms by (cases x; cases "fst x") (simp_all add: settles_rules wrapStreamError_def)
  then show ?thesis unfolding decodeByteArray_def by (rule settles_Kind)
qed

lemma prog_decodeTx: "prog 1 (decodeTx K)"
  unfolding decodeTx_def
proof (rule settles_Kind(2))
  have "settles (sbind stream_Raw (\<lambda>raw. if tx_decodable K raw then sret raw else sfail ErrTransaction))"
    by (rule settles_sbind [OF Raw_progress]) (simp add: prog_sret settles_prog settles_sfail)
  then show "settles (case x of (kind, _) \<Rightarrow>
     if kind = KByte then sfail ErrExpectedList
     else sbind stream_Raw (\<lambda>raw. if tx_decodable K raw then sret raw else sfail ErrTransaction))" for x :: "Kind \<times> nat"
    by (cases x) (simp add: settles_sfail)
qed

section \<open>Slices\<close>

lemma decodeSliceElems_tame:
  assumes "prog 1 m" "live s" "skind s = None" "remaining s < fuel"
  shows "tame s (decodeSliceElems fuel m s)"
  using assms(2-4)
proof (induction fuel arbitrary: s)
  case (Suc fuel)
  have m: "tame s (m s)" "\<And>v t. m s = (Inr v, t) \<Longrightarrow> skind t = None \<and> live t \<and> remaining t < remaining s"
    using assms(1) Suc.prems by (fastforce simp: prog_def tame_def)+
  show ?case
  proof (cases "m s")
    case (Pair r t)
    show ?thesis
    proof (cases r)
      case (Inl e)
      with Pair m(1) show ?thesis by (auto simp: tame_def)
    next
      case (Inr v)
      with Pair m(2) [of v t] Suc.prems(3) have t: "live t" "skind t = None" "remaining t < fuel" "remaining t < remaining s"
        by auto
      from Suc.IH [OF t(1-3)] Pair Inr t(4) show ?thesis
        by (auto simp: tame_def sbind_def sret_def split: prod.splits sum.splits)
    qed
  qed
qed simp

lemma prog_decodeListSlice:
  assumes "prog 1 m"
  shows "prog 1 (decodeListSlice m)"
  unfolding decodeListSlice_def
proof (rule prog_sbind [OF prog_wrap [OF List_progress]])
  let ?elems = "\<lambda>s. decodeSliceElems (Suc (remaining s)) m s"
  have e: "settles (sbind stream_ListEnd (\<lambda>_. sret v))" for v :: "'a list"
    by (rule settles_then_sret [OF ListEnd_progress])
  have "prog 0 (sbind ?elems (\<lambda>vs. sbind stream_ListEnd (\<lambda>_. sret vs)))"
    unfolding prog_def
  proof (intro allI impI conjI)
    fix s assume s: "live s" "skind s = None"
    have t: "tame s (?elems s)" using decodeSliceElems_tame [OF assms s] by (simp del: decodeSliceElems.simps)
    show "tame s (sbind ?elems (\<lambda>vs. sbind stream_ListEnd (\<lambda>_. sret vs)) s)"
    proof (rule sbind_tame)
      show "tame s (?elems s)" by (rule t)
      fix vs u assume "?elems s = (Inr vs, u)"
      with t have "live u" by (simp add: tame_def del: decodeSliceElems.simps)
      with e [of vs] show "tame u (sbind stream_ListEnd (\<lambda>_. sret vs) u)" by (simp add: settles_def)
    qed
    fix v s' assume "sbind ?elems (\<lambda>vs. sbind stream_ListEnd (\<lambda>_. sret vs)) s = (Inr v, s')"
    then obtain vs u where u: "?elems s = (Inr vs, u)" "sbind stream_ListEnd (\<lambda>_. sret vs) u = (Inr v, s')"
      by (blast dest: sbind_Inr)
    have "live u" "remaining u \<le> remaining s" using t u(1) by (simp_all add: tame_def del: decodeSliceElems.simps)
    with settlesD [OF e _ u(2)] show "skind s' = None" "remaining s' + 0 \<le> remaining s" by auto
  qed
  then show "prog 0 (if sz = 0 then sbind stream_ListEnd (\<lambda>_. sret []) else
      sbind ?elems (\<lambda>vs. sbind stream_ListEnd (\<lambda>_. sret vs)))" for sz :: nat
    using settles_prog [OF e] by simp
qed simp

section \<open>The types of the engine\<close>

lemmas prog_rules = prog_decodeStruct prog_fld prog_decodeUint64 prog_decodeBigInt prog_decodeByteSlice
  prog_decodeByteArray prog_decodeTx prog_decodeListSlice prog_sret

lemma prog_headers: "prog 1 decodeHeader" "prog 1 decodeExtra" "prog 1 decodeIstanbulExtra"
  unfolding decodeHeader_def decodeExtra_def decodeIstanbulExtra_def by (rule prog_rules | simp)+

lemma prog_block: "prog 1 (decodeBlock K)"
proof -
  have "decodeBlock K = decodeStruct (fld decodeHeader (\<lambda>h. fld (decodeListSlice (decodeTx K)) (\<lambda>txs.
       fld (decodeListSlice decodeHeader) (\<lambda>us. sret \<lparr>header = h, uncles = us, transactions = txs\<rparr>))))"
    using decodeStruct_after_Kind by (fastforce simp: decodeBlock_def case_prod_unfold Let_def)
  then show ?thesis by (simp only:) (rule prog_rules prog_headers)+
qed

lemma prog_messages: "prog 1 decodeView" "prog 1 decodeQC" "prog 1 decodeVote" "prog 1 decodeMessage"
  "prog 1 (decodePB K)" "prog 1 decodeDiploma" "prog 1 (decodePackagedQC K)"
proof -
  show v: "prog 1 decodeView" unfolding decodeView_def by (rule prog_rules | simp)+
  show q: "prog 1 decodeQC" unfolding decodeQC_def by (rule prog_rules v | simp)+
  show "prog 1 decodeVote" unfolding decodeVote_def by (rule prog_rules v | simp)+
  show "prog 1 decodeMessage" unfolding decodeMessage_def by (rule prog_rules v | simp)+
  show b: "prog 1 (decodePB K)" unfolding decodePB_def by (rule prog_rules prog_block | simp)+
  show "prog 1 decodeDiploma" unfolding decodeDiploma_def by (rule prog_rules q | simp)+
  show "prog 1 (decodePackagedQC K)" unfolding decodePackagedQC_def by (rule prog_rules q b | simp)+
qed

lemma DecodeBytes_returns: "prog k m \<Longrightarrow> DecodeBytes m b \<noteq> Inl errFuel"
proof -
  assume "prog k m"
  then have "tame (stream_Reset b) (m (stream_Reset b))"
    by (simp add: prog_def stream_Reset_def live_def)
  then show ?thesis by (auto simp: DecodeBytes_def tame_def split: prod.splits sum.splits if_splits)
qed

section \<open>Properties\<close>

text \<open>C22. Decoding returns: whatever bytes come in, the loops over the elements of a list end before the bound on
  their rounds, for headers, blocks, extra-data, proposals, certificates, votes, diplomas and messages.\<close>

theorem decoding_returns:
  "DecodeBytes decodeHeader b \<noteq> Inl errFuel \<and> DecodeBytes (decodeBlock K) b \<noteq> Inl errFuel \<and>
   DecodeBytes decodeExtra b \<noteq> Inl errFuel \<and> DecodeBytes decodeIstanbulExtra b \<noteq> Inl errFuel \<and>
   DecodeBytes (decodePackagedQC K) b \<noteq> Inl errFuel \<and> DecodeBytes decodeQC b \<noteq> Inl errFuel \<and>
   DecodeBytes decodeVote b \<noteq> Inl errFuel \<and> DecodeBytes decodeDiploma b \<noteq> Inl errFuel \<and>
   DecodeBytes decodeMessage b \<noteq> Inl errFuel"
  by (intro conjI DecodeBytes_returns [of 1]) (rule prog_headers prog_block prog_messages)+

text \<open>C23. What a decoder accepts is well-formed: hashes, addresses, blooms and nonces have their lengths, heights,
  rounds, numbers and difficulties are not negative, and the value can be encoded again.\<close>

theorem decoded_values_well_formed:
  "(DecodeBytes decodeMessage b = Inr m \<longrightarrow> wf_message m \<and> (\<exists>d. Payload m = Inr d)) \<and>
   (DecodeBytes decodeQC b = Inr qc \<longrightarrow> wf_qc qc \<and> (\<exists>d. hs_Encode (qc_item qc) = Inr d)) \<and>
   (DecodeBytes decodeVote b = Inr v \<longrightarrow> wf_vote v \<and> (\<exists>d. hs_Encode (vote_item v) = Inr d)) \<and>
   (DecodeBytes decodeDiploma b = Inr dp \<longrightarrow> wf_diploma dp \<and> (\<exists>d. hs_Encode (diploma_item dp) = Inr d)) \<and>
   (DecodeBytes decodeHeader b = Inr h \<longrightarrow> wf_header h \<and> (\<exists>d. hs_Encode (header_item h) = Inr d))"
proof -
  have e: "encodable x \<Longrightarrow> \<exists>d. hs_Encode x = Inr d" for x
    using EncodeToBytes_None_iff [of x] by (auto simp: hs_Encode_def split: option.split)
  note y = DecodeBytes_yields [OF _ yields_message] DecodeBytes_yields [OF _ yields_qc]
    DecodeBytes_yields [OF _ yields_vote] DecodeBytes_yields [OF _ yields_diploma] DecodeBytes_yields [OF _ yields_header]
  show ?thesis
    by (auto simp: Payload_def dest!: y intro!: e
        intro: message.item_encodable qc.item_encodable vote.item_encodable diploma.item_encodable header.item_encodable)
qed

theorem decoded_values_well_formed_witness:
  "\<exists>v. DecodeBytes decodeVote [0xE6, 1, 0xC2, 0x80, 1, 0xA0, 1, 2, 3, 4, 5, 6, 7, 8, 9, 10, 11, 12, 13, 14, 15, 16, 17, 18,
       19, 20, 21, 22, 23, 24, 25, 26, 27, 28, 29, 30, 31, 32, 0x80] = Inr v \<and> wf_vote v"
proof -
  let ?b = "[0xE6, 1, 0xC2, 0x80, 1, 0xA0, 1, 2, 3, 4, 5, 6, 7, 8, 9, 10, 11, 12, 13, 14, 15, 16, 17, 18,
       19, 20, 21, 22, 23, 24, 25, 26, 27, 28, 29, 30, 31, 32, 0x80] :: bytes"
  have "case DecodeBytes decodeVote ?b of Inl e \<Rightarrow> False | Inr v \<Rightarrow> True" by code_simp
  then obtain v where v: "DecodeBytes decodeVote ?b = Inr v" by (auto split: sum.splits)
  with decoded_values_well_formed [of ?b _ _ v] show ?thesis by blast
qed

end
