(* ===== verification/Spec2Isabelle.thy ===== *)
theory Spec2Isabelle
  imports Example_Facts Sstack Core_Services Core_Liveness Core_Zero_Height Engine Rlp_Raw Rlp_Progress
begin

text \<open>
  A model of the Basic HotStuff consensus engine of GoQuorum (\<open>src/consensus/hotstuff\<close>) and of the
  parts of the client it is built on, with the theorems that make it correct.

  \<^bold>\<open>The program.\<close> A validator runs a \<open>Core\<close> (\<open>core/\<close>) that moves through views (height, round). In a
  view the proposer collects new-view messages, proposes a block extending the highest certified
  node, and drives it through prepare, pre-commit and commit votes to a decision; each phase ends in a
  quorum certificate, an aggregated threshold signature over the votes. A replica locks on the block of
  a pre-commit certificate and commits the block of a commit certificate. The engine (\<open>backend/\<close>) sends
  and receives messages, verifies proposals and headers and hands blocks to the chain; the signer
  (\<open>signer/\<close>) signs and checks; the validator set (\<open>validator/\<close>) gives the proposer and the quorum sizes.
  Everything that is signed, hashed or sent is RLP-encoded (\<open>src/rlp\<close>, \<open>src/core/types\<close>).

  \<^bold>\<open>The theories\<close>, bottom up, with what they model:

  \<^item> \<open>HS_Prelude\<close>: bytes, hashes, addresses, big integers (\<open>int\<close>) and their conversions to 64-bit words,
    big-endian numbers.
  \<^item> \<open>Rlp_Encode\<close>, \<open>Rlp_Decode\<close>: \<open>rlp/encode.go\<close> (the buffer with its deferred list headers) and
    \<open>rlp/decode.go\<close> (the stream with its stack of list limits); the recursive encoding rule \<open>enc\<close> and the
    locale \<open>rlp_codec\<close> of types that are read back as they were written.
  \<^item> \<open>Rlp_Raw\<close>: encoded values as byte slices, \<open>rlp/raw.go\<close> and \<open>rlp/iterator.go\<close>, with sizes as 64-bit words
    and slicing out of range as a panic.
  \<^item> \<open>Rlp_Progress\<close>: the decoders of all types of the engine end on every input, and what they accept is
    well-formed.
  \<^item> \<open>Hotstuff_Error\<close>: \<open>error.go\<close>, and the record \<open>crypto\<close> of library functions (parameters).
  \<^item> \<open>Core_Types\<close>: headers, blocks, extra-data and header hashes of \<open>core/types\<close>.
  \<^item> \<open>Hotstuff_Types\<close>: \<open>types.go\<close>, the protocol's data with its codecs and the authentication of payloads.
  \<^item> \<open>Validator_Set\<close>: \<open>validator/default.go\<close>, \<open>validators.go\<close>; the locale \<open>quorum_system\<close>.
  \<^item> \<open>Signer\<close>: \<open>signer/signer.go\<close>, and the record \<open>world\<close> of what an operation reads from outside.
  \<^item> \<open>Backend\<close>: \<open>backend/*.go\<close>. Everything that leaves the engine is an \<open>effect\<close>: a message to a peer, an
    event posted to the core, a signature made, a block handed to the chain, a timer.
  \<^item> \<open>Prque\<close>, \<open>Sstack\<close>: \<open>common/prque\<close>, with the locales \<open>priority_queue\<close> and \<open>heap_interface\<close>.
  \<^item> \<open>Message_Set\<close>, \<open>Round_State\<close>: \<open>core/message_set.go\<close> (locale \<open>message_store\<close>) and
    \<open>core/round_state.go\<close> with its database snapshot.
  \<^item> \<open>Core_State\<close>, \<open>Core_Handlers\<close>: the other files of \<open>core/\<close>: the record \<open>Core\<close>, one definition per
    operation and handler. A handler takes the core and returns \<open>None\<close> where Go panics, and otherwise the
    error it returns with the new core; the core's \<open>outbox\<close> collects its effects.
  \<^item> \<open>Core_Services\<close>: what the operations shared by the handlers do: the order of views, the backlog and the
    pending requests (locale \<open>queue_scan\<close>), the round timer, signed messages, the highest certificate and the
    certificates a leader assembles.
  \<^item> \<open>Replica\<close>: the abstract specification of a replica, a step relation over view, node, lock, signed
    votes and sent messages.
  \<^item> \<open>Core_Frame\<close>, \<open>Core_Invariant\<close>, \<open>Core_Refinement\<close>, \<open>Core_Rounds\<close>, \<open>Core_Commit\<close>: the predicate
    \<open>returns\<close> (does not panic, and the result satisfies a condition), the invariant \<open>core_inv\<close>, the
    abstraction \<open>core_abs\<close>, and for every handler a lemma that it returns, keeps the invariant, is a
    sequence of replica steps and hands blocks to the chain only as decided.
  \<^item> \<open>Core_Run\<close>: runs of a node, from \<open>core_Start\<close> through posted events, timeouts, peer messages and calls
    of the miner and the chain, in any order. The start has set a prepare certificate, so a node whose first
    \<open>SetPrepareQC\<close> failed has no run; a restart is not a step of a run but begins another one, with the
    database and without the effects of the first.
  \<^item> \<open>Core_Liveness\<close>: the round change on a timeout.
  \<^item> \<open>Core_Zero_Height\<close>: the exception for certificates of height 0, and a locked node that commits on one.
  \<^item> \<open>Engine\<close>: the constructors of \<open>backend/backend.go\<close> and \<open>signer/signer.go\<close>, \<open>Start\<close> and \<open>Stop\<close> of
    \<open>backend/engine.go\<close>, and \<open>backend/api.go\<close>. Starting a new engine on the genesis block begins a run of its
    core; a stopped engine changes no round and takes no message.
  \<^item> \<open>Agreement\<close>: a network of nodes with faulty validators.
  \<^item> \<open>Example_Run\<close>, \<open>Example_Facts\<close>: a run of one validator from the genesis block to the commit of the
    next block, evaluated step by step, and the proof that it meets the hypotheses of the theorems.

  \<^bold>\<open>What is shown.\<close> Below and at the end of the component theories, as C1, C2, and so on: agreement and
  what it rests on (quorum intersection, one commit vote per height, refinement of the replica,
  validity of decisions); absence of panics; the invariant of runs; liveness of the start, of the round
  change and of proposer rotation; acceptance of the leader's certificates and of signed messages; round
  trips and injectivity of encodings; the encoder against its rule; termination of the decoders and bounds
  of slices; the behaviour of queues, vote sets, checks, the timer and the snapshot; and places where the code falls short of what
  it means to do, each with the theorem that shows it.

  \<^bold>\<open>Parameters and hypotheses.\<close> \<open>crypto\<close> stands for Keccak-256, secp256k1, threshold BLS, the transaction
  trie root and the transaction decoder; \<open>keccak_size\<close> (a hash has 32 bytes), \<open>bls_sound\<close> (threshold
  signatures are unforgeable) and \<open>node_binding\<close> (no collision of node hashes) are what the theorems use
  of them. The threshold in \<open>bls_sound\<close> is \<open>Q\<close>, as \<open>eth/ethconfig/config.go\<close> sets it; the keys that
  \<open>mock/blsgen.go\<close> makes for tests have threshold \<open>f + 1\<close> and do not satisfy it. It counts the signatures of
  the nodes' present runs, not those made before a restart. \<open>world\<close> stands for the clock, the chain, peers, execution, database errors, map iteration order
  and cache evictions; \<open>world_ok\<close> is the contract of map iteration and of the caches. \<open>chain_ok\<close> bounds
  the number of the head by \<open>2 ^ 63 - 1\<close>; a payload is shorter than \<open>2 ^ 63\<close> bytes, as any Go slice is.

  \<^bold>\<open>Bounds and fuel.\<close> Loops are recursive functions with a termination proof. Two loops have fuel: the slice
  decoder, with one more than the bytes left, which suffices for every type of the engine
  (\<open>Rlp_Progress\<close>), and \<open>CountValues\<close>, with the length of the input, which suffices for slices shorter than
  \<open>2 ^ 63\<close> (\<open>Rlp_Raw\<close>).

  \<^bold>\<open>Not modelled.\<close> Logging and metrics; goroutines, locks and channels (an event is handled as one step,
  as the core's single event loop does, and posts are effects that are delivered in any order, any
  number of times), and so the commit channel and the event subscriptions; assembling a block from the state
  trie; transactions beyond their encodings; reading RLP from an \<open>io.Reader\<close> and the reflection that
  derives codecs; the lazy queue of \<open>common/prque\<close>, which the engine does not use; the packages \<open>faulty\<close> and \<open>mock\<close>, which serve experiments and
  tests; the other engines, the chain, the virtual machine, the network and the tools of the client.
\<close>

section \<open>Agreement\<close>

text \<open>C1. Agreement. At most \<open>F\<close> validators are faulty, every other validator is a node with the
  invariant of a run (C3), and aggregated signatures are unforgeable. Then two blocks with the same
  number that nodes hand to their chains, on authenticated commit certificates, have the same hash.\<close>

theorem committed_blocks_agree:
  assumes "network_ok K vs Byz bk net" "bls_sound K pub vs Byz net" "node_binding K"
    and "decides K pub vs c ex" "decides K pub vs c' ex'"
    and "eb_Block ex = Some b" "eb_Block ex' = Some b'" "NumberU64 b = NumberU64 b'"
  shows "block_Hash K b = block_Hash K b'"
  by (rule decisions_agree [OF assms])

theorem committed_blocks_agree_witness:
  "\<exists>ex b. decides run_crypto [] example_committee decide_state ex \<and> eb_Block ex = Some b \<and> block_Number b = 1 \<and>
     (\<forall>ex' b'. decides run_crypto [] example_committee decide_state ex' \<longrightarrow> eb_Block ex' = Some b' \<longrightarrow>
        NumberU64 b' = NumberU64 b \<longrightarrow> block_Hash run_crypto b' = block_Hash run_crypto b)"
proof -
  obtain ex b where e: "decides run_crypto [] example_committee decide_state ex" "eb_Block ex = Some b"
    "block_Number b = 1" by (rule run_decides)
  with committed_blocks_agree [OF run_network run_bls_sound run_node_binding _ e(1)] show ?thesis by blast
qed

text \<open>C2. Two authenticated commit certificates of one height are for the same block, whatever their
  rounds are.\<close>

theorem commit_certificates_agree:
  assumes "network_ok K vs Byz bk net" "bls_sound K pub vs Byz net"
    and "commit_certificate K pub qc" "commit_certificate K pub qc'" "Height (qView qc) = Height (qView qc')"
  shows "\<exists>p p' b. qProposedBlock qc = node_hash K p (block_Hash K b) \<and>
    qProposedBlock qc' = node_hash K p' (block_Hash K b)"
  using certificates_meet [OF assms] by blast

theorem commit_certificates_agree_witness:
  "\<exists>qc p b. commit_certificate run_crypto [] qc \<and> qProposedBlock qc = node_hash run_crypto p (block_Hash run_crypto b)"
proof -
  obtain ex where "decides run_crypto [] example_committee decide_state ex" by (rule run_decides)
  then obtain qc where qc: "commit_certificate run_crypto [] qc" by (rule decides_certificate)
  from commit_certificates_agree [OF run_network run_bls_sound qc qc refl] qc show ?thesis by blast
qed

section \<open>Runs\<close>

text \<open>C3. Every state of a run has the invariant of the core (validator set, view, node, lock, executed
  block, vote sets, backlog) and the invariant of the replica it stands for.\<close>

theorem run_states_have_invariant:
  assumes "core_run K b vs c" "committee_ok vs" "keccak_size K"
  shows "core_inv K c \<and> replica_inv K (core_abs K c)"
  using core_run_inv [OF assms] by (simp add: run_inv_def)

theorem run_states_have_invariant_witness:
  "core_inv run_crypto decide_state \<and> replica_inv run_crypto (core_abs run_crypto decide_state)"
  by (rule run_states_have_invariant [OF decide_state(1) run_committee_ok run_keccak_size])

text \<open>C4. No panic: in every state of a run, handling any event that was posted, or a timeout, returns a
  new state. A run begins with a start that has set a prepare certificate; a node whose first \<open>SetPrepareQC\<close>
  failed, and the VRF policy, are not covered.\<close>

theorem events_never_panic:
  assumes "core_run K b vs c" "committee_ok vs" "keccak_size K"
    and "world_ok w" "chain_ok w" "deliverable c ev"
  shows "\<exists>c'. handleEvent K w ev c = Some c'"
proof -
  have "core_inv K c" "replica_inv K (core_abs K c)" using core_run_inv [OF assms(1-3)] by (simp_all add: run_inv_def)
  from returnsD [OF handleEvent_returns [OF this assms(4-6)]] show ?thesis by blast
qed

theorem events_never_panic_witness:
  "\<exists>ev c'. deliverable decide_state ev \<and> handleEvent run_crypto example_world ev decide_state = Some c'"
proof -
  obtain ev where "last_posted (rev (outbox decide_state)) = Some ev"
    using decide_state(2) by (auto simp: run_check_def decide_of_def split: option.splits)
  then have d: "deliverable decide_state ev" by (rule last_posted_deliverable)
  from events_never_panic [OF decide_state(1) run_committee_ok run_keccak_size run_world_ok d] d
  show ?thesis by blast
qed

text \<open>C5. Refinement: a step of a node in a run is a sequence of steps of the abstract replica, which may
  only take, lock, sign and send as its rules say.\<close>

theorem core_refines_replica:
  assumes "core_run K b vs c" "committee_ok vs" "keccak_size K" "core_step K c c'"
  shows "replica_steps K (core_abs K c) (core_abs K c')"
proof -
  have "core_inv K c" "replica_inv K (core_abs K c)" using core_run_inv [OF assms(1-3)] by (simp_all add: run_inv_def)
  from core_step_commits [OF assms(4) this] show ?thesis by (simp add: commits_def)
qed

theorem core_refines_replica_witness:
  "replica_steps run_crypto (core_abs run_crypto decide_state) (core_abs run_crypto (run_seal decide_state))"
proof -
  have "core_step run_crypto decide_state (run_seal decide_state)"
    by (auto simp: run_seal_def split: prod.splits intro: core_step.seal)
  from core_refines_replica [OF decide_state(1) run_committee_ok run_keccak_size this] show ?thesis .
qed

text \<open>C6. Validity: a step of a node hands a block to the chain only on a decide message of the proposer, in
  the view of the node, with a verified certificate for the node it holds, and the block is the one
  it is locked on, with the number of its height.\<close>

theorem commits_are_decided:
  assumes "core_run K b vs c" "committee_ok vs" "keccak_size K" "core_step K c c'"
  shows "\<exists>out. outbox c' = outbox c @ out \<and> (\<forall>ex. FeedExecuted ex \<in> set out \<longrightarrow> (\<exists>m. decided K c m ex))"
proof -
  have "core_inv K c" "replica_inv K (core_abs K c)" using core_run_inv [OF assms(1-3)] by (simp_all add: run_inv_def)
  from core_step_commits [OF assms(4) this] show ?thesis by (auto simp: commits_def grows_def)
qed

theorem commits_are_decided_witness:
  "\<exists>c' ex m. run_step decide_state = Some c' \<and> FeedExecuted ex \<in> set (outbox c') \<and>
     decided run_crypto decide_state m ex"
proof -
  obtain c' where c': "feeds decide_state = []" "run_step decide_state = Some c'" "feeds c' \<noteq> []"
    using decide_state(2) by (auto simp: run_check_def split: option.splits prod.splits)
  then have st: "core_step run_crypto decide_state c'"
    by (auto simp: run_step_def split: option.splits
        intro: core_step.event [OF run_world_ok last_posted_deliverable])
  obtain out where out: "outbox c' = outbox decide_state @ out"
    "\<And>ex. FeedExecuted ex \<in> set out \<Longrightarrow> \<exists>m. decided run_crypto decide_state m ex"
    using commits_are_decided [OF decide_state(1) run_committee_ok run_keccak_size st] by blast
  obtain ex where "FeedExecuted ex \<in> set (outbox c')" "FeedExecuted ex \<notin> set (outbox decide_state)"
    using c'(1,3) feeds_iff by (metis list.set_intros(1) list.exhaust empty_iff list.set(1))
  with out c'(2) show ?thesis by auto
qed

text \<open>C7. A node never signs commit votes for two blocks of one height in a run, in whatever rounds. A restart
  ends the run (C13).\<close>

theorem one_commit_vote_per_height:
  assumes "core_run K b vs c" "committee_ok vs" "keccak_size K"
    and "BLSSigned bs \<in> set (outbox c)" "BLSSigned bs' \<in> set (outbox c)"
    and "hs_Encode (vote_item v) = Inr bs" "wf_vote v" "vCode v = MsgTypeCommitVote" "length bs < 2 ^ 63"
    and "hs_Encode (vote_item v') = Inr bs'" "wf_vote v'" "vCode v' = MsgTypeCommitVote" "length bs' < 2 ^ 63"
    and "Height (vView v) = Height (vView v')"
  shows "\<exists>p p' x. vProposedBlock v = node_hash K p (block_Hash K x) \<and>
    vProposedBlock v' = node_hash K p' (block_Hash K x)"
proof -
  have r: "replica_inv K (core_abs K c)" using core_run_inv [OF assms(1-3)] by (simp add: run_inv_def)
  have s: "bs \<in> r_signed (core_abs K c)" "bs' \<in> r_signed (core_abs K c)"
    using assms(4,5) by (simp_all add: core_abs_def abs_def)
  have l: "length bs < 2 ^ 64" "length bs' < 2 ^ 64" using assms(9,13) by simp_all
  from one_commit_per_height [OF r s l assms(7,6,8,11,10,12,14)] show ?thesis by blast
qed

theorem one_commit_vote_per_height_witness:
  "\<exists>v p x. hs_Encode (vote_item v) = Inr (run_votes ! 2) \<and> vCode v = MsgTypeCommitVote \<and>
     BLSSigned (run_votes ! 2) \<in> set (outbox decide_state) \<and>
     vProposedBlock v = node_hash run_crypto p (block_Hash run_crypto x)"
proof -
  let ?v = "\<lparr>vCode = MsgTypeCommitVote, vView = \<lparr>Round = 0, Height = 1\<rparr>, vProposedBlock = run_node,
    vBLSSignature = []\<rparr>"
  have b: "run_votes ! 2 = enc (vote_item ?v)" by (simp add: run_votes_def)
  have w: "wf_vote ?v" by (simp add: wf_vote_def wf_view_def run_node_def wf_lengths)
  have "length (run_votes ! 2) < 100" by code_simp
  then have l: "length (run_votes ! 2) < 2 ^ 63" by (rule less_trans) simp
  then have e: "hs_Encode (vote_item ?v) = Inr (run_votes ! 2)"
    using vote.encode_ok [OF w] unfolding b by (simp add: hs_Encode_def)
  have s: "BLSSigned (run_votes ! 2) \<in> set (outbox decide_state)"
    using decide_state(2) by (simp add: run_check_def run_votes_def)
  from one_commit_vote_per_height [OF decide_state(1) run_committee_ok run_keccak_size s s e w _ l e w _ l] e s
  show ?thesis by fastforce
qed

text \<open>C8. The view of a node never goes back: after a step it is the same or a later one.\<close>

theorem views_never_go_back:
  assumes "core_run K b vs c" "committee_ok vs" "keccak_size K" "core_step K c c'"
    and "current c = Some rs" "current c' = Some rs'"
  shows "rs_View rs' = rs_View rs \<or> view_less (rs_View rs) (rs_View rs')"
proof -
  have "core_inv K c" "replica_inv K (core_abs K c)" using core_run_inv [OF assms(1-3)] by (simp_all add: run_inv_def)
  from core_step_commits [OF assms(4) this] have "replica_steps K (core_abs K c) (core_abs K c')"
    by (simp add: commits_def)
  from replica_steps_view [OF this] assms(5,6) show ?thesis by (simp add: core_abs_def abs_def)
qed

theorem views_never_go_back_witness:
  "\<exists>rs rs'. current decide_state = Some rs \<and> current (run_seal decide_state) = Some rs' \<and>
     (rs_View rs' = rs_View rs \<or> view_less (rs_View rs) (rs_View rs'))"
proof -
  have st: "core_step run_crypto decide_state (run_seal decide_state)"
    by (auto simp: run_seal_def split: prod.splits intro: core_step.seal)
  obtain rs where rs: "current decide_state = Some rs"
    using decide_state_inv by (auto simp: run_inv_def core_inv_def)
  then have "current (run_seal decide_state) = Some rs" by (simp add: run_seal_def split: prod.splits)
  with views_never_go_back [OF decide_state(1) run_committee_ok run_keccak_size st rs] rs show ?thesis by blast
qed

text \<open>C10. Liveness of the round change: when the timer of a node fires and its chain has not reached its height,
  the node enters the next round of the height, takes requests, keeps its lock and its certificates, and has
  started the timer of that round.\<close>

theorem timeout_enters_next_round:
  assumes "core_run K b vs c" "committee_ok vs" "keccak_size K" "chain_ok w" "current c = Some rs"
    and "rs_round rs + 1 < 2 ^ 63" "fst (fst (LastProposal K w (c_backend c))) \<noteq> None"
    and "block_Number (w_currentBlock w) + 1 = rs_height rs"
  shows "\<exists>c' rs'. handleEvent K w TimeoutEvent c = Some c' \<and> current c' = Some rs' \<and> roundChangeTimer c' \<and>
    rs_View rs' = \<lparr>Round = rs_round rs + 1, Height = rs_height rs\<rparr> \<and> rs_state rs' = StateAcceptRequest \<and>
    LockedBlock rs' = LockedBlock rs \<and> lockQC rs' = lockQC rs \<and> prepareQC rs' = prepareQC rs"
proof -
  have inv: "core_inv K c" using core_run_inv [OF assms(1-3)] by (simp add: run_inv_def)
  obtain blk a b' where lp: "LastProposal K w (c_backend c) = ((Some blk, a), b')"
    using assms(7) by (metis fst_conv not_None_eq prod.exhaust)
  have "block_Number blk + 1 = rs_height rs" using assms(8) LastProposal_block [OF lp] by simp
  then show ?thesis
    by (rule timeout_advances [OF inv assms(5,4,6) lp]) (auto simp: handleEvent_def)
qed

theorem timeout_enters_next_round_witness:
  "\<exists>c c' rs'. core_Start run_crypto example_world (core_New example_backend None example_committee) = Some c \<and>
     handleEvent run_crypto example_world TimeoutEvent c = Some c' \<and> current c' = Some rs' \<and>
     rs_View rs' = \<lparr>Round = 1, Height = 1\<rparr>"
proof -
  let ?start = "core_Start run_crypto example_world (core_New example_backend None example_committee)"
  have "case ?start of None \<Rightarrow> False | Some c \<Rightarrow> b_hasCurrentBlock (c_backend c) \<and>
    (case current c of None \<Rightarrow> False | Some rs \<Rightarrow> rs_round rs = 0 \<and> rs_height rs = 1 \<and> prepareQC rs \<noteq> None)"
    by code_simp
  then obtain c rs where c: "?start = Some c" "b_hasCurrentBlock (c_backend c)" "current c = Some rs" "rs_round rs = 0"
      "rs_height rs = 1" "prepareQC rs \<noteq> None" by (auto split: option.splits)
  have "example_run c" using c run_world_ok(2) by (auto simp: no_view_def intro: core_run.start)
  moreover have n: "block_Number (w_currentBlock example_world) = 0"
    by (simp add: example_world_def genesis_block_def genesis_header_def block_Number_def)
  moreover have "fst (fst (LastProposal run_crypto example_world (c_backend c))) \<noteq> None"
    using c(2) n by (simp add: LastProposal_def)
  ultimately show ?thesis
    using timeout_enters_next_round [OF _ run_committee_ok run_keccak_size run_world_ok(2) c(3)] c by fastforce
qed

section \<open>Start\<close>

text \<open>C9. Liveness of the start: with a head of the chain and a database that takes the first certificate,
  \<open>core_Start\<close> returns a running node in round 0 of the next height that accepts requests.\<close>

theorem start_enters_first_round:
  assumes "committee_ok vs" "keccak_size K" "chain_ok w" "no_view db"
    and "fst (fst (LastProposal K w b)) \<noteq> None" "w_dbPut w prepareQCKey = None"
  shows "\<exists>c rs. core_Start K w (core_New b db vs) = Some c \<and> current c = Some rs \<and> isRunning c \<and>
    rs_View rs = \<lparr>Round = 0, Height = block_Number (w_currentBlock w) + 1\<rparr> \<and>
    rs_state rs = StateAcceptRequest"
  using start_succeeds [OF assms] by (auto simp: run_inv_def core_inv_def)

theorem start_enters_first_round_witness:
  "\<exists>c rs. core_Start run_crypto example_world (core_New example_backend None example_committee) = Some c \<and>
     current c = Some rs \<and> Height (rs_View rs) = 1"
proof -
  have "fst (fst (LastProposal run_crypto example_world example_backend)) \<noteq> None"
    "w_dbPut example_world prepareQCKey = None" "no_view None" "block_Number (w_currentBlock example_world) = 0"
    by (simp_all add: LastProposal_def example_backend_def example_world_def genesis_block_def genesis_header_def
        block_Number_def block_Header_def CopyHeader_def no_view_def)
  from start_enters_first_round [OF run_committee_ok run_keccak_size run_world_ok(2) this(3,1,2)] this(4)
  show ?thesis by fastforce
qed

text \<open>C13. A restart forgets the lock. A node has locked a block, and \<open>Lock\<close> has stored the lock in its database,
  which holds no view, as the code never stores one; reading the database back gives the lock. A new core starts
  on this database, on a chain whose head it can read, and can write a prepare certificate where it needs to. Then
  \<open>Start\<close> returns a node that is not locked, and every child of the head passes its check of proposed blocks, also
  one other than the block the node was locked on.\<close>

theorem restart_forgets_lock:
  assumes "Lock w' qc (Some m, s) = (None, db, s')" "node s = Some n" "pb_Block n = Some lb"
    and "pb_Hash K n = Some (qProposedBlock qc)" "wf_qc qc" "wf_pb K n"
    and "length (enc (qc_item qc)) < 2 ^ 64" "length (enc (pb_item n)) < 2 ^ 64" "m viewKey = None"
    and "committee_ok vs" "keccak_size K" "chain_ok w"
    and "fst (fst (LastProposal K w b)) \<noteq> None" "w_dbPut w prepareQCKey = None"
  shows "LockedBlock s' = Some lb \<and> (\<forall>v s0. LockedBlock (reload K v db s0) = Some lb) \<and>
    (\<exists>c rs. core_Start K w (core_New b db vs) = Some c \<and> current c = Some rs \<and> LockedBlock rs = None \<and>
       (\<forall>block. NumberU64 block = NumberU64 (w_currentBlock w) + 1 \<longrightarrow>
          ParentHash (header block) = block_Hash K (w_currentBlock w) \<longrightarrow> checkBlock K rs block = None))"
proof -
  note r = stored_lock_reloads [OF assms(1-8)]
  have "no_view db" using r(5) assms(9) by (auto simp: no_view_def)
  from start_succeeds [OF assms(10-12) this assms(13,14)]
  obtain c rs where "core_Start K w (core_New b db vs) = Some c" "current c = Some rs" "LockedBlock rs = None"
    "lastChainedBlock rs = w_currentBlock w" by blast
  with r(1,2) show ?thesis by (auto simp: checkBlock_def)
qed

text \<open>The locked node of C12 restarts, and a sibling of its block passes.\<close>

definition rival_block :: Block where
  "rival_block = next_block\<lparr>header := next_header\<lparr>Nonce := replicate 8 3\<rparr>\<rparr>"

theorem restart_forgets_lock_witness:
  "LockedBlock (snd locked_state) = Some next_block \<and>
     block_Hash example_crypto rival_block \<noteq> block_Hash example_crypto next_block \<and>
     (\<exists>c rs. core_Start example_crypto example_world (core_New example_backend (fst locked_state) example_committee) = Some c \<and>
        current c = Some rs \<and> LockedBlock rs = None \<and> checkBlock example_crypto rs rival_block = None)"
proof -
  let ?s = "example_round\<lparr>rs_state := StatePreCommitted, node := Some example_node, executed := Some executed_block,
     prepareQC := Some example_lockQC\<rparr>"
  have lk: "Lock example_world example_lockQC (Some Map.empty, ?s) = (None, fst locked_state, snd locked_state)"
    by (simp add: locked_state_Lock locked_state)
  have n: "node ?s = Some example_node" "pb_Block example_node = Some next_block"
    "pb_Hash example_crypto example_node = Some (qProposedBlock example_lockQC)"
    by (simp_all add: example_node_def pb_Hash_def example_lockQC_def)
  have h: "block_Hash example_crypto rival_block \<noteq> block_Hash example_crypto next_block"
    "NumberU64 rival_block = NumberU64 (w_currentBlock example_world) + 1"
    "ParentHash (header rival_block) = block_Hash example_crypto (w_currentBlock example_world)"
    "fst (fst (LastProposal example_crypto example_world example_backend)) \<noteq> None" by code_simp+
  have "w_dbPut example_world prepareQCKey = None" by (simp add: example_world_def)
  from restart_forgets_lock [OF lk n example_lock_wf example_lock_length _ run_committee_ok example_keccak_size
      run_world_ok(2) h(4) this] h(1-3)
  show ?thesis by auto
qed

section \<open>Quorums\<close>

text \<open>C14. Two quorums of validators, each of at least \<open>Q\<close> members as the code computes it, have a
  correct validator in common when at most \<open>F\<close> validators are faulty.\<close>

theorem quorums_share_correct_validator:
  assumes "wf_valset vs" "validators vs \<noteq> []"
    and "A \<subseteq> set (validators vs)" "B \<subseteq> set (validators vs)"
    and "Q vs \<le> int (card A)" "Q vs \<le> int (card B)"
    and "finite Byz" "int (card Byz) \<le> F vs"
  shows "\<exists>v. v \<in> A \<and> v \<in> B \<and> v \<notin> Byz"
  using quorums_meet [OF assms] by blast

theorem quorums_share_correct_validator_witness:
  "let vs = \<lparr>validators = [[1], [2], [3], [4]], policy = RoundRobin, proposer = None\<rparr>
   in \<exists>v. v \<in> {[1], [2], [3 :: byte]} \<and> v \<in> {[2], [3], [4]} \<and> v \<notin> {[3]}"
  using quorums_share_correct_validator
    [of "\<lparr>validators = [[1], [2], [3], [4]], policy = RoundRobin, proposer = None\<rparr>"
      "{[1], [2], [3]}" "{[2], [3], [4]}" "{[3]}"]
  by (simp add: wf_valset_def Q_def F_def Size_def signed_divide_int_def)

end
